(* ===== verification/Prelude.thy ===== *)
theory Prelude
  imports Main "HOL-Library.Word" "HOL-Library.Product_Lexorder" "HOL-Library.List_Lexorder"
    "HOL-Library.Multiset"
begin

text \<open>
  Shared ground of the development: the names of the machine types the Rust sources use, the
  parts of the standard library that several components call (\<open>Poll\<close>, \<open>Reverse\<close>, saturating
  arithmetic, \<open>BTreeMap\<close>, \<open>Vec::remove\<close>, \<open>Iterator::rposition\<close>), the interfaces stated as
  locales (an ordered map, a machine with an invariant) and the generic lemmas on lists, words and
  stable sorting that carry the component proofs.
\<close>

section \<open>Machine types\<close>

type_synonym u8 = "8 word"
type_synonym u16 = "16 word"
type_synonym u32 = "32 word"
type_synonym u64 = "64 word"
type_synonym bytes = "u8 list"

text \<open>
  A Rust \<open>String\<close> is a sequence of UTF-8 bytes; the model's \<open>string\<close> is a list of 8-bit
  characters, so it holds the same bytes and \<open>length\<close> counts bytes as \<open>String::len\<close> does.
\<close>

definition byte_of_char :: "char \<Rightarrow> u8" where
  "byte_of_char c = word_of_nat (of_char c)"

definition into_bytes :: "string \<Rightarrow> bytes" where
  "into_bytes s = map byte_of_char s"

text \<open>The decimal \<open>Display\<close> of an unsigned number.\<close>

fun nat_display :: "nat \<Rightarrow> string" where
  "nat_display n =
     (if n < 10 then [char_of (48 + n)] else nat_display (n div 10) @ [char_of (48 + n mod 10)])"

declare nat_display.simps [simp del]

text \<open>\<open>Debug\<close> of a \<open>Duration\<close>, in nanoseconds: the largest unit that fits, with its fraction less trailing zeros.\<close>

definition pad_left :: "nat \<Rightarrow> string \<Rightarrow> string" where
  "pad_left width s = replicate (width - length s) (CHR ''0'') @ s"

definition strip_zeros :: "string \<Rightarrow> string" where
  "strip_zeros s = rev (dropWhile (\<lambda>c. c = CHR ''0'') (rev s))"

definition fmt_decimal :: "nat \<Rightarrow> nat \<Rightarrow> nat \<Rightarrow> string" where
  "fmt_decimal integer fraction digits =
     (let f = strip_zeros (pad_left digits (nat_display fraction))
      in if fraction = 0 then nat_display integer else nat_display integer @ ''.'' @ f)"

definition duration_debug :: "nat \<Rightarrow> string" where
  "duration_debug d =
     (if d \<ge> 10 ^ 9 then fmt_decimal (d div 10 ^ 9) (d mod 10 ^ 9) 9 @ ''s''
      else if d \<ge> 10 ^ 6 then fmt_decimal (d div 10 ^ 6) (d mod 10 ^ 6) 6 @ ''ms''
      else if d \<ge> 10 ^ 3 then fmt_decimal (d div 10 ^ 3) (d mod 10 ^ 3) 3 @ [CHR 0xC2, CHR 0xB5] @ ''s''
      else nat_display d @ ''ns'')"

text \<open>A 32-byte public key: \<open>iroh::EndpointId\<close> and its \<open>as_bytes()\<close> are the same bytes.\<close>

type_synonym endpoint_id = bytes

datatype 'a poll = Ready 'a | Pending

text \<open>A call that returns a value or panics.\<close>

datatype 'a outcome = Returned 'a | Panicked

text \<open>\<open>tokio::time::interval\<close> panics on a period of zero.\<close>

definition tokio_interval :: "nat \<Rightarrow> unit outcome" where
  "tokio_interval period = (if period = 0 then Panicked else Returned ())"

text \<open>Saturating arithmetic of unsigned words (\<open>u64::saturating_add\<close>, \<open>saturating_sub\<close>).\<close>

definition saturating_add :: "'a::len word \<Rightarrow> 'a word \<Rightarrow> 'a word" where
  "saturating_add a b = (if unat a + unat b < 2 ^ LENGTH('a) then a + b else - 1)"

definition saturating_sub :: "'a::len word \<Rightarrow> 'a word \<Rightarrow> 'a word" where
  "saturating_sub a b = (if b \<le> a then a - b else 0)"

section \<open>Reversed orders\<close>

text \<open>\<open>std::cmp::Reverse\<close>: the same values with the order turned round.\<close>

datatype 'a reverse = Reverse (unReverse: 'a)

instantiation reverse :: (linorder) linorder
begin

definition less_eq_reverse :: "'a reverse \<Rightarrow> 'a reverse \<Rightarrow> bool" where
  "less_eq_reverse a b \<longleftrightarrow> unReverse b \<le> unReverse a"

definition less_reverse :: "'a reverse \<Rightarrow> 'a reverse \<Rightarrow> bool" where
  "less_reverse a b \<longleftrightarrow> unReverse b < unReverse a"

instance
proof
  fix x y z :: "'a reverse"
  show "(x < y) = (x \<le> y \<and> \<not> y \<le> x)"
    by (auto simp: less_eq_reverse_def less_reverse_def)
  show "x \<le> x" by (simp add: less_eq_reverse_def)
  show "x \<le> y \<Longrightarrow> y \<le> z \<Longrightarrow> x \<le> z" by (simp add: less_eq_reverse_def)
  show "x \<le> y \<Longrightarrow> y \<le> x \<Longrightarrow> x = y"
    by (simp add: less_eq_reverse_def reverse.expand)
  show "x \<le> y \<or> y \<le> x" by (auto simp: less_eq_reverse_def)
qed

end

lemma reverse_le_iff [simp]: "Reverse a \<le> Reverse b \<longleftrightarrow> b \<le> (a :: 'a :: linorder)"
  by (simp add: less_eq_reverse_def)

lemma reverse_less_iff [simp]: "Reverse a < Reverse b \<longleftrightarrow> b < (a :: 'a :: linorder)"
  by (simp add: less_reverse_def)

section \<open>Vectors\<close>

text \<open>\<open>Iterator::rposition\<close> and \<open>Vec::remove\<close>.\<close>

fun rposition :: "('a \<Rightarrow> bool) \<Rightarrow> 'a list \<Rightarrow> nat option" where
  "rposition P [] = None"
| "rposition P (x # xs) =
     (case rposition P xs of
        Some i \<Rightarrow> Some (Suc i)
      | None \<Rightarrow> if P x then Some 0 else None)"

definition vec_remove :: "nat \<Rightarrow> 'a list \<Rightarrow> 'a list" where
  "vec_remove i xs = take i xs @ drop (Suc i) xs"

text \<open>\<open>Iterator::filter_map\<close> and \<open>Iterator::max\<close> over an optional result.\<close>

definition iter_max :: "'a::linorder list \<Rightarrow> 'a option" where
  "iter_max xs = (if xs = [] then None else Some (Max (set xs)))"

section \<open>Ordered maps\<close>

text \<open>
  \<open>BTreeMap\<close> as an association list in increasing order of its keys: \<open>insert\<close> replaces the value
  of a key that is present and \<open>into_values\<close> gives the values in key order.
\<close>

type_synonym ('k, 'v) btree_map = "('k \<times> 'v) list"

definition btree_get :: "'k \<Rightarrow> ('k, 'v) btree_map \<Rightarrow> 'v option" where
  "btree_get k m = map_of m k"

fun btree_insert :: "'k::linorder \<Rightarrow> 'v \<Rightarrow> ('k, 'v) btree_map \<Rightarrow> ('k, 'v) btree_map" where
  "btree_insert k v [] = [(k, v)]"
| "btree_insert k v ((k', v') # m) =
     (if k < k' then (k, v) # (k', v') # m
      else if k = k' then (k, v) # m
      else (k', v') # btree_insert k v m)"

definition btree_values :: "('k, 'v) btree_map \<Rightarrow> 'v list" where
  "btree_values m = map snd m"

definition btree_invar :: "('k::linorder, 'v) btree_map \<Rightarrow> bool" where
  "btree_invar m \<longleftrightarrow> sorted_wrt (<) (map fst m)"

text \<open>What a client of an ordered map relies on.\<close>

locale ordered_map =
  fixes empty :: "'m"
    and get :: "'k::linorder \<Rightarrow> 'm \<Rightarrow> 'v option"
    and insert :: "'k \<Rightarrow> 'v \<Rightarrow> 'm \<Rightarrow> 'm"
    and entries :: "'m \<Rightarrow> ('k \<times> 'v) list"
    and invar :: "'m \<Rightarrow> bool"
  assumes invar_empty: "invar empty"
    and invar_insert: "invar m \<Longrightarrow> invar (insert k v m)"
    and get_empty: "get k empty = None"
    and get_insert: "invar m \<Longrightarrow> get k' (insert k v m) = (if k' = k then Some v else get k' m)"
    and entries_get: "invar m \<Longrightarrow> (k, v) \<in> set (entries m) \<longleftrightarrow> get k m = Some v"
    and entries_distinct: "invar m \<Longrightarrow> distinct (map fst (entries m))"
begin

text \<open>
  The client: for each key keep the least value offered, by a rank; an offer that does not beat
  the present value leaves it. A whole list of offers is folded in from the left.
\<close>

definition offer :: "('v \<Rightarrow> 'k) \<Rightarrow> ('v \<Rightarrow> 'r::linorder) \<Rightarrow> 'm \<Rightarrow> 'v \<Rightarrow> 'm" where
  "offer key rank m x =
     (case get (key x) m of
        None \<Rightarrow> insert (key x) x m
      | Some y \<Rightarrow> if rank x < rank y then insert (key x) x m else m)"

lemma invar_offer: "invar m \<Longrightarrow> invar (offer key rank m x)"
  by (simp add: offer_def invar_insert split: option.split)

lemma invar_offers: "invar m \<Longrightarrow> invar (foldl (offer key rank) m xs)"
  by (induction xs arbitrary: m) (simp_all add: invar_offer)

lemma get_offer_other: "invar m \<Longrightarrow> k \<noteq> key x \<Longrightarrow> get k (offer key rank m x) = get k m"
  by (simp add: offer_def get_insert split: option.split)

lemma get_offer_same:
  "invar m \<Longrightarrow> get (key x) (offer key rank m x) =
     Some (case get (key x) m of None \<Rightarrow> x | Some y \<Rightarrow> if rank x < rank y then x else y)"
  by (simp add: offer_def get_insert split: option.split)

lemma get_offer_le:
  assumes "invar m" and "get k m = Some z"
  shows "\<exists>z'. get k (offer key rank m x) = Some z' \<and> rank z' \<le> rank z"
  using assms by (cases "k = key x") (auto simp: get_offer_other get_offer_same)

lemma get_offer_le_self:
  assumes "invar m"
  shows "\<exists>z. get (key x) (offer key rank m x) = Some z \<and> rank z \<le> rank x"
  using assms by (cases "get (key x) m") (auto simp: get_offer_same)

text \<open>What the map holds after a list of offers: an offered value, of least rank for its key.\<close>

lemma offers_from:
  assumes "invar m" and "get k (foldl (offer key rank) m xs) = Some y"
  shows "get k m = Some y \<or> (y \<in> set xs \<and> key y = k)"
  using assms
proof (induction xs arbitrary: m)
  case Nil
  then show ?case by simp
next
  case (Cons x xs)
  then have "get k (offer key rank m x) = Some y \<or> (y \<in> set xs \<and> key y = k)"
    by (simp add: invar_offer)
  then show ?case
    using Cons.prems(1)
    by (cases "k = key x") (auto simp: get_offer_other get_offer_same split: option.splits if_splits)
qed

lemma offers_present:
  assumes "invar m" and "get k m = Some z"
  shows "\<exists>y. get k (foldl (offer key rank) m xs) = Some y \<and> rank y \<le> rank z"
  using assms
proof (induction xs arbitrary: m z)
  case Nil
  then show ?case by auto
next
  case (Cons x xs)
  obtain z' where z': "get k (offer key rank m x) = Some z'" "rank z' \<le> rank z"
    using get_offer_le [OF Cons.prems] by blast
  then obtain y where "get k (foldl (offer key rank) (offer key rank m x) xs) = Some y"
      and "rank y \<le> rank z'"
    using Cons.IH [OF invar_offer [OF Cons.prems(1)]] by blast
  with z' show ?case by auto
qed

lemma offers_complete:
  assumes "invar m" and "x \<in> set xs"
  shows "\<exists>y. get (key x) (foldl (offer key rank) m xs) = Some y \<and> rank y \<le> rank x"
  using assms
proof (induction xs arbitrary: m)
  case Nil
  then show ?case by simp
next
  case (Cons a xs)
  show ?case
  proof (cases "x \<in> set xs")
    case True
    then show ?thesis using Cons.IH [OF invar_offer [OF Cons.prems(1)]] by simp
  next
    case False
    with Cons.prems have [simp]: "a = x" by simp
    obtain z where z: "get (key x) (offer key rank m x) = Some z" "rank z \<le> rank x"
      using get_offer_le_self [OF Cons.prems(1)] by blast
    obtain y where "get (key x) (foldl (offer key rank) (offer key rank m x) xs) = Some y"
        and "rank y \<le> rank z"
      using offers_present [OF invar_offer [OF Cons.prems(1)] z(1)] by blast
    with z(2) show ?thesis by auto
  qed
qed

end

lemma btree_insert_keys: "fst ` set (btree_insert k v m) = Set.insert k (fst ` set m)"
proof (induction m)
  case (Cons p m)
  then show ?case by (cases p) (auto simp: image_iff)
qed simp

lemma btree_invar_insert: "btree_invar m \<Longrightarrow> btree_invar (btree_insert k v m)"
proof (induction m)
  case Nil
  then show ?case by (simp add: btree_invar_def)
next
  case (Cons p m)
  obtain k' v' where p: "p = (k', v')" by (cases p)
  with Cons.prems have tl: "btree_invar m" and lt: "\<forall>x \<in> fst ` set m. k' < x"
    by (auto simp: btree_invar_def)
  from lt have "k' < k \<Longrightarrow> \<forall>x \<in> fst ` set (btree_insert k v m). k' < x"
    by (simp only: btree_insert_keys) auto
  with p lt Cons.IH [OF tl] tl show ?case
    by (auto simp: btree_invar_def not_less_iff_gr_or_eq)
qed

lemma btree_get_insert:
  "btree_get k' (btree_insert k v m) = (if k' = k then Some v else btree_get k' m)"
  by (induction m) (auto simp: btree_get_def)

lemma btree_invar_distinct: "btree_invar m \<Longrightarrow> distinct (map fst m)"
  by (simp add: btree_invar_def strict_sorted_iff)

interpretation btree: ordered_map "[]" btree_get btree_insert "\<lambda>m. m" btree_invar
proof
  show "btree_invar []" by (simp add: btree_invar_def)
  show "btree_invar m \<Longrightarrow> btree_invar (btree_insert k v m)" for m and k :: 'a and v :: 'b
    by (rule btree_invar_insert)
  show "btree_get k [] = None" for k :: 'a by (simp add: btree_get_def)
  show "btree_get k' (btree_insert k v m) = (if k' = k then Some v else btree_get k' m)"
    for m and k k' :: 'a and v :: 'b by (rule btree_get_insert)
  show "btree_invar m \<Longrightarrow> (k, v) \<in> set m \<longleftrightarrow> btree_get k m = Some v" for m and k :: 'a and v :: 'b
    by (simp add: btree_get_def btree_invar_distinct)
  show "btree_invar m \<Longrightarrow> distinct (map fst m)" for m :: "('a \<times> 'b) list"
    by (rule btree_invar_distinct)
qed

section \<open>Machines with an invariant\<close>

text \<open>
  An actor is a state and a step per message. A component proves once that every step keeps its
  invariant; every finite run then keeps it.
\<close>

locale machine =
  fixes step :: "'s \<Rightarrow> 'm \<Rightarrow> 's"
    and inv :: "'s \<Rightarrow> bool"
  assumes step_inv: "inv s \<Longrightarrow> inv (step s m)"
begin

lemma run_inv: "inv s \<Longrightarrow> inv (foldl step s ms)"
  by (induction ms arbitrary: s) (simp_all add: step_inv)

lemma run_prefix_inv: "inv s \<Longrightarrow> inv (foldl step s (take n ms))"
  by (rule run_inv)

end

text \<open>A system that implements another: under its invariant, every step is some steps of the
  specification, seen through an abstraction. Then so is every run, and an invariant of the
  specification is one of the system.\<close>

locale refinement =
  fixes cstep :: "'c \<Rightarrow> 'c \<Rightarrow> bool"
    and astep :: "'a \<Rightarrow> 'a \<Rightarrow> bool"
    and abs_of :: "'c \<Rightarrow> 'a"
    and cinv :: "'c \<Rightarrow> bool"
  assumes cinv_step: "cinv s \<Longrightarrow> cstep s s' \<Longrightarrow> cinv s'"
    and simulates: "cinv s \<Longrightarrow> cstep s s' \<Longrightarrow> astep\<^sup>*\<^sup>* (abs_of s) (abs_of s')"
begin

lemma steps_refine: "cstep\<^sup>*\<^sup>* s s' \<Longrightarrow> cinv s \<Longrightarrow> astep\<^sup>*\<^sup>* (abs_of s) (abs_of s') \<and> cinv s'"
  by (induction rule: rtranclp_induct) (auto intro: cinv_step dest: simulates rtranclp_trans)

lemma spec_invariant:
  assumes "\<And>a a'. P a \<Longrightarrow> astep a a' \<Longrightarrow> P a'" and "cstep\<^sup>*\<^sup>* s s'" and "cinv s" and "P (abs_of s)"
  shows "P (abs_of s')"
proof -
  have "P b" if "astep\<^sup>*\<^sup>* a b" "P a" for a b using that by (induction rule: rtranclp_induct) (auto intro: assms(1))
  then show ?thesis using steps_refine [OF assms(2,3)] assms(4) by blast
qed

end

section \<open>Generic lemmas\<close>

lemma unat_byte_of_char: "unat (byte_of_char c) = of_char c"
  by (simp add: byte_of_char_def unat_of_nat)

lemma byte_of_char_eq_iff [simp]: "byte_of_char c = byte_of_char d \<longleftrightarrow> c = d"
  by (metis unat_byte_of_char of_char_eq_iff)

lemma into_bytes_eq_iff [simp]: "into_bytes s = into_bytes t \<longleftrightarrow> s = t"
  by (simp add: into_bytes_def inj_map_eq_map inj_def)

lemma length_into_bytes [simp]: "length (into_bytes s) = length s"
  by (simp add: into_bytes_def)

lemma into_bytes_append: "into_bytes (s @ t) = into_bytes s @ into_bytes t"
  by (simp add: into_bytes_def)

lemma unat_saturating_add:
  fixes a :: "'a::len word"
  shows "unat (saturating_add a b) = min (unat a + unat b) (2 ^ LENGTH('a) - 1)"
  by (auto simp: saturating_add_def unat_word_ariths unsigned_minus_1_eq_mask mask_eq_exp_minus_1
      not_less min_def)

lemma unat_saturating_sub: "unat (saturating_sub a b) = unat a - unat b"
  by (auto simp: saturating_sub_def word_le_nat_alt unat_sub)

lemma rposition_Some:
  "rposition P xs = Some i \<Longrightarrow> i < length xs \<and> P (xs ! i) \<and> (\<forall>j. i < j \<and> j < length xs \<longrightarrow> \<not> P (xs ! j))"
proof (induction xs arbitrary: i)
  case Nil
  then show ?case by simp
next
  case (Cons x xs)
  show ?case
  proof (cases "rposition P xs")
    case None
    then have "\<forall>y \<in> set xs. \<not> P y" by (induction xs) (auto split: option.splits if_splits)
    with None Cons.prems show ?thesis by (auto split: if_splits simp: nth_Cons')
  next
    case (Some k)
    with Cons.prems have "i = Suc k" by simp
    with Cons.IH [OF Some] show ?thesis by (auto simp: nth_Cons split: nat.splits)
  qed
qed

lemma rposition_None: "rposition P xs = None \<longleftrightarrow> (\<forall>x \<in> set xs. \<not> P x)"
  by (induction xs) (auto split: option.splits)

lemma length_vec_remove: "i < length xs \<Longrightarrow> length (vec_remove i xs) = length xs - 1"
  by (simp add: vec_remove_def)

lemma vec_remove_last: "xs \<noteq> [] \<Longrightarrow> vec_remove (length xs - 1) xs = butlast xs"
  by (simp add: vec_remove_def butlast_conv_take)

text \<open>Stable sorting: the library's \<open>sort_key\<close> is \<open>slice::sort_by_key\<close>.\<close>

lemma distinct_map_sort_key: "distinct (map g (sort_key f xs)) \<longleftrightarrow> distinct (map g xs)"
  by (metis (no_types) distinct_map distinct_sort set_sort)

lemma rposition_last: "xs \<noteq> [] \<Longrightarrow> P (last xs) \<Longrightarrow> rposition P xs = Some (length xs - 1)"
proof (induction xs)
  case (Cons x xs)
  then show ?case by (cases xs) auto
qed simp

end
