(* ===== verification/Service_Record.thy ===== *)
theory Service_Record
  imports Prelude
begin

text \<open>
  \<^verbatim>\<open>src/swarm/record.rs\<close>: signed service advertisements, the bounded bucket that holds them, and
  the operations that merge, update and trim a bucket. Keys, signatures and the postcard codec are
  third-party code: they are the parameters \<open>crypto\<close> and \<open>postcard\<close> of the definitions, and what a
  property relies on of them is a named hypothesis (\<open>sign_correct\<close>, \<open>sign_binding\<close>,
  \<open>envelope_codec_injective\<close>).
\<close>

section \<open>Definitions\<close>

definition DHT_BUCKET_VERSION :: u8 where
  "DHT_BUCKET_VERSION = 2"

definition DHT_MAX_BUCKET_BYTES :: nat where
  "DHT_MAX_BUCKET_BYTES = 1000"

definition MAX_FUTURE_SKEW_SECS :: u64 where
  "MAX_FUTURE_SKEW_SECS = 300"

record service_ad =
  ad_node_id :: bytes
  ad_tags :: "string list"
  ad_published_at :: u64
  ad_expires_at :: u64

record signed_service_ad =
  sa_ad :: service_ad
  sa_signature :: bytes

record service_bucket =
  bk_version :: u8
  bk_ads :: "signed_service_ad list"

record service_ad_envelope =
  env_version :: u8
  env_alpn :: bytes
  env_minute :: u64
  env_shard :: u8
  env_node_id :: bytes
  env_tags :: "string list"
  env_published_at :: u64
  env_expires_at :: u64

text \<open>
  The iroh key operations the source calls: \<open>SecretKey::public\<close> (as bytes), \<open>SecretKey::sign\<close>,
  \<open>EndpointId::from_bytes\<close> and \<open>EndpointId::verify\<close>.
\<close>

record crypto =
  key_public :: "bytes \<Rightarrow> bytes"
  key_sign :: "bytes \<Rightarrow> bytes \<Rightarrow> bytes"
  id_from_bytes :: "bytes \<Rightarrow> endpoint_id option"
  id_verify :: "endpoint_id \<Rightarrow> bytes \<Rightarrow> bytes \<Rightarrow> bool"

text \<open>The postcard calls: \<open>to_allocvec\<close> on the envelope and on a bucket, \<open>from_bytes\<close> on a bucket.\<close>

record postcard =
  pc_envelope :: "service_ad_envelope \<Rightarrow> string + bytes"
  pc_bucket :: "service_bucket \<Rightarrow> string + bytes"
  pc_bucket_from :: "bytes \<Rightarrow> string + service_bucket"

definition signing_message :: "postcard \<Rightarrow> bytes \<Rightarrow> u64 \<Rightarrow> u8 \<Rightarrow> service_ad \<Rightarrow> string + bytes" where
  "signing_message pc alpn minute shard ad =
     pc_envelope pc
       \<lparr>env_version = DHT_BUCKET_VERSION, env_alpn = alpn, env_minute = minute, env_shard = shard,
        env_node_id = ad_node_id ad, env_tags = ad_tags ad,
        env_published_at = ad_published_at ad, env_expires_at = ad_expires_at ad\<rparr>"

definition sign :: "crypto \<Rightarrow> postcard \<Rightarrow> bytes \<Rightarrow> bytes \<Rightarrow> u64 \<Rightarrow> u8 \<Rightarrow> string list \<Rightarrow> u64 \<Rightarrow> u64
    \<Rightarrow> string + signed_service_ad" where
  "sign cr pc secret_key alpn minute shard tags published_at expires_at =
     (let ad = \<lparr>ad_node_id = key_public cr secret_key, ad_tags = tags,
                ad_published_at = published_at, ad_expires_at = expires_at\<rparr>
      in case signing_message pc alpn minute shard ad of
           Inl e \<Rightarrow> Inl e
         | Inr message \<Rightarrow> Inr \<lparr>sa_ad = ad, sa_signature = key_sign cr secret_key message\<rparr>)"

definition ad_endpoint_id :: "crypto \<Rightarrow> signed_service_ad \<Rightarrow> endpoint_id option" where
  "ad_endpoint_id cr sa = id_from_bytes cr (ad_node_id (sa_ad sa))"

definition node_id :: "signed_service_ad \<Rightarrow> bytes" where
  "node_id sa = ad_node_id (sa_ad sa)"

definition has_tags :: "signed_service_ad \<Rightarrow> string list \<Rightarrow> bool" where
  "has_tags sa required_tags = list_all (\<lambda>tag. tag \<in> set (ad_tags (sa_ad sa))) required_tags"

definition published_at :: "signed_service_ad \<Rightarrow> u64" where
  "published_at sa = ad_published_at (sa_ad sa)"

definition expires_at :: "signed_service_ad \<Rightarrow> u64" where
  "expires_at sa = ad_expires_at (sa_ad sa)"

definition verify :: "crypto \<Rightarrow> postcard \<Rightarrow> bytes \<Rightarrow> u64 \<Rightarrow> u8 \<Rightarrow> u64 \<Rightarrow> signed_service_ad \<Rightarrow> bool" where
  "verify cr pc alpn minute shard now sa =
     (if ad_expires_at (sa_ad sa) \<le> now
         \<or> ad_published_at (sa_ad sa) > ad_expires_at (sa_ad sa)
         \<or> ad_published_at (sa_ad sa) > saturating_add now MAX_FUTURE_SKEW_SECS
      then False
      else (case ad_endpoint_id cr sa of
              None \<Rightarrow> False
            | Some endpoint_id \<Rightarrow>
                (case signing_message pc alpn minute shard (sa_ad sa) of
                   Inr message \<Rightarrow> id_verify cr endpoint_id message (sa_signature sa)
                 | Inl _ \<Rightarrow> False)))"

type_synonym ad_key = "u64 reverse \<times> u64 reverse \<times> bytes"

definition ad_sort_key :: "signed_service_ad \<Rightarrow> ad_key" where
  "ad_sort_key sa = (Reverse (published_at sa), Reverse (expires_at sa), node_id sa)"

definition ad_precedes :: "signed_service_ad \<Rightarrow> signed_service_ad \<Rightarrow> bool" where
  "ad_precedes candidate existing \<longleftrightarrow> ad_sort_key candidate < ad_sort_key existing"

definition preferred_ad_sort_key :: "bytes option \<Rightarrow> signed_service_ad \<Rightarrow> bool \<times> ad_key" where
  "preferred_ad_sort_key preferred_node sa =
     (let deprioritized = (case preferred_node of Some n \<Rightarrow> node_id sa \<noteq> n | None \<Rightarrow> False)
      in (deprioritized, Reverse (published_at sa), Reverse (expires_at sa), node_id sa))"

definition bucket_new :: "signed_service_ad list \<Rightarrow> service_bucket" where
  "bucket_new ads = \<lparr>bk_version = DHT_BUCKET_VERSION, bk_ads = ads\<rparr>"

text \<open>The two nested loops of \<open>merge_valid\<close>: one entry of the map per advertisement, then per bucket.\<close>

type_synonym merged_ads = "(bytes, signed_service_ad) btree_map"

definition merge_ad :: "(signed_service_ad \<Rightarrow> bool) \<Rightarrow> merged_ads \<Rightarrow> signed_service_ad \<Rightarrow> merged_ads" where
  "merge_ad valid merged ad =
     (if \<not> valid ad then merged
      else (case btree_get (node_id ad) merged of
              None \<Rightarrow> btree_insert (node_id ad) ad merged
            | Some existing \<Rightarrow>
                (if ad_precedes ad existing then btree_insert (node_id ad) ad merged else merged)))"

definition merge_bucket :: "(signed_service_ad \<Rightarrow> bool) \<Rightarrow> merged_ads \<Rightarrow> service_bucket \<Rightarrow> merged_ads" where
  "merge_bucket valid merged bucket =
     (if bk_version bucket \<noteq> DHT_BUCKET_VERSION then merged
      else foldl (merge_ad valid) merged (bk_ads bucket))"

definition merge_valid :: "crypto \<Rightarrow> postcard \<Rightarrow> service_bucket list \<Rightarrow> bytes \<Rightarrow> u64 \<Rightarrow> u8 \<Rightarrow> u64
    \<Rightarrow> signed_service_ad list" where
  "merge_valid cr pc buckets alpn minute shard now =
     sort_key ad_sort_key
       (btree_values (foldl (merge_bucket (verify cr pc alpn minute shard now)) [] buckets))"

fun upsert_ads :: "signed_service_ad \<Rightarrow> signed_service_ad list \<Rightarrow> signed_service_ad list" where
  "upsert_ads ad [] = [ad]"
| "upsert_ads ad (existing # rest) =
     (if node_id existing = node_id ad
      then (if ad_precedes ad existing then ad # rest else existing # rest)
      else existing # upsert_ads ad rest)"

definition upsert :: "service_bucket \<Rightarrow> signed_service_ad \<Rightarrow> service_bucket" where
  "upsert bucket ad = bucket\<lparr>bk_ads := upsert_ads ad (bk_ads bucket)\<rparr>"

definition encoded_len :: "postcard \<Rightarrow> service_bucket \<Rightarrow> string + nat" where
  "encoded_len pc bucket = map_sum id length (pc_bucket pc bucket)"

definition removal_idx :: "bytes option \<Rightarrow> service_bucket \<Rightarrow> nat option" where
  "removal_idx preferred_node bucket =
     rposition (\<lambda>ad. Some (node_id ad) \<noteq> preferred_node) (bk_ads bucket)"

text \<open>The trimming loop: one advertisement leaves per round. The bucket is mutated in place, so the
  result carries it also when the encoder fails.\<close>

function trim_loop :: "postcard \<Rightarrow> bytes option \<Rightarrow> service_bucket \<Rightarrow> service_bucket \<times> (string + bool)" where
  "trim_loop pc preferred_node bucket =
     (case encoded_len pc bucket of
        Inl e \<Rightarrow> (bucket, Inl e)
      | Inr n \<Rightarrow>
          (if n \<le> DHT_MAX_BUCKET_BYTES then (bucket, Inr True)
           else (case removal_idx preferred_node bucket of
                   Some idx \<Rightarrow>
                     trim_loop pc preferred_node (bucket\<lparr>bk_ads := vec_remove idx (bk_ads bucket)\<rparr>)
                 | None \<Rightarrow>
                     (case encoded_len pc bucket of
                        Inl e \<Rightarrow> (bucket, Inl e)
                      | Inr n' \<Rightarrow> (bucket, Inr (n' \<le> DHT_MAX_BUCKET_BYTES))))))"
  by pat_completeness auto
termination
  by (relation "measure (\<lambda>(pc, p, b). length (bk_ads b))")
     (auto simp: removal_idx_def length_vec_remove dest!: rposition_Some)

declare trim_loop.simps [simp del]

definition trim_to_size :: "postcard \<Rightarrow> service_bucket \<Rightarrow> bytes option \<Rightarrow> service_bucket \<times> (string + bool)" where
  "trim_to_size pc bucket preferred_node =
     trim_loop pc preferred_node
       (bucket\<lparr>bk_ads := sort_key (preferred_ad_sort_key preferred_node) (bk_ads bucket)\<rparr>)"

text \<open>Documented behaviour of the third-party code, as hypotheses of the properties below.\<close>

definition sign_correct :: "crypto \<Rightarrow> bytes \<Rightarrow> bool" where
  "sign_correct cr sk \<longleftrightarrow>
     id_from_bytes cr (key_public cr sk) = Some (key_public cr sk) \<and>
     (\<forall>m. id_verify cr (key_public cr sk) m (key_sign cr sk m))"

definition sign_binding :: "crypto \<Rightarrow> bytes \<Rightarrow> bool" where
  "sign_binding cr sk \<longleftrightarrow>
     (\<forall>m m'. id_verify cr (key_public cr sk) m' (key_sign cr sk m) \<longrightarrow> m' = m)"

definition envelope_codec_injective :: "postcard \<Rightarrow> bool" where
  "envelope_codec_injective pc \<longleftrightarrow>
     (\<forall>e e' m. pc_envelope pc e = Inr m \<longrightarrow> pc_envelope pc e' = Inr m \<longrightarrow> e = e')"

text \<open>Specifications the operations are measured against.\<close>

definition valid_ads :: "(signed_service_ad \<Rightarrow> bool) \<Rightarrow> service_bucket list \<Rightarrow> signed_service_ad list" where
  "valid_ads valid buckets =
     concat (map (\<lambda>b. filter valid (bk_ads b)) (filter (\<lambda>b. bk_version b = DHT_BUCKET_VERSION) buckets))"

definition ad_of :: "signed_service_ad list \<Rightarrow> bytes \<rightharpoonup> signed_service_ad" where
  "ad_of ads = map_of (map (\<lambda>a. (node_id a, a)) ads)"

definition bucket_fits :: "postcard \<Rightarrow> service_bucket \<Rightarrow> bool" where
  "bucket_fits pc bucket \<longleftrightarrow>
     (case encoded_len pc bucket of Inr n \<Rightarrow> n \<le> DHT_MAX_BUCKET_BYTES | Inl _ \<Rightarrow> False)"

definition preferred :: "bytes option \<Rightarrow> signed_service_ad \<Rightarrow> bool" where
  "preferred preferred_node ad \<longleftrightarrow> Some (node_id ad) = preferred_node"

section \<open>Signatures and validity\<close>

lemma verify_iff:
  "verify cr pc alpn minute shard now sa \<longleftrightarrow>
     now < expires_at sa \<and> published_at sa \<le> expires_at sa \<and>
     unat (published_at sa) \<le> unat now + 300 \<and>
     (\<exists>eid m. ad_endpoint_id cr sa = Some eid \<and>
        signing_message pc alpn minute shard (sa_ad sa) = Inr m \<and> id_verify cr eid m (sa_signature sa))"
proof -
  have "published_at sa > saturating_add now MAX_FUTURE_SKEW_SECS \<longleftrightarrow>
      unat (published_at sa) > unat now + 300"
    using unsigned_less [of "published_at sa", where 'a = nat]
    by (auto simp: word_less_nat_alt unat_saturating_add MAX_FUTURE_SKEW_SECS_def)
  then show ?thesis
    by (auto simp: verify_def published_at_def expires_at_def not_le not_less
        split: option.splits sum.splits)
qed

lemma sign_cases:
  "sign cr pc sk alpn minute shard tags pub ex = Inr sa \<Longrightarrow>
     sa_ad sa = \<lparr>ad_node_id = key_public cr sk, ad_tags = tags, ad_published_at = pub, ad_expires_at = ex\<rparr> \<and>
     (\<exists>m. signing_message pc alpn minute shard (sa_ad sa) = Inr m \<and> sa_signature sa = key_sign cr sk m)"
  by (auto simp: sign_def Let_def split: sum.splits)

section \<open>Merging\<close>

lemma merge_ad_offer:
  "merge_ad valid m ad = (if valid ad then btree.offer node_id ad_sort_key m ad else m)"
  by (simp add: merge_ad_def btree.offer_def ad_precedes_def split: option.split)

lemma foldl_merge_ad: "foldl (merge_ad valid) m ads = foldl (btree.offer node_id ad_sort_key) m (filter valid ads)"
  by (induction ads arbitrary: m) (simp_all add: merge_ad_offer)

lemma foldl_merge_bucket:
  "foldl (merge_bucket valid) m buckets =
     foldl (btree.offer node_id ad_sort_key) m (valid_ads valid buckets)"
  by (induction buckets arbitrary: m) (simp_all add: merge_bucket_def foldl_merge_ad valid_ads_def)

lemma offers_entries:
  assumes "m = foldl (btree.offer node_id ad_sort_key) [] ads"
  shows "btree_invar m" and "\<And>k a. (k, a) \<in> set m \<longleftrightarrow> btree_get k m = Some a"
    and "\<And>k a. (k, a) \<in> set m \<Longrightarrow> k = node_id a \<and> a \<in> set ads"
proof -
  show inv: "btree_invar m"
    unfolding assms by (rule btree.invar_offers) (rule btree.invar_empty)
  show get: "(k, a) \<in> set m \<longleftrightarrow> btree_get k m = Some a" for k a
    by (rule btree.entries_get) (rule inv)
  show "k = node_id a \<and> a \<in> set ads" if "(k, a) \<in> set m" for k a
    using btree.offers_from [OF btree.invar_empty, of k node_id ad_sort_key ads a] that get
    by (auto simp: assms btree.get_empty)
qed

text \<open>The values of the merged map, before the final sort.\<close>

lemma merged_values:
  fixes ads :: "signed_service_ad list"
  defines "vs \<equiv> btree_values (foldl (btree.offer node_id ad_sort_key) [] ads)"
  shows "distinct (map node_id vs)" and "set vs \<subseteq> set ads"
    and "a \<in> set ads \<Longrightarrow> \<exists>b \<in> set vs. node_id b = node_id a \<and> ad_sort_key b \<le> ad_sort_key a"
proof -
  define m where m: "m = foldl (btree.offer node_id ad_sort_key) [] ads"
  note ent = offers_entries [OF m]
  have vs: "vs = map snd m" by (simp add: vs_def m btree_values_def)
  have "map node_id vs = map fst m"
    using ent(3) by (auto simp: vs)
  then show "distinct (map node_id vs)"
    using btree_invar_distinct [OF ent(1)] by simp
  show "set vs \<subseteq> set ads" using ent(3) by (auto simp: vs)
  assume "a \<in> set ads"
  then obtain b where "btree_get (node_id a) m = Some b" and le: "ad_sort_key b \<le> ad_sort_key a"
    using btree.offers_complete [OF btree.invar_empty, of a ads node_id ad_sort_key] unfolding m by blast
  then have mem: "(node_id a, b) \<in> set m" using ent(2) by blast
  then have "b \<in> set vs" using imageI [OF mem, of snd] by (simp add: vs)
  moreover have "node_id b = node_id a" using ent(3) [OF mem] by simp
  ultimately show "\<exists>b \<in> set vs. node_id b = node_id a \<and> ad_sort_key b \<le> ad_sort_key a"
    using le by blast
qed

lemma merge_valid_offers:
  "merge_valid cr pc buckets alpn minute shard now =
     sort_key ad_sort_key
       (btree_values (foldl (btree.offer node_id ad_sort_key) []
          (valid_ads (verify cr pc alpn minute shard now) buckets)))"
  by (simp add: merge_valid_def foldl_merge_bucket)

lemma merge_valid_sorted: "sorted (map ad_sort_key (merge_valid cr pc buckets alpn minute shard now))"
  by (simp add: merge_valid_def)

lemma merge_valid_distinct: "distinct (map node_id (merge_valid cr pc buckets alpn minute shard now))"
  by (simp add: merge_valid_offers distinct_map_sort_key merged_values(1))

lemma merge_valid_sound:
  "set (merge_valid cr pc buckets alpn minute shard now)
     \<subseteq> set (valid_ads (verify cr pc alpn minute shard now) buckets)"
  by (simp add: merge_valid_offers merged_values(2))

lemma merge_valid_complete:
  "a \<in> set (valid_ads (verify cr pc alpn minute shard now) buckets) \<Longrightarrow>
     \<exists>b \<in> set (merge_valid cr pc buckets alpn minute shard now).
       node_id b = node_id a \<and> ad_sort_key b \<le> ad_sort_key a"
  by (simp add: merge_valid_offers merged_values(3))

lemmas merge_valid_facts = merge_valid_sorted merge_valid_distinct merge_valid_sound merge_valid_complete

lemma ad_sort_key_node_id: "ad_sort_key a = ad_sort_key b \<Longrightarrow> node_id a = node_id b"
  by (simp add: ad_sort_key_def)

text \<open>The merged keys are the least key of each node among the valid advertisements.\<close>

lemma merge_valid_keys:
  fixes cr pc buckets alpn minute shard now
  defines "V \<equiv> set (valid_ads (verify cr pc alpn minute shard now) buckets)"
  shows "ad_sort_key ` set (merge_valid cr pc buckets alpn minute shard now) =
     {ad_sort_key a | a. a \<in> V \<and> (\<forall>b \<in> V. node_id b = node_id a \<longrightarrow> ad_sort_key a \<le> ad_sort_key b)}"
    (is "?L = ?R")
proof (intro equalityI subsetI)
  note mf = merge_valid_sorted merge_valid_distinct [of cr pc buckets alpn minute shard now]
    merge_valid_sound [of cr pc buckets alpn minute shard now]
    merge_valid_complete [of _ cr pc alpn minute shard now buckets]
  define r where "r = merge_valid cr pc buckets alpn minute shard now"
  fix k
  {
    assume "k \<in> ?L"
    then obtain a where a: "a \<in> set r" "k = ad_sort_key a" unfolding r_def by blast
    have "ad_sort_key a \<le> ad_sort_key b" if b: "b \<in> V" "node_id b = node_id a" for b
    proof -
      obtain c where c: "c \<in> set r" "node_id c = node_id b" "ad_sort_key c \<le> ad_sort_key b"
        using mf(4) [OF b(1)[unfolded V_def]] r_def by auto
      have "inj_on node_id (set r)" using mf(2) by (simp add: r_def distinct_map)
      then have "c = a" using c(1,2) a(1) b(2) by (simp add: inj_on_def)
      with c(3) show ?thesis by simp
    qed
    with a mf(3) show "k \<in> ?R" by (auto simp: r_def V_def)
  next
    assume "k \<in> ?R"
    then obtain a where a: "a \<in> V" "k = ad_sort_key a"
        "\<And>b. b \<in> V \<Longrightarrow> node_id b = node_id a \<Longrightarrow> ad_sort_key a \<le> ad_sort_key b" by blast
    then obtain c where c: "c \<in> set r" "node_id c = node_id a" "ad_sort_key c \<le> ad_sort_key a"
      using mf(4) [of a] V_def r_def by auto
    with mf(3) have "c \<in> V" by (auto simp: r_def V_def)
    with a c have "ad_sort_key c = ad_sort_key a" by (simp add: order_antisym)
    with a(2) c(1) show "k \<in> ?L" by (metis image_eqI r_def)
  }
qed

section \<open>Updating\<close>

lemma upsert_ads_ad_of:
  "ad_of (upsert_ads ad ads) = (ad_of ads)(node_id ad \<mapsto>
     (case ad_of ads (node_id ad) of
        None \<Rightarrow> ad | Some existing \<Rightarrow> if ad_precedes ad existing then ad else existing))"
  by (induction ads) (auto simp: ad_of_def fun_eq_iff)

lemma upsert_ads_node_ids: "set (map node_id (upsert_ads ad ads)) = insert (node_id ad) (set (map node_id ads))"
  by (induction ads) auto

lemma upsert_ads_distinct: "distinct (map node_id ads) \<Longrightarrow> distinct (map node_id (upsert_ads ad ads))"
proof (induction ads)
  case (Cons a ads)
  then show ?case
    using upsert_ads_node_ids [of ad ads] by (auto simp: image_iff)
qed simp

lemma upsert_ads_subset: "set (upsert_ads ad ads) \<subseteq> insert ad (set ads)"
  by (induction ads) auto

section \<open>Trimming\<close>

lemma preferred_key_partitions:
  assumes "sorted (map (preferred_ad_sort_key p) ads)"
  shows "sorted_wrt (\<lambda>a b. \<not> preferred p a \<longrightarrow> \<not> preferred p b) ads"
proof -
  have "\<not> preferred p b"
    if "preferred_ad_sort_key p a \<le> preferred_ad_sort_key p b" and "\<not> preferred p a" for a b
    using that by (cases p) (auto simp: preferred_ad_sort_key_def preferred_def less_eq_prod_def)
  then show ?thesis
    by (intro sorted_wrt_mono_rel [OF _ assms [unfolded sorted_map]]) blast
qed

lemma removal_idx_last:
  assumes "sorted_wrt (\<lambda>a b. \<not> preferred p a \<longrightarrow> \<not> preferred p b) (bk_ads b)"
    and "removal_idx p b = Some idx"
  shows "bk_ads b \<noteq> []" and "vec_remove idx (bk_ads b) = butlast (bk_ads b)"
    and "\<not> preferred p (last (bk_ads b))"
proof -
  from assms(2) have idx: "idx < length (bk_ads b)" "\<not> preferred p (bk_ads b ! idx)"
    unfolding removal_idx_def preferred_def by (auto dest!: rposition_Some)
  then show ne: "bk_ads b \<noteq> []" by auto
  show np: "\<not> preferred p (last (bk_ads b))"
  proof (cases "idx = length (bk_ads b) - 1")
    case True
    with idx ne show ?thesis by (simp add: last_conv_nth)
  next
    case False
    with idx(1) have "idx < length (bk_ads b) - 1" by linarith
    with idx assms(1) ne show ?thesis
      by (auto simp: last_conv_nth sorted_wrt_iff_nth_less)
  qed
  then have "removal_idx p b = Some (length (bk_ads b) - 1)"
    unfolding removal_idx_def using rposition_last [OF ne] by (simp add: preferred_def)
  with assms(2) have "idx = length (bk_ads b) - 1" by simp
  then show "vec_remove idx (bk_ads b) = butlast (bk_ads b)"
    using vec_remove_last [OF ne] by simp
qed

lemma removal_idx_None: "removal_idx p b = None \<longleftrightarrow> (\<forall>a \<in> set (bk_ads b). preferred p a)"
  by (simp add: removal_idx_def rposition_None preferred_def)

lemma bucket_fits_Inr: "encoded_len pc b = Inr n \<Longrightarrow> bucket_fits pc b \<longleftrightarrow> n \<le> DHT_MAX_BUCKET_BYTES"
  by (simp add: bucket_fits_def)

text \<open>The loop stops at the longest prefix that fits, or when only preferred advertisements are left.\<close>

lemma trim_loop_prefix:
  assumes "\<And>b. \<exists>n. encoded_len pc b = Inr n"
    and "sorted_wrt (\<lambda>a b. \<not> preferred p a \<longrightarrow> \<not> preferred p b) (bk_ads b)"
    and "trim_loop pc p b = (b', r)"
  shows "\<exists>k \<le> length (bk_ads b). b' = b\<lparr>bk_ads := take k (bk_ads b)\<rparr> \<and>
     (\<forall>a \<in> set (drop k (bk_ads b)). \<not> preferred p a) \<and>
     (\<forall>j. k < j \<and> j \<le> length (bk_ads b) \<longrightarrow> \<not> bucket_fits pc (b\<lparr>bk_ads := take j (bk_ads b)\<rparr>)) \<and>
     r = Inr (bucket_fits pc b') \<and>
     (\<not> bucket_fits pc b' \<longrightarrow> (\<forall>a \<in> set (bk_ads b'). preferred p a))"
  using assms(2,3)
proof (induction "length (bk_ads b)" arbitrary: b b' r)
  case 0
  obtain n where n: "encoded_len pc b = Inr n" using assms(1) by blast
  from 0 have [simp]: "bk_ads b = []" and None: "removal_idx p b = None"
    by (simp_all add: removal_idx_None)
  with "0.prems"(2) n have "b' = b" and "r = Inr (bucket_fits pc b)"
    by (auto simp: trim_loop.simps [of pc p b] bucket_fits_Inr split: if_splits)
  then show ?case by simp
next
  case (Suc l)
  obtain n where n: "encoded_len pc b = Inr n" using assms(1) by blast
  consider (fits) "bucket_fits pc b" | (stuck) "\<not> bucket_fits pc b" "removal_idx p b = None"
    | (remove) idx where "\<not> bucket_fits pc b" "removal_idx p b = Some idx"
    by (cases "removal_idx p b") auto
  then show ?case
  proof cases
    case fits
    with n Suc.prems(2) have "b' = b" "r = Inr True"
      by (simp_all add: trim_loop.simps [of pc p b] bucket_fits_Inr)
    with fits show ?thesis by (intro exI [of _ "length (bk_ads b)"]) simp
  next
    case stuck
    with n Suc.prems(2) have "b' = b" "r = Inr False"
      by (simp_all add: trim_loop.simps [of pc p b] bucket_fits_Inr)
    with stuck show ?thesis
      by (intro exI [of _ "length (bk_ads b)"]) (simp add: removal_idx_None)
  next
    case remove
    note last = removal_idx_last [OF Suc.prems(1) remove(2)]
    let ?b = "b\<lparr>bk_ads := butlast (bk_ads b)\<rparr>"
    have loop: "trim_loop pc p ?b = (b', r)"
      using n remove Suc.prems(2) last(2)
      by (simp add: trim_loop.simps [of pc p b] bucket_fits_Inr)
    have part: "sorted_wrt (\<lambda>a b. \<not> preferred p a \<longrightarrow> \<not> preferred p b) (bk_ads ?b)"
      using Suc.prems(1) by (simp add: butlast_conv_take sorted_wrt_take)
    have len: "l = length (bk_ads ?b)" using Suc.hyps(2) by simp
    have tb: "take j (butlast (bk_ads b)) = take j (bk_ads b)" if "j \<le> l" for j
      using that Suc.hyps(2) by (simp add: take_butlast)
    from Suc.hyps(1) [OF len part loop] obtain k where "k \<le> length (bk_ads ?b)"
        "b' = ?b\<lparr>bk_ads := take k (bk_ads ?b)\<rparr>"
        and k: "\<forall>a \<in> set (drop k (bk_ads ?b)). \<not> preferred p a"
        "\<forall>j. k < j \<and> j \<le> length (bk_ads ?b) \<longrightarrow> \<not> bucket_fits pc (?b\<lparr>bk_ads := take j (bk_ads ?b)\<rparr>)"
        "r = Inr (bucket_fits pc b')" "\<not> bucket_fits pc b' \<longrightarrow> (\<forall>a \<in> set (bk_ads b'). preferred p a)"
      by blast
    then have kl: "k \<le> l" and b': "b' = b\<lparr>bk_ads := take k (bk_ads b)\<rparr>"
      using len tb by simp_all
    have split: "bk_ads b = butlast (bk_ads b) @ [last (bk_ads b)]" using last(1) by simp
    have "\<forall>a \<in> set (drop k (bk_ads b)). \<not> preferred p a"
      using k(1) kl last(3) len by (subst split) auto
    moreover have "\<not> bucket_fits pc (b\<lparr>bk_ads := take j (bk_ads b)\<rparr>)" if "k < j" "j \<le> Suc l" for j
    proof (cases "j = Suc l")
      case True
      with remove(1) Suc.hyps(2) show ?thesis by simp
    next
      case False
      with that have "j \<le> l" by simp
      with k(2) that(1) len tb show ?thesis by simp
    qed
    ultimately show ?thesis
      using kl b' k(3,4) Suc.hyps(2) by (intro exI [of _ k]) simp
  qed
qed

lemma trim_to_size_prefix:
  fixes b :: service_bucket and p :: "bytes option"
  defines "S \<equiv> sort_key (preferred_ad_sort_key p) (bk_ads b)"
  assumes "\<And>b. \<exists>n. encoded_len pc b = Inr n" and "trim_to_size pc b p = (b', r)"
  obtains k where "k \<le> length S" "b' = b\<lparr>bk_ads := take k S\<rparr>" "\<forall>a \<in> set (drop k S). \<not> preferred p a"
    "\<forall>j. k < j \<and> j \<le> length S \<longrightarrow> \<not> bucket_fits pc (b\<lparr>bk_ads := take j S\<rparr>)"
    "r = Inr (bucket_fits pc b')" "\<not> bucket_fits pc b' \<Longrightarrow> \<forall>a \<in> set (bk_ads b'). preferred p a"
proof -
  have "sorted_wrt (\<lambda>a b. \<not> preferred p a \<longrightarrow> \<not> preferred p b) (bk_ads (b\<lparr>bk_ads := S\<rparr>))"
    using preferred_key_partitions [of p S] by (simp add: S_def)
  from trim_loop_prefix [OF assms(2) this, of b' r] assms(3) that show thesis
    by (auto simp: trim_to_size_def S_def)
qed

section \<open>Properties\<close>

text \<open>What a node signs, every node accepts within the time window, under the documented
  correctness of the signature scheme.\<close>

lemma sign_then_verify:
  assumes "sign_correct cr sk"
    and "sign cr pc sk alpn minute shard tags pub ex = Inr sa"
    and "now < ex" and "pub \<le> ex" and "unat pub \<le> unat now + 300"
  shows "verify cr pc alpn minute shard now sa"
  using assms sign_cases [OF assms(2)]
  by (auto simp: verify_iff sign_correct_def published_at_def expires_at_def ad_endpoint_id_def)

text \<open>(C21) A signed advertisement is bound to its service, minute and shard: replayed into another bucket
  it is refused.\<close>

theorem sign_binds_bucket:
  assumes "sign_correct cr sk" and "sign_binding cr sk" and "envelope_codec_injective pc"
    and "sign cr pc sk alpn minute shard tags pub ex = Inr sa"
    and "(alpn', minute', shard') \<noteq> (alpn, minute, shard)"
  shows "\<not> verify cr pc alpn' minute' shard' now sa"
proof
  assume "verify cr pc alpn' minute' shard' now sa"
  with assms(1,4) sign_cases [OF assms(4)] obtain m m' where
      m: "signing_message pc alpn minute shard (sa_ad sa) = Inr m" "sa_signature sa = key_sign cr sk m"
      and m': "signing_message pc alpn' minute' shard' (sa_ad sa) = Inr m'"
      and "id_verify cr (key_public cr sk) m' (sa_signature sa)"
    by (auto simp: verify_iff ad_endpoint_id_def sign_correct_def)
  with assms(2) have "m' = m" by (simp add: sign_binding_def)
  with m(1) m' assms(3) have "(alpn', minute', shard') = (alpn, minute, shard)"
    unfolding signing_message_def envelope_codec_injective_def by blast
  with assms(5) show False by simp
qed

text \<open>(C10) Merging replicas: the result is sorted newest first, has one advertisement per node, holds only
  valid advertisements of buckets of the current version, and for every such advertisement holds
  one of the same node that is at least as new.\<close>

theorem merge_valid_correct:
  fixes cr pc buckets alpn minute shard now
  defines "r \<equiv> merge_valid cr pc buckets alpn minute shard now"
    and "V \<equiv> valid_ads (verify cr pc alpn minute shard now) buckets"
  shows "sorted (map ad_sort_key r) \<and> distinct (map node_id r) \<and> set r \<subseteq> set V \<and>
     set (map node_id r) = set (map node_id V) \<and>
     (\<forall>a \<in> set V. \<exists>b \<in> set r. node_id b = node_id a \<and> ad_sort_key b \<le> ad_sort_key a)"
proof -
  have complete: "\<exists>b \<in> set r. node_id b = node_id a \<and> ad_sort_key b \<le> ad_sort_key a" if "a \<in> set V" for a
    using that unfolding r_def V_def by (rule merge_valid_complete)
  have sound: "set r \<subseteq> set V" unfolding r_def V_def by (rule merge_valid_sound)
  have "node_id a \<in> node_id ` set r" if "a \<in> set V" for a
    using complete [OF that] by (metis imageI)
  with sound have "set (map node_id r) = set (map node_id V)" by auto
  with complete sound show ?thesis
    by (simp add: r_def merge_valid_sorted merge_valid_distinct)
qed

lemma merge_valid_key_order:
  assumes "mset buckets = mset buckets'"
  shows "map ad_sort_key (merge_valid cr pc buckets alpn minute shard now) =
         map ad_sort_key (merge_valid cr pc buckets' alpn minute shard now)"
proof (rule sorted_distinct_set_unique)
  have "set (valid_ads v buckets) = set (valid_ads v buckets')" for v
    using mset_eq_setD [OF assms] by (simp add: valid_ads_def)
  then show "set (map ad_sort_key (merge_valid cr pc buckets alpn minute shard now)) =
             set (map ad_sort_key (merge_valid cr pc buckets' alpn minute shard now))"
    by (simp add: merge_valid_keys)
  have "distinct (map ad_sort_key (merge_valid cr pc bs alpn minute shard now))" for bs
    using merge_valid_distinct [of cr pc bs alpn minute shard now]
    by (auto simp: distinct_map inj_on_def dest: ad_sort_key_node_id)
  then show "distinct (map ad_sort_key (merge_valid cr pc buckets alpn minute shard now))"
      "distinct (map ad_sort_key (merge_valid cr pc buckets' alpn minute shard now))"
    by blast+
qed (simp_all add: merge_valid_sorted)

text \<open>(C36) The order in which the replicas arrive does not matter for which nodes are found, in what order
  and with what publication and expiry times; and when no node has two different valid advertisements
  with the same times, the merged advertisements themselves are the same.\<close>

theorem merge_valid_replica_order:
  assumes "mset buckets = mset buckets'"
  shows "map ad_sort_key (merge_valid cr pc buckets alpn minute shard now) =
         map ad_sort_key (merge_valid cr pc buckets' alpn minute shard now) \<and>
     (inj_on ad_sort_key (set (valid_ads (verify cr pc alpn minute shard now) buckets)) \<longrightarrow>
        merge_valid cr pc buckets alpn minute shard now = merge_valid cr pc buckets' alpn minute shard now)"
proof (intro conjI impI)
  show keys: "map ad_sort_key (merge_valid cr pc buckets alpn minute shard now) =
      map ad_sort_key (merge_valid cr pc buckets' alpn minute shard now)"
    by (rule merge_valid_key_order [OF assms])
  let ?V = "\<lambda>bs. set (valid_ads (verify cr pc alpn minute shard now) bs)"
  assume inj: "inj_on ad_sort_key (?V buckets)"
  have "?V buckets' = ?V buckets" using mset_eq_setD [OF assms] by (simp add: valid_ads_def)
  then have sub: "set (merge_valid cr pc buckets alpn minute shard now) \<union> set (merge_valid cr pc buckets' alpn minute shard now)
      \<subseteq> ?V buckets"
    using merge_valid_sound [of cr pc buckets alpn minute shard now] merge_valid_sound [of cr pc buckets' alpn minute shard now]
    by blast
  show "merge_valid cr pc buckets alpn minute shard now = merge_valid cr pc buckets' alpn minute shard now"
    by (rule map_inj_on [OF keys inj_on_subset [OF inj sub]])
qed

text \<open>(C37) \<open>upsert\<close> refines the update of a map from node ids to advertisements: the entry of the node
  becomes the newer of the two (the present one on a tie), every other entry is kept, and a
  bucket with one advertisement per node stays so.\<close>

theorem upsert_refines_map:
  "ad_of (bk_ads (upsert b ad)) = (ad_of (bk_ads b))(node_id ad \<mapsto>
     (case ad_of (bk_ads b) (node_id ad) of
        None \<Rightarrow> ad | Some existing \<Rightarrow> if ad_precedes ad existing then ad else existing))
   \<and> bk_version (upsert b ad) = bk_version b
   \<and> (distinct (map node_id (bk_ads b)) \<longrightarrow> distinct (map node_id (bk_ads (upsert b ad))))"
  by (simp add: upsert_def upsert_ads_ad_of upsert_ads_distinct)

text \<open>(C12) Trimming always ends, keeps every advertisement of the preferred node, and keeps the longest
  prefix of the sorted bucket that encodes within 1000 bytes; it reports failure only when the
  advertisements of the preferred node alone are too large.\<close>

theorem trim_to_size_longest_prefix:
  fixes pc :: postcard and b :: service_bucket and p :: "bytes option"
  defines "S \<equiv> sort_key (preferred_ad_sort_key p) (bk_ads b)"
    and "b' \<equiv> fst (trim_to_size pc b p)"
  assumes total: "\<And>b. \<exists>n. encoded_len pc b = Inr n"
  shows "snd (trim_to_size pc b p) = Inr (bucket_fits pc b') \<and>
     filter (preferred p) (bk_ads b') = filter (preferred p) S \<and>
     (\<exists>k \<le> length S. b' = b\<lparr>bk_ads := take k S\<rparr> \<and>
        (\<forall>j. k < j \<and> j \<le> length S \<longrightarrow> \<not> bucket_fits pc (b\<lparr>bk_ads := take j S\<rparr>))) \<and>
     (bucket_fits pc b' \<or> (\<forall>a \<in> set (bk_ads b'). preferred p a))"
proof -
  obtain r where tr: "trim_to_size pc b p = (b', r)" by (simp add: b'_def prod_eq_iff)
  obtain k where k: "k \<le> length S" "b' = b\<lparr>bk_ads := take k S\<rparr>" "\<forall>a \<in> set (drop k S). \<not> preferred p a"
      "\<forall>j. k < j \<and> j \<le> length S \<longrightarrow> \<not> bucket_fits pc (b\<lparr>bk_ads := take j S\<rparr>)"
      "r = Inr (bucket_fits pc b')" "\<not> bucket_fits pc b' \<Longrightarrow> \<forall>a \<in> set (bk_ads b'). preferred p a"
    using trim_to_size_prefix [OF total tr] unfolding S_def by metis
  have "filter (preferred p) S = filter (preferred p) (take k S) @ filter (preferred p) (drop k S)"
    by (metis append_take_drop_id filter_append)
  with k(3) have "filter (preferred p) (bk_ads b') = filter (preferred p) S"
    by (simp add: k(2))
  with k tr show ?thesis by auto
qed

end
