(* ===== verification/Alpn.thy ===== *)
theory Alpn
  imports Prelude
begin

text \<open>
  \<^verbatim>\<open>src/alpn.rs\<close>: the protocol name a service is offered under. A tonic service is its \<open>NAME\<close>
  constant (trait \<open>NamedService\<close>), so the generic parameter of the source is the service name here.
\<close>

section \<open>Definitions\<close>

definition service_to_alpn :: "string \<Rightarrow> bytes" where
  "service_to_alpn service_name = into_bytes (''/'' @ service_name @ ''/1.0'')"

section \<open>Properties\<close>

lemma service_to_alpn_eq_iff [simp]: "service_to_alpn s = service_to_alpn t \<longleftrightarrow> s = t"
  by (simp add: service_to_alpn_def)

lemma length_service_to_alpn: "length (service_to_alpn s) = length s + 5"
  by (simp add: service_to_alpn_def)

end
