(* ===== verification/Reference_Codec.thy ===== *)
theory Reference_Codec
  imports Service_Record Alpn
begin

text \<open>
  A concrete codec and a concrete key scheme, at which the hypotheses on postcard and on the iroh
  keys are shown to hold together. They model no code of the repository: the properties hold for
  every codec and scheme with the stated laws, and the witnesses instantiate them here.
\<close>

section \<open>Self-delimiting sequences\<close>

fun enc_seq :: "bytes \<Rightarrow> bytes" where
  "enc_seq [] = [0]"
| "enc_seq (b # bs) = 1 # b # enc_seq bs"

fun dec_seq :: "bytes \<Rightarrow> (bytes \<times> bytes) option" where
  "dec_seq [] = None"
| "dec_seq [t] = (if t = 0 then Some ([], []) else None)"
| "dec_seq (t # b # r) =
     (if t = 0 then Some ([], b # r) else map_option (map_prod ((#) b) id) (dec_seq r))"

fun enc_list :: "('a \<Rightarrow> bytes) \<Rightarrow> 'a list \<Rightarrow> bytes" where
  "enc_list e [] = [0]"
| "enc_list e (x # xs) = 1 # e x @ enc_list e xs"

fun dec_list :: "nat \<Rightarrow> (bytes \<Rightarrow> ('a \<times> bytes) option) \<Rightarrow> bytes \<Rightarrow> ('a list \<times> bytes) option" where
  "dec_list 0 d bs = None"
| "dec_list (Suc n) d [] = None"
| "dec_list (Suc n) d (t # r) =
     (if t = 0 then Some ([], r)
      else Option.bind (d r) (\<lambda>(x, r'). map_option (map_prod ((#) x) id) (dec_list n d r')))"

definition enc_u64 :: "u64 \<Rightarrow> bytes" where
  "enc_u64 w = enc_seq (replicate (unat w) 0)"

definition dec_u64 :: "bytes \<Rightarrow> (u64 \<times> bytes) option" where
  "dec_u64 bs = map_option (map_prod (\<lambda>l. word_of_nat (length l)) id) (dec_seq bs)"

definition enc_string :: "string \<Rightarrow> bytes" where
  "enc_string s = enc_seq (into_bytes s)"

definition dec_string :: "bytes \<Rightarrow> (string \<times> bytes) option" where
  "dec_string bs = map_option (map_prod (map (\<lambda>b. char_of (unat b))) id) (dec_seq bs)"

section \<open>Advertisements, buckets and envelopes\<close>

definition enc_ad :: "signed_service_ad \<Rightarrow> bytes" where
  "enc_ad sa = enc_seq (ad_node_id (sa_ad sa)) @ enc_list enc_string (ad_tags (sa_ad sa)) @
     enc_u64 (ad_published_at (sa_ad sa)) @ enc_u64 (ad_expires_at (sa_ad sa)) @ enc_seq (sa_signature sa)"

definition dec_ad :: "nat \<Rightarrow> bytes \<Rightarrow> (signed_service_ad \<times> bytes) option" where
  "dec_ad n bs =
     Option.bind (dec_seq bs) (\<lambda>(node, r1). Option.bind (dec_list n dec_string r1) (\<lambda>(tags, r2).
     Option.bind (dec_u64 r2) (\<lambda>(pub, r3). Option.bind (dec_u64 r3) (\<lambda>(ex, r4).
     Option.bind (dec_seq r4) (\<lambda>(sig, r5).
       Some (\<lparr>sa_ad = \<lparr>ad_node_id = node, ad_tags = tags, ad_published_at = pub, ad_expires_at = ex\<rparr>,
              sa_signature = sig\<rparr>, r5))))))"

definition ref_bucket :: "service_bucket \<Rightarrow> string + bytes" where
  "ref_bucket b = Inr (bk_version b # enc_list enc_ad (bk_ads b))"

definition ref_bucket_from :: "bytes \<Rightarrow> string + service_bucket" where
  "ref_bucket_from bs =
     (case bs of
        [] \<Rightarrow> Inl ''eof''
      | v # r \<Rightarrow>
          (case dec_list (length r) (dec_ad (length r)) r of
             Some (ads, []) \<Rightarrow> Inr \<lparr>bk_version = v, bk_ads = ads\<rparr>
           | _ \<Rightarrow> Inl ''malformed''))"

definition ref_envelope :: "service_ad_envelope \<Rightarrow> string + bytes" where
  "ref_envelope e = Inr ([env_version e, env_shard e] @ enc_seq (env_alpn e) @ enc_u64 (env_minute e) @
     enc_seq (env_node_id e) @ enc_list enc_string (env_tags e) @
     enc_u64 (env_published_at e) @ enc_u64 (env_expires_at e))"

definition ref_postcard :: postcard where
  "ref_postcard = \<lparr>pc_envelope = ref_envelope, pc_bucket = ref_bucket, pc_bucket_from = ref_bucket_from\<rparr>"

text \<open>A key is its own public key and a signature names the key and the message.\<close>

definition ref_crypto :: crypto where
  "ref_crypto = \<lparr>key_public = (\<lambda>sk. sk), key_sign = (\<lambda>sk m. sk @ m),
     id_from_bytes = Some, id_verify = (\<lambda>eid m s. s = eid @ m)\<rparr>"

section \<open>The laws hold\<close>

named_theorems codec_rt \<open>decoding what was encoded\<close>

lemma dec_seq_enc [codec_rt]: "dec_seq (enc_seq bs @ r) = Some (bs, r)"
proof (induction bs)
  case Nil
  show ?case by (cases r) simp_all
qed simp

lemma dec_list_enc:
  assumes "\<And>x r. x \<in> set xs \<Longrightarrow> d (e x @ r) = Some (x, r)" and "length xs < n"
  shows "dec_list n d (enc_list e xs @ r) = Some (xs, r)"
  using assms
proof (induction xs arbitrary: n)
  case Nil
  then show ?case by (cases n) simp_all
next
  case (Cons x xs)
  then show ?case by (cases n) simp_all
qed

lemma dec_u64_enc [codec_rt]: "dec_u64 (enc_u64 w @ r) = Some (w, r)"
  by (simp add: dec_u64_def enc_u64_def codec_rt)

lemma dec_string_enc [codec_rt]: "dec_string (enc_string s @ r) = Some (s, r)"
  by (simp add: dec_string_def enc_string_def codec_rt into_bytes_def unat_byte_of_char comp_def)

lemma length_enc_list: "length xs < length (enc_list e xs)"
  by (induction xs) auto

lemma length_enc_list_mono: "x \<in> set xs \<Longrightarrow> length (e x) \<le> length (enc_list e xs)"
  by (induction xs) auto

lemma dec_ad_enc:
  assumes "length (enc_ad sa) \<le> n"
  shows "dec_ad n (enc_ad sa @ r) = Some (sa, r)"
proof -
  have "length (ad_tags (sa_ad sa)) < n"
    using assms length_enc_list [of "ad_tags (sa_ad sa)" enc_string] by (simp add: enc_ad_def)
  then have "dec_list n dec_string (enc_list enc_string (ad_tags (sa_ad sa)) @ r') =
      Some (ad_tags (sa_ad sa), r')" for r'
    by (intro dec_list_enc) (simp_all add: codec_rt)
  then show ?thesis by (simp add: dec_ad_def enc_ad_def codec_rt)
qed

lemma ref_bucket_round_trip: "ref_bucket b = Inr bs \<Longrightarrow> ref_bucket_from bs = Inr b"
proof -
  let ?bs = "enc_list enc_ad (bk_ads b)"
  have "dec_list (length ?bs) (dec_ad (length ?bs)) (?bs @ []) = Some (bk_ads b, [])"
    by (intro dec_list_enc dec_ad_enc length_enc_list length_enc_list_mono)
  then show "ref_bucket b = Inr bs \<Longrightarrow> ref_bucket_from bs = Inr b"
    by (auto simp: ref_bucket_def ref_bucket_from_def)
qed

lemma enc_seq_inj: "enc_seq a @ r = enc_seq b @ s \<longleftrightarrow> a = b \<and> r = s"
  by (metis dec_seq_enc option.inject prod.inject)

lemma enc_u64_inj: "enc_u64 a @ r = enc_u64 b @ s \<longleftrightarrow> a = b \<and> r = s"
  by (metis dec_u64_enc option.inject prod.inject)

lemma enc_tags_inj: "enc_list enc_string a @ r = enc_list enc_string b @ s \<longleftrightarrow> a = b \<and> r = s"
proof -
  have "dec_list (Suc (length a + length b)) dec_string (enc_list enc_string a @ r) = Some (a, r)"
       "dec_list (Suc (length a + length b)) dec_string (enc_list enc_string b @ s) = Some (b, s)"
    by (rule dec_list_enc; simp add: codec_rt)+
  then show ?thesis by (metis option.inject prod.inject)
qed

lemma ref_envelope_injective: "envelope_codec_injective ref_postcard"
proof -
  have "e = e'" if "ref_envelope e = ref_envelope e'" for e e'
    using that enc_u64_inj [of "env_expires_at e" "[]" "env_expires_at e'" "[]"]
    by (simp add: ref_envelope_def enc_seq_inj enc_u64_inj enc_tags_inj)
  then show ?thesis
    by (auto simp: envelope_codec_injective_def ref_postcard_def)
qed

lemma ref_sign_correct: "sign_correct ref_crypto sk"
  by (simp add: sign_correct_def ref_crypto_def)

lemma ref_sign_binding: "sign_binding ref_crypto sk"
  by (simp add: sign_binding_def ref_crypto_def)

lemma ref_encoded_len_total: "\<exists>n. encoded_len ref_postcard b = Inr n"
  by (simp add: encoded_len_def ref_postcard_def ref_bucket_def)

section \<open>Signed advertisements at the reference scheme\<close>

definition ref_ad :: "bytes \<Rightarrow> bytes \<Rightarrow> u64 \<Rightarrow> u8 \<Rightarrow> string list \<Rightarrow> u64 \<Rightarrow> u64 \<Rightarrow> signed_service_ad" where
  "ref_ad sk alpn minute shard tags pub ex =
     projr (sign ref_crypto ref_postcard sk alpn minute shard tags pub ex)"

lemma ref_sign:
  "sign ref_crypto ref_postcard sk alpn minute shard tags pub ex = Inr (ref_ad sk alpn minute shard tags pub ex)"
  by (simp add: ref_ad_def sign_def signing_message_def ref_postcard_def ref_envelope_def)

lemma ref_ad_fields [simp]:
  "node_id (ref_ad sk alpn minute shard tags pub ex) = sk"
  "published_at (ref_ad sk alpn minute shard tags pub ex) = pub"
  "expires_at (ref_ad sk alpn minute shard tags pub ex) = ex"
  using sign_cases [OF ref_sign [of sk alpn minute shard tags pub ex]]
  by (simp_all add: node_id_def published_at_def expires_at_def ref_crypto_def)

lemma ref_ad_verifies:
  "now < ex \<Longrightarrow> pub \<le> ex \<Longrightarrow> unat pub \<le> unat now + 300 \<Longrightarrow>
     verify ref_crypto ref_postcard alpn minute shard now (ref_ad sk alpn minute shard tags pub ex)"
  using sign_cases [OF ref_sign [of sk alpn minute shard tags pub ex]] ref_sign_correct [of sk]
  by (auto simp: verify_iff ad_endpoint_id_def sign_correct_def published_at_def expires_at_def)

section \<open>Witnesses\<close>

text \<open>The service \<open>svc.A\<close>, minute 2, shard 4, at second 150; an older and a newer advertisement of one
  node and one of another node.\<close>

definition w_alpn :: bytes where
  "w_alpn = service_to_alpn ''svc.A''"

definition w_old :: signed_service_ad where
  "w_old = ref_ad [7] w_alpn 2 4 [''old''] 120 240"

definition w_new :: signed_service_ad where
  "w_new = ref_ad [7] w_alpn 2 4 [''prod''] 140 260"

definition w_other :: signed_service_ad where
  "w_other = ref_ad [9] w_alpn 2 4 [] 130 250"

lemma w_valid: "verify ref_crypto ref_postcard w_alpn 2 4 150 w_new"
  unfolding w_new_def by (rule ref_ad_verifies) simp_all

theorem sign_binds_bucket_witness:
  "\<not> verify ref_crypto ref_postcard w_alpn 2 5 150 (ref_ad [7] w_alpn 2 4 [''prod''] 140 260)"
  by (rule sign_binds_bucket [OF ref_sign_correct ref_sign_binding ref_envelope_injective ref_sign]) simp

theorem merge_valid_correct_witness:
  "\<exists>b \<in> set (merge_valid ref_crypto ref_postcard [bucket_new [w_old, w_new]] w_alpn 2 4 150).
     node_id b = [7] \<and> ad_sort_key b \<le> ad_sort_key w_new"
proof -
  have "w_new \<in> set (valid_ads (verify ref_crypto ref_postcard w_alpn 2 4 150) [bucket_new [w_old, w_new]])"
    using w_valid by (simp add: valid_ads_def bucket_new_def)
  moreover have "node_id w_new = [7]" by (simp add: w_new_def)
  ultimately show ?thesis
    using merge_valid_correct [of ref_crypto ref_postcard "[bucket_new [w_old, w_new]]" w_alpn 2 4 150]
    by metis
qed

theorem merge_valid_replica_order_witness:
  "merge_valid ref_crypto ref_postcard [bucket_new [w_old], bucket_new [w_new, w_other]] w_alpn 2 4 150 =
   merge_valid ref_crypto ref_postcard [bucket_new [w_new, w_other], bucket_new [w_old]] w_alpn 2 4 150"
proof -
  let ?bs = "[bucket_new [w_old], bucket_new [w_new, w_other]]"
  have inj: "inj_on ad_sort_key {w_old, w_new, w_other}"
    by (auto simp: inj_on_def ad_sort_key_def w_old_def w_new_def w_other_def)
  have sub: "set (valid_ads (verify ref_crypto ref_postcard w_alpn 2 4 150) ?bs) \<subseteq> {w_old, w_new, w_other}"
    by (auto simp: valid_ads_def bucket_new_def)
  have "mset ?bs = mset [bucket_new [w_new, w_other], bucket_new [w_old]]" by simp
  from merge_valid_replica_order [OF this] show ?thesis using inj_on_subset [OF inj sub] by blast
qed

text \<open>Two advertisements of one node with the same times but different tags: the replica that comes first
  decides which is kept.\<close>

definition w_tie :: signed_service_ad where
  "w_tie = ref_ad [7] w_alpn 2 4 [''other''] 140 260"

lemma merge_tie_first:
  "merge_valid ref_crypto ref_postcard [bucket_new [w_new], bucket_new [w_tie]] w_alpn 2 4 150 = [w_new] \<and>
   merge_valid ref_crypto ref_postcard [bucket_new [w_tie], bucket_new [w_new]] w_alpn 2 4 150 = [w_tie]"
proof -
  have "verify ref_crypto ref_postcard w_alpn 2 4 150 w_tie" unfolding w_tie_def by (rule ref_ad_verifies) simp_all
  moreover have "node_id w_tie = [7]" "node_id w_new = [7]" "ad_sort_key w_tie = ad_sort_key w_new"
    by (simp_all add: w_tie_def w_new_def ad_sort_key_def)
  ultimately show ?thesis using w_valid
    by (simp add: merge_valid_def merge_bucket_def merge_ad_def bucket_new_def ad_precedes_def btree_values_def
        btree_get_def)
qed

theorem upsert_refines_map_witness:
  "distinct (map node_id (bk_ads (upsert (bucket_new [w_other, w_old]) w_new))) \<and>
   ad_of (bk_ads (upsert (bucket_new [w_other, w_old]) w_new)) [7] = Some w_new"
proof -
  have "node_id w_old = [7]" "node_id w_new = [7]" "node_id w_other = [9]" "ad_precedes w_new w_old"
    by (simp_all add: w_old_def w_new_def w_other_def ad_precedes_def ad_sort_key_def)
  then show ?thesis
    using upsert_refines_map [of "bucket_new [w_other, w_old]" w_new]
    by (simp add: bucket_new_def ad_of_def)
qed

text \<open>An encoder that needs 400 bytes per advertisement: of three advertisements two are kept, the one
  of the preferred node first.\<close>

definition w_postcard :: postcard where
  "w_postcard = ref_postcard\<lparr>pc_bucket := (\<lambda>b. Inr (replicate (400 * length (bk_ads b)) 0))\<rparr>"

theorem trim_to_size_longest_prefix_witness:
  "snd (trim_to_size w_postcard (bucket_new [w_old, w_other, w_other]) (Some [7])) = Inr True \<and>
   filter (preferred (Some [7])) (bk_ads (fst (trim_to_size w_postcard (bucket_new [w_old, w_other, w_other]) (Some [7]))))
     = [w_old]"
proof -
  have total: "\<exists>n. encoded_len w_postcard b = Inr n" for b
    by (simp add: encoded_len_def w_postcard_def)
  have w: "node_id w_old = [7]" "node_id w_other = [9]" by (simp_all add: w_old_def w_other_def)
  let ?b = "bucket_new [w_old, w_other, w_other]" and ?r = "trim_to_size w_postcard (bucket_new [w_old, w_other, w_other]) (Some [7])"
  note t = trim_to_size_longest_prefix [of w_postcard ?b "Some [7]", OF total]
  have f: "filter (preferred (Some [7])) (bk_ads (fst ?r)) = [w_old]"
    using t w by (simp add: bucket_new_def preferred_def preferred_ad_sort_key_def)
  have "bucket_fits w_postcard (fst ?r)"
  proof (rule ccontr)
    assume no: "\<not> bucket_fits w_postcard (fst ?r)"
    with t have "filter (preferred (Some [7])) (bk_ads (fst ?r)) = bk_ads (fst ?r)"
      by (auto intro: filter_True)
    with f have "bk_ads (fst ?r) = [w_old]" by simp
    with no show False
      by (simp add: bucket_fits_def encoded_len_def w_postcard_def DHT_MAX_BUCKET_BYTES_def)
  qed
  with t f show ?thesis by simp
qed

end
