(* ===== verification/Pool_Actor.thy ===== *)
theory Pool_Actor
  imports Prelude "HOL-Library.Finite_Map"
begin

text \<open>
  \<^verbatim>\<open>src/pool.rs\<close>, the main actor: \<open>PoolOptions\<close>, \<open>PoolError\<close>, the messages and \<open>PoolActor\<close> with its
  slot table, its queue of idle connections and its message handler.

  The mailboxes are tokio channels, third-party code: what \<open>try_send\<close> and \<open>send\<close> answer is the
  argument \<open>env\<close> of the handler, so every property below holds whatever they answer. A mailbox is
  named by its number in order of creation, and what a handler does to the outside (hand a request
  to a mailbox, answer a requester, start a connection actor) is the list of effects it returns.
\<close>

section \<open>Definitions\<close>

type_synonym duration = nat \<comment> \<open>nanoseconds\<close>

definition from_secs :: "nat \<Rightarrow> duration" where
  "from_secs s = s * 10 ^ 9"

definition POOL_CHANNEL_CAPACITY :: nat where
  "POOL_CHANNEL_CAPACITY = 256"

definition CONNECTION_CHANNEL_CAPACITY :: nat where
  "CONNECTION_CHANNEL_CAPACITY = 64"

definition OPEN_STREAM_RETRIES :: nat where
  "OPEN_STREAM_RETRIES = 2"

record pool_options =
  idle_timeout :: duration
  connect_timeout :: duration
  max_connections :: nat

definition pool_options_default :: pool_options where
  "pool_options_default =
     \<lparr>idle_timeout = from_secs 10, connect_timeout = from_secs 5, max_connections = 1024\<rparr>"

datatype pool_error =
    Shutdown
  | Timeout
  | TooManyConnections
  | Busy
  | Closed
  | Connect string

fun pool_error_display :: "pool_error \<Rightarrow> string" where
  "pool_error_display Shutdown = ''connection pool is shut down''"
| "pool_error_display Timeout = ''connection timed out''"
| "pool_error_display TooManyConnections = ''too many connections''"
| "pool_error_display Busy = ''pooled connection is busy''"
| "pool_error_display Closed = ''connection closed before reuse''"
| "pool_error_display (Connect e) = ''connect error: '' @ e"

definition pool_error_from_connect_error :: "string \<Rightarrow> pool_error" where
  "pool_error_from_connect_error e = Connect e"

type_synonym mailbox = nat

text \<open>\<open>req_tx\<close> names the oneshot sender a requester waits on.\<close>

record request_msg =
  req_id :: endpoint_id
  req_tx :: nat

datatype msg =
    Msg_Request request_msg
  | Msg_Idle endpoint_id u64
  | Msg_Shutdown endpoint_id u64

record connection_slot =
  slot_generation :: u64
  slot_tx :: mailbox

text \<open>\<open>pa_channels\<close> counts the mailboxes created so far; \<open>pa_tasks\<close> are the spawned connection actors
  that have not been joined, by mailbox.\<close>

record pool_actor =
  pa_options :: pool_options
  pa_connections :: "(endpoint_id, connection_slot) fmap"
  pa_idle :: "(endpoint_id \<times> u64) list"
  pa_next_generation :: u64
  pa_channels :: nat
  pa_tasks :: "mailbox list"

datatype try_send_result = SendOk | SendClosed | SendFull

record channel_env =
  env_try_send :: "mailbox \<Rightarrow> request_msg \<Rightarrow> try_send_result"
  env_send_fails :: "mailbox \<Rightarrow> request_msg \<Rightarrow> bool"

datatype effect =
    Forward mailbox request_msg
  | ReplyErr request_msg pool_error
  | DropRequest request_msg
  | SpawnConnection endpoint_id u64 mailbox

definition pool_actor_new :: "pool_options \<Rightarrow> pool_actor" where
  "pool_actor_new options =
     \<lparr>pa_options = options, pa_connections = fmempty, pa_idle = [], pa_next_generation = 1,
      pa_channels = 0, pa_tasks = []\<rparr>"

definition remove_idle :: "pool_actor \<Rightarrow> endpoint_id \<Rightarrow> pool_actor" where
  "remove_idle s i = s\<lparr>pa_idle := filter (\<lambda>(existing, _). existing \<noteq> i) (pa_idle s)\<rparr>"

definition add_idle :: "pool_actor \<Rightarrow> endpoint_id \<Rightarrow> u64 \<Rightarrow> pool_actor" where
  "add_idle s i generation =
     (let s = remove_idle s i in s\<lparr>pa_idle := pa_idle s @ [(i, generation)]\<rparr>)"

definition matches_generation :: "pool_actor \<Rightarrow> endpoint_id \<Rightarrow> u64 \<Rightarrow> bool" where
  "matches_generation s i generation \<longleftrightarrow>
     (case fmlookup (pa_connections s) i of
        Some slot \<Rightarrow> slot_generation slot = generation | None \<Rightarrow> False)"

definition remove_connection_if_match :: "pool_actor \<Rightarrow> endpoint_id \<Rightarrow> u64 \<Rightarrow> pool_actor" where
  "remove_connection_if_match s i generation =
     (if matches_generation s i generation
      then remove_idle (s\<lparr>pa_connections := fmdrop i (pa_connections s)\<rparr>) i
      else s)"

definition fetch_next_generation :: "pool_actor \<Rightarrow> u64 \<times> pool_actor" where
  "fetch_next_generation s =
     (pa_next_generation s, s\<lparr>pa_next_generation := pa_next_generation s + 1\<rparr>)"

text \<open>The loop pops idle entries until one still matches its slot.\<close>

fun evict_loop :: "(endpoint_id \<times> u64) list \<Rightarrow> pool_actor \<Rightarrow> bool \<times> pool_actor" where
  "evict_loop [] s = (False, s\<lparr>pa_idle := []\<rparr>)"
| "evict_loop ((i, generation) # rest) s =
     (if matches_generation s i generation
      then (True, s\<lparr>pa_idle := rest, pa_connections := fmdrop i (pa_connections s)\<rparr>)
      else evict_loop rest s)"

definition evict_idle_connection :: "pool_actor \<Rightarrow> bool \<times> pool_actor" where
  "evict_idle_connection s = evict_loop (pa_idle s) s"

definition pool_len :: "pool_actor \<Rightarrow> nat" where
  "pool_len s = fcard (fmdom (pa_connections s))"

text \<open>The tail of the request handler: a new slot, its actor, and the request into its mailbox.\<close>

definition start_connection :: "channel_env \<Rightarrow> pool_actor \<Rightarrow> request_msg \<Rightarrow> pool_actor \<times> effect list" where
  "start_connection env s req =
     (let i = req_id req;
          (generation, s) = fetch_next_generation s;
          conn_tx = pa_channels s;
          s = s\<lparr>pa_channels := Suc conn_tx,
                pa_connections := fmupd i \<lparr>slot_generation = generation, slot_tx = conn_tx\<rparr> (pa_connections s),
                pa_tasks := pa_tasks s @ [conn_tx]\<rparr>
      in if env_send_fails env conn_tx req
         then (remove_connection_if_match s i generation,
               [SpawnConnection i generation conn_tx, DropRequest req])
         else (s, [SpawnConnection i generation conn_tx, Forward conn_tx req]))"

text \<open>The capacity check before a new connection.\<close>

definition admit_connection :: "channel_env \<Rightarrow> pool_actor \<Rightarrow> request_msg \<Rightarrow> pool_actor \<times> effect list" where
  "admit_connection env s req =
     (if pool_len s \<ge> max_connections (pa_options s)
      then (case evict_idle_connection s of
              (evicted, s') \<Rightarrow>
                if \<not> evicted then (s', [ReplyErr req TooManyConnections])
                else start_connection env s' req)
      else start_connection env s req)"

definition handle_request :: "channel_env \<Rightarrow> pool_actor \<Rightarrow> request_msg \<Rightarrow> pool_actor \<times> effect list" where
  "handle_request env s req =
     (let i = req_id req; s = remove_idle s i
      in case fmlookup (pa_connections s) i of
           Some slot \<Rightarrow>
             (case env_try_send env (slot_tx slot) req of
                SendOk \<Rightarrow> (s, [Forward (slot_tx slot) req])
              | SendClosed \<Rightarrow>
                  admit_connection env (s\<lparr>pa_connections := fmdrop i (pa_connections s)\<rparr>) req
              | SendFull \<Rightarrow> (s, [ReplyErr req Busy]))
         | None \<Rightarrow> admit_connection env s req)"

fun handle :: "channel_env \<Rightarrow> pool_actor \<Rightarrow> msg \<Rightarrow> pool_actor \<times> effect list" where
  "handle env s (Msg_Request req) = handle_request env s req"
| "handle env s (Msg_Idle i generation) =
     (if matches_generation s i generation then (add_idle s i generation, []) else (s, []))"
| "handle env s (Msg_Shutdown i generation) = (remove_connection_if_match s i generation, [])"

text \<open>
  The actor's loop. One round of its biased \<open>select!\<close>: the shutdown flag or notification first, then
  a message, then a joined task. \<open>RxClosed\<close> is \<open>recv()\<close> returning \<open>None\<close>.
\<close>

datatype run_event = ShutdownSeen | RxMessage channel_env msg | RxClosed | TaskJoined mailbox

datatype run_status = Running | Stopped

definition stop_pool :: "pool_actor \<Rightarrow> pool_actor" where
  "stop_pool s = s\<lparr>pa_connections := fmempty, pa_idle := []\<rparr>"

fun run_step :: "run_status \<times> pool_actor \<Rightarrow> run_event \<Rightarrow> run_status \<times> pool_actor" where
  "run_step (Running, s) ShutdownSeen = (Stopped, stop_pool s)"
| "run_step (Running, s) RxClosed = (Stopped, stop_pool s)"
| "run_step (Running, s) (RxMessage env m) = (Running, fst (handle env s m))"
| "run_step (Running, s) (TaskJoined c) = (Running, s\<lparr>pa_tasks := removeAll c (pa_tasks s)\<rparr>)"
| "run_step (Stopped, s) (TaskJoined c) = (Stopped, s\<lparr>pa_tasks := removeAll c (pa_tasks s)\<rparr>)"
| "run_step (Stopped, s) _ = (Stopped, s)"

section \<open>The invariant\<close>

text \<open>
  At most \<open>max_connections\<close> slots; the idle queue names each peer once and only live slots; the
  generation of a slot is determined by its mailbox and no two slots share a mailbox.
\<close>

definition generation_of :: "mailbox \<Rightarrow> u64" where
  "generation_of c = word_of_nat (Suc c)"

definition idle_ok :: "pool_actor \<Rightarrow> bool" where
  "idle_ok s \<longleftrightarrow> distinct (map fst (pa_idle s)) \<and>
     (\<forall>(i, g) \<in> set (pa_idle s). matches_generation s i g)"

definition slots_ok :: "pool_actor \<Rightarrow> bool" where
  "slots_ok s \<longleftrightarrow> pa_next_generation s = generation_of (pa_channels s) \<and>
     (\<forall>i slot. fmlookup (pa_connections s) i = Some slot \<longrightarrow>
        slot_tx slot < pa_channels s \<and> slot_generation slot = generation_of (slot_tx slot)) \<and>
     (\<forall>i j slot slot'. fmlookup (pa_connections s) i = Some slot \<longrightarrow>
        fmlookup (pa_connections s) j = Some slot' \<longrightarrow> slot_tx slot = slot_tx slot' \<longrightarrow> i = j)"

definition pool_inv :: "pool_actor \<Rightarrow> bool" where
  "pool_inv s \<longleftrightarrow> pool_len s \<le> max_connections (pa_options s) \<and> idle_ok s \<and> slots_ok s"

lemma matches_generation_iff:
  "matches_generation s i g \<longleftrightarrow>
     (\<exists>slot. fmlookup (pa_connections s) i = Some slot \<and> slot_generation slot = g)"
  by (auto simp: matches_generation_def split: option.splits)

lemma pool_inv_new: "pool_inv (pool_actor_new options)"
  by (simp add: pool_inv_def idle_ok_def slots_ok_def pool_actor_new_def pool_len_def generation_of_def
      fcard_fempty)

subsection \<open>The pieces of the handler\<close>

lemma remove_idle_simps [simp]:
  "pa_connections (remove_idle s i) = pa_connections s" "pa_options (remove_idle s i) = pa_options s"
  "pa_channels (remove_idle s i) = pa_channels s" "pa_tasks (remove_idle s i) = pa_tasks s"
  "pa_next_generation (remove_idle s i) = pa_next_generation s"
  "pa_idle (remove_idle s i) = filter (\<lambda>(j, _). j \<noteq> i) (pa_idle s)"
  "pool_len (remove_idle s i) = pool_len s"
  "matches_generation (remove_idle s i) j g = matches_generation s j g"
  by (simp_all add: remove_idle_def pool_len_def matches_generation_def)

lemma pool_len_drop: "pool_len (s\<lparr>pa_connections := fmdrop i (pa_connections s)\<rparr>) \<le> pool_len s"
  by (simp add: pool_len_def fcard_fminus1_le)

lemma slots_ok_drop: "slots_ok s \<Longrightarrow> slots_ok (s\<lparr>pa_connections := fmdrop i (pa_connections s)\<rparr>)"
  by (auto simp: slots_ok_def split: if_splits)

lemma slots_ok_idle [simp]: "slots_ok (s\<lparr>pa_idle := x\<rparr>) = slots_ok s"
  by (simp add: slots_ok_def)

lemma slots_ok_remove_idle [simp]: "slots_ok (remove_idle s i) = slots_ok s"
  by (simp add: remove_idle_def)

lemma idle_ok_remove: "idle_ok s \<Longrightarrow> idle_ok (remove_idle s i)"
  by (auto simp: idle_ok_def distinct_map inj_on_def)

text \<open>Once a peer is out of the idle queue its slot may go.\<close>

lemma idle_ok_drop:
  assumes "idle_ok s" and "i \<notin> fst ` set (pa_idle s)"
  shows "idle_ok (s\<lparr>pa_connections := fmdrop i (pa_connections s)\<rparr>)"
  using assms by (force simp: idle_ok_def matches_generation_iff)

lemma not_idle_after_remove: "i \<notin> fst ` set (pa_idle (remove_idle s i))"
  by auto

lemma pool_inv_remove_idle: "pool_inv s \<Longrightarrow> pool_inv (remove_idle s i)"
  by (simp add: pool_inv_def idle_ok_remove)

lemma pool_inv_drop:
  assumes "pool_inv s" and "i \<notin> fst ` set (pa_idle s)"
  shows "pool_inv (s\<lparr>pa_connections := fmdrop i (pa_connections s)\<rparr>)"
  using assms pool_len_drop [where s = s and i = i]
  by (auto simp: pool_inv_def idle_ok_drop slots_ok_drop intro: order_trans)

lemma remove_idle_drop_commute:
  "remove_idle (s\<lparr>pa_connections := m\<rparr>) i = (remove_idle s i)\<lparr>pa_connections := m\<rparr>"
  by (simp add: remove_idle_def)

lemma pool_inv_remove_connection: "pool_inv s \<Longrightarrow> pool_inv (remove_connection_if_match s i g)"
  using pool_inv_drop [OF pool_inv_remove_idle not_idle_after_remove]
  by (simp add: remove_connection_if_match_def remove_idle_drop_commute)

lemma pool_inv_add_idle:
  assumes "pool_inv s" and "matches_generation s i g"
  shows "pool_inv (add_idle s i g)"
proof -
  have "pool_inv (remove_idle s i)" by (rule pool_inv_remove_idle) (rule assms)
  with assms(2) show ?thesis
    by (auto simp: pool_inv_def idle_ok_def add_idle_def Let_def pool_len_def matches_generation_def)
qed

text \<open>On a state with the invariant the first idle entry is always live, so eviction takes the
  connection that has been idle longest and never walks on.\<close>

lemma evict_idle_first:
  assumes "idle_ok s"
  shows "evict_idle_connection s =
     (case pa_idle s of
        [] \<Rightarrow> (False, s)
      | (i, g) # rest \<Rightarrow> (True, s\<lparr>pa_idle := rest, pa_connections := fmdrop i (pa_connections s)\<rparr>))"
  using assms by (auto simp: evict_idle_connection_def idle_ok_def split: list.split)

lemma evict_inv:
  assumes "pool_inv s" and "evict_idle_connection s = (True, s')"
  shows "pool_inv s'" and "Suc (pool_len s') = pool_len s" and "pa_options s' = pa_options s"
    and "fst ` set (pa_idle s') \<subseteq> fst ` set (pa_idle s)"
    and "fmdom (pa_connections s') |\<subseteq>| fmdom (pa_connections s)"
proof -
  from assms obtain i g rest where idle: "pa_idle s = (i, g) # rest"
      and s': "s' = s\<lparr>pa_idle := rest, pa_connections := fmdrop i (pa_connections s)\<rparr>"
    using evict_idle_first [of s] by (auto simp: pool_inv_def split: list.splits)
  from assms(1) idle have live: "i |\<in>| fmdom (pa_connections s)" and ne: "i \<notin> fst ` set rest"
    by (auto simp: pool_inv_def idle_ok_def matches_generation_iff fmdomI)
  have "pool_inv (s\<lparr>pa_idle := rest\<rparr>)"
    using assms(1) idle by (auto simp: pool_inv_def idle_ok_def pool_len_def matches_generation_def)
  from pool_inv_drop [OF this, of i] ne show "pool_inv s'" by (simp add: s')
  show "Suc (pool_len s') = pool_len s"
    using live fcard_Suc_fminus1 [OF live] by (simp add: s' pool_len_def del: fcard_fminus_finsert)
  show "pa_options s' = pa_options s" "fst ` set (pa_idle s') \<subseteq> fst ` set (pa_idle s)"
    by (auto simp: s' idle)
  show "fmdom (pa_connections s') |\<subseteq>| fmdom (pa_connections s)" by (auto simp: s')
qed

lemma generation_of_Suc: "generation_of (Suc c) = generation_of c + 1"
  by (simp add: generation_of_def add.commute)

lemma slots_ok_insert:
  assumes "slots_ok s"
  shows "slots_ok (s\<lparr>pa_next_generation := pa_next_generation s + 1, pa_channels := Suc (pa_channels s),
     pa_connections := fmupd i \<lparr>slot_generation = pa_next_generation s, slot_tx = pa_channels s\<rparr> (pa_connections s),
     pa_tasks := ts\<rparr>)"
  using assms unfolding slots_ok_def by (auto simp: generation_of_Suc less_SucI) force+

lemma start_connection_inv:
  assumes "pool_inv s" and "pool_len s < max_connections (pa_options s)"
    and "req_id req \<notin> fst ` set (pa_idle s)" and "fmlookup (pa_connections s) (req_id req) = None"
  shows "pool_inv (fst (start_connection env s req))"
proof -
  let ?s = "s\<lparr>pa_next_generation := pa_next_generation s + 1, pa_channels := Suc (pa_channels s),
     pa_connections := fmupd (req_id req)
       \<lparr>slot_generation = pa_next_generation s, slot_tx = pa_channels s\<rparr> (pa_connections s),
     pa_tasks := pa_tasks s @ [pa_channels s]\<rparr>"
  have "slots_ok ?s" using assms(1) by (intro slots_ok_insert) (simp add: pool_inv_def)
  moreover have "idle_ok ?s"
    using assms(1,3) by (force simp: pool_inv_def idle_ok_def matches_generation_iff)
  moreover have "pool_len ?s \<le> max_connections (pa_options s)"
    using assms(2) by (simp add: pool_len_def fcard_finsert_if)
  ultimately have "pool_inv ?s" by (simp add: pool_inv_def)
  then show ?thesis
    by (simp add: start_connection_def fetch_next_generation_def Let_def pool_inv_remove_connection)
qed

lemma admit_connection_inv:
  assumes "pool_inv s" and "req_id req \<notin> fst ` set (pa_idle s)"
    and "fmlookup (pa_connections s) (req_id req) = None"
  shows "pool_inv (fst (admit_connection env s req))"
proof (cases "pool_len s \<ge> max_connections (pa_options s)")
  case False
  then show ?thesis
    using assms by (simp add: admit_connection_def start_connection_inv)
next
  case True
  obtain e s' where ev: "evict_idle_connection s = (e, s')" by (cases "evict_idle_connection s")
  show ?thesis
  proof (cases e)
    case False
    with ev assms(1) have "s' = s"
      using evict_idle_first [of s] by (auto simp: pool_inv_def split: list.splits)
    with False ev True assms(1) show ?thesis by (simp add: admit_connection_def)
  next
    case e: True
    note inv = evict_inv [OF assms(1) ev [unfolded e [THEN eqTrueI]]]
    have "pool_len s \<le> max_connections (pa_options s)" using assms(1) by (simp add: pool_inv_def)
    then have "pool_len s' < max_connections (pa_options s')" using inv(2,3) by simp
    moreover have "fmlookup (pa_connections s') (req_id req) = None"
      using inv(5) assms(3) by (metis fmdom_notD fmdom_notI fsubsetD)
    ultimately have "pool_inv (fst (start_connection env s' req))"
      using inv(1,4) assms(2) by (intro start_connection_inv) auto
    with e ev True show ?thesis by (simp add: admit_connection_def)
  qed
qed

lemma handle_request_inv: "pool_inv s \<Longrightarrow> pool_inv (fst (handle_request env s req))"
proof -
  assume inv: "pool_inv s"
  let ?i = "req_id req"
  let ?s = "remove_idle s ?i"
  have s: "pool_inv ?s" "?i \<notin> fst ` set (pa_idle ?s)"
    using inv not_idle_after_remove [of ?i s] by (simp_all add: pool_inv_remove_idle)
  then have "pool_inv (?s\<lparr>pa_connections := fmdrop ?i (pa_connections ?s)\<rparr>)"
    by (rule pool_inv_drop)
  with s show ?thesis
    by (auto simp: handle_request_def Let_def admit_connection_inv
        split: option.split try_send_result.split)
qed

lemma handle_inv: "pool_inv s \<Longrightarrow> pool_inv (fst (handle env s m))"
  by (cases m) (simp_all add: handle_request_inv pool_inv_add_idle pool_inv_remove_connection)

lemma stop_pool_inv: "pool_inv s \<Longrightarrow> pool_inv (stop_pool s)"
  by (simp add: pool_inv_def stop_pool_def idle_ok_def slots_ok_def pool_len_def fcard_fempty)

lemma pool_inv_tasks: "pool_inv (s\<lparr>pa_tasks := ts\<rparr>) = pool_inv s"
  by (simp add: pool_inv_def idle_ok_def slots_ok_def pool_len_def matches_generation_def)

interpretation pool_run: machine run_step "\<lambda>(status, s). pool_inv s"
proof
  fix ss :: "run_status \<times> pool_actor" and e
  assume "case ss of (status, s) \<Rightarrow> pool_inv s"
  then show "case run_step ss e of (status, s) \<Rightarrow> pool_inv s"
    by (cases "(ss, e)" rule: run_step.cases) (simp_all add: handle_inv stop_pool_inv pool_inv_tasks)
qed

lemma pool_actor_new_options: "pa_options (pool_actor_new options) = options"
  by (simp add: pool_actor_new_def)

lemma handle_options: "pa_options (fst (handle env s m)) = pa_options s"
proof -
  have ev: "pa_options (snd (evict_loop l s)) = pa_options s" for l and s :: pool_actor
    by (induction l s rule: evict_loop.induct) simp_all
  have start: "pa_options (fst (start_connection env s req)) = pa_options s" for s :: pool_actor and req
    by (simp add: start_connection_def fetch_next_generation_def Let_def remove_connection_if_match_def)
  have "pa_options (fst (admit_connection env s req)) = pa_options s" for s :: pool_actor and req
    using ev [of "pa_idle s" s]
    by (auto simp: admit_connection_def evict_idle_connection_def start split: prod.split)
  then show ?thesis
    by (cases m) (simp_all add: handle_request_def Let_def add_idle_def remove_connection_if_match_def
        split: option.split try_send_result.split)
qed

interpretation pool_run_options: machine run_step "\<lambda>(status, s). pa_options s = opts" for opts
proof
  fix ss :: "run_status \<times> pool_actor" and e
  assume "case ss of (status, s) \<Rightarrow> pa_options s = opts"
  then show "case run_step ss e of (status, s) \<Rightarrow> pa_options s = opts"
    by (cases "(ss, e)" rule: run_step.cases) (simp_all add: handle_options stop_pool_def)
qed

section \<open>What a request does\<close>

text \<open>The effects of a request, written down without the state the handler threads.\<close>

definition others :: "pool_actor \<Rightarrow> endpoint_id \<Rightarrow> endpoint_id fset" where
  "others s i = fmdom (pa_connections s) |-| {|i|}"

definition new_connection_effects :: "channel_env \<Rightarrow> pool_actor \<Rightarrow> request_msg \<Rightarrow> effect list" where
  "new_connection_effects env s req =
     (if fcard (others s (req_id req)) \<ge> max_connections (pa_options s) \<and>
         fst ` set (pa_idle s) \<subseteq> {req_id req}
      then [ReplyErr req TooManyConnections]
      else [SpawnConnection (req_id req) (pa_next_generation s) (pa_channels s),
            if env_send_fails env (pa_channels s) req then DropRequest req else Forward (pa_channels s) req])"

definition request_effects :: "channel_env \<Rightarrow> pool_actor \<Rightarrow> request_msg \<Rightarrow> effect list" where
  "request_effects env s req =
     (case fmlookup (pa_connections s) (req_id req) of
        Some slot \<Rightarrow>
          (case env_try_send env (slot_tx slot) req of
             SendOk \<Rightarrow> [Forward (slot_tx slot) req]
           | SendFull \<Rightarrow> [ReplyErr req Busy]
           | SendClosed \<Rightarrow> new_connection_effects env s req)
      | None \<Rightarrow> new_connection_effects env s req)"

lemma start_connection_effects:
  "snd (start_connection env s req) =
     [SpawnConnection (req_id req) (pa_next_generation s) (pa_channels s),
      if env_send_fails env (pa_channels s) req then DropRequest req else Forward (pa_channels s) req]"
  by (simp add: start_connection_def fetch_next_generation_def Let_def)

lemma admit_connection_effects:
  assumes "idle_ok s"
  shows "snd (admit_connection env s req) =
     (if pool_len s \<ge> max_connections (pa_options s) \<and> pa_idle s = []
      then [ReplyErr req TooManyConnections]
      else [SpawnConnection (req_id req) (pa_next_generation s) (pa_channels s),
            if env_send_fails env (pa_channels s) req then DropRequest req else Forward (pa_channels s) req])"
  by (auto simp: admit_connection_def evict_idle_first [OF assms] start_connection_effects split: list.split)

lemma filter_idle_empty: "filter (\<lambda>(j, _). j \<noteq> i) xs = [] \<longleftrightarrow> fst ` set xs \<subseteq> {i}"
  by (auto simp: filter_empty_conv)

lemma handle_request_effects:
  assumes "pool_inv s"
  shows "snd (handle env s (Msg_Request req)) = request_effects env s req"
proof -
  let ?i = "req_id req"
  let ?s = "remove_idle s ?i"
  let ?d = "?s\<lparr>pa_connections := fmdrop ?i (pa_connections s)\<rparr>"
  have idle: "idle_ok ?s" "idle_ok ?d"
    using assms idle_ok_drop [of ?s ?i] not_idle_after_remove [of ?i s]
    by (simp_all add: pool_inv_def idle_ok_remove)
  have "fmlookup (pa_connections s) ?i = None \<Longrightarrow> fmdom (pa_connections s) |-| {|?i|} = fmdom (pa_connections s)"
    by (auto simp: fmdom_notI)
  then show ?thesis
    using admit_connection_effects [OF idle(1)] admit_connection_effects [OF idle(2)]
    by (auto simp: handle_request_def Let_def request_effects_def new_connection_effects_def
        pool_len_def others_def filter_idle_empty split: option.split try_send_result.split)
qed

fun answers :: "request_msg \<Rightarrow> effect \<Rightarrow> bool" where
  "answers req (Forward c r) \<longleftrightarrow> r = req"
| "answers req (ReplyErr r e) \<longleftrightarrow> r = req"
| "answers req (DropRequest r) \<longleftrightarrow> r = req"
| "answers req (SpawnConnection i g c) \<longleftrightarrow> False"

section \<open>Properties\<close>

text \<open>(C1) In every run of the pool actor, whatever the mailboxes answer and whichever messages arrive,
  there are never more than \<open>max_connections\<close> slots, every peer is queued as idle at most once, and
  every queued entry is the current generation of a live slot.\<close>

theorem pool_run_invariant:
  fixes es :: "run_event list" and opts :: pool_options
  defines "s \<equiv> snd (foldl run_step (Running, pool_actor_new opts) es)"
  shows "pool_len s \<le> max_connections opts \<and> distinct (map fst (pa_idle s)) \<and>
     (\<forall>(i, g) \<in> set (pa_idle s). matches_generation s i g)"
proof -
  have "pool_inv s" "pa_options s = opts"
    using pool_run.run_inv [of "(Running, pool_actor_new opts)" es]
      pool_run_options.run_inv [of opts "(Running, pool_actor_new opts)" es]
    by (simp_all add: s_def pool_inv_new pool_actor_new_options split_beta)
  then show ?thesis by (simp add: pool_inv_def idle_ok_def)
qed

text \<open>(C19) The whole outcome of a request: a live slot whose mailbox takes the request is reused and a full
  one answers \<open>Busy\<close>; otherwise a connection of the next generation is started, unless the limit is
  reached by other peers none of which is idle.\<close>

theorem request_outcome:
  assumes "pool_inv s"
  shows "snd (handle env s (Msg_Request req)) = request_effects env s req"
  by (rule handle_request_effects) (rule assms)

text \<open>Every request is answered exactly once by the handler (handed to one mailbox, refused, or dropped
  with its reply channel), and no other request is touched.\<close>

lemma request_answered_once:
  "length (filter (answers req) (snd (handle env s (Msg_Request req)))) = 1 \<and>
   list_all (\<lambda>e. answers req e \<or> (\<exists>g c. e = SpawnConnection (req_id req) g c)) (snd (handle env s (Msg_Request req)))"
  by (auto simp: handle_request_def Let_def admit_connection_def start_connection_effects
      split: option.split try_send_result.split prod.split)

text \<open>(C20) A message of an older connection of a peer never disturbs the current one: as long as fewer than
  \<open>2 ^ 64\<close> connections were started, \<open>Idle\<close> and \<open>Shutdown\<close> of any other mailbox leave the actor as it
  is.\<close>

theorem stale_message_ignored:
  assumes "pool_inv s" and "pa_channels s < 2 ^ 64"
    and "fmlookup (pa_connections s) i = Some slot" and "c < pa_channels s" and "c \<noteq> slot_tx slot"
  shows "handle env s (Msg_Idle i (generation_of c)) = (s, []) \<and>
         handle env s (Msg_Shutdown i (generation_of c)) = (s, [])"
proof -
  have slot: "slot_tx slot < pa_channels s" "slot_generation slot = generation_of (slot_tx slot)"
    using assms(1,3) by (auto simp: pool_inv_def slots_ok_def)
  have "unat (generation_of x) = Suc x" if "x < pa_channels s" for x
    using that assms(2) by (simp add: generation_of_def unat_of_nat del: of_nat_Suc)
  then have "generation_of c \<noteq> generation_of (slot_tx slot)"
    using assms(4,5) slot(1) by (metis Suc_inject)
  then have "\<not> matches_generation s i (generation_of c)"
    using assms(3) slot(2) by (simp add: matches_generation_def)
  then show ?thesis by (simp add: remove_connection_if_match_def)
qed

section \<open>Witnesses\<close>

text \<open>A pool of one connection: peer 1 connects and goes idle, then peer 2 asks and evicts it.\<close>

definition w_env :: channel_env where
  "w_env = \<lparr>env_try_send = (\<lambda>c r. SendOk), env_send_fails = (\<lambda>c r. False)\<rparr>"

definition w_options :: pool_options where
  "w_options = pool_options_default\<lparr>max_connections := 1\<rparr>"

definition w_req :: "nat \<Rightarrow> u8 \<Rightarrow> request_msg" where
  "w_req tx b = \<lparr>req_id = [b], req_tx = tx\<rparr>"

definition w_events :: "run_event list" where
  "w_events = [RxMessage w_env (Msg_Request (w_req 0 1)), RxMessage w_env (Msg_Idle [1] 1)]"

definition w_pool :: pool_actor where
  "w_pool = snd (foldl run_step (Running, pool_actor_new w_options) w_events)"

lemmas w_pool_defs = w_env_def w_options_def w_req_def w_events_def w_pool_def pool_actor_new_def
  handle_request_def admit_connection_def start_connection_def fetch_next_generation_def Let_def
  remove_idle_def add_idle_def matches_generation_def pool_len_def fcard_fempty fcard_finsert_if

lemma w_pool_eq:
  "w_pool = \<lparr>pa_options = w_options,
     pa_connections = fmupd [1] \<lparr>slot_generation = 1, slot_tx = 0\<rparr> fmempty,
     pa_idle = [([1], 1)], pa_next_generation = 2, pa_channels = 1, pa_tasks = [0]\<rparr>"
  by (simp add: w_pool_defs)

lemma w_pool_inv: "pool_inv w_pool"
  by (simp add: w_pool_eq pool_inv_def idle_ok_def slots_ok_def matches_generation_def pool_len_def
      w_options_def generation_of_def fcard_fempty fcard_finsert_if)

theorem pool_run_invariant_witness:
  "pool_len (snd (foldl run_step (Running, pool_actor_new w_options) w_events)) \<le> 1 \<and>
   pa_idle (snd (foldl run_step (Running, pool_actor_new w_options) w_events)) = [([1], 1)] \<and>
   matches_generation (snd (foldl run_step (Running, pool_actor_new w_options) w_events)) [1] 1"
proof -
  have idle: "pa_idle (snd (foldl run_step (Running, pool_actor_new w_options) w_events)) = [([1], 1)]"
    using w_pool_eq by (simp add: w_pool_def)
  with pool_run_invariant [where opts = w_options and es = w_events] show ?thesis
    by (simp add: w_options_def)
qed

theorem request_outcome_witness:
  "pool_inv w_pool \<and>
   snd (handle w_env w_pool (Msg_Request (w_req 1 2))) = [SpawnConnection [2] 2 1, Forward 1 (w_req 1 2)]"
  using request_outcome [OF w_pool_inv, of w_env "w_req 1 2"]
  by (intro conjI w_pool_inv) (simp add: w_pool_eq request_effects_def new_connection_effects_def w_req_def w_env_def)

text \<open>Peer 1 reconnects after its slot was dropped: the shutdown of its first connection is stale.\<close>

definition w_pool2 :: pool_actor where
  "w_pool2 = fst (handle w_env (fst (handle w_env w_pool (Msg_Shutdown [1] 1))) (Msg_Request (w_req 2 1)))"

theorem stale_message_ignored_witness:
  "handle w_env w_pool2 (Msg_Shutdown [1] (generation_of 0)) = (w_pool2, [])"
proof -
  have inv: "pool_inv w_pool2" unfolding w_pool2_def by (intro handle_inv w_pool_inv)
  have w: "fmlookup (pa_connections w_pool2) [1] = Some \<lparr>slot_generation = 2, slot_tx = 1\<rparr>"
      "pa_channels w_pool2 = 2"
    by (simp_all add: w_pool2_def w_pool_eq remove_connection_if_match_def w_pool_defs)
  from stale_message_ignored [OF inv _ w(1), of 0 w_env] w(2) show ?thesis by simp
qed

end
