(* ===== verification/Pool_Connection.thy ===== *)
theory Pool_Connection
  imports Pool_Actor
begin

text \<open>
  \<^verbatim>\<open>src/pool.rs\<close>, one pooled connection: \<open>ConnectionCounter\<close>, \<open>ConnectionRef\<close> and the per-connection
  actor \<open>Ctx::run_connection\<close>.

  The actor awaits five things at once in a biased \<open>select!\<close>. Which of them are ready in a round is
  the argument \<open>readiness\<close> of a step (tokio and iroh decide it); which branch then runs, and what it
  does, is the code's. Handles may be dropped between any two rounds.
\<close>

section \<open>Definitions\<close>

datatype connect_outcome = ConnectOk | ConnectFailed string | ConnectTimedOut

text \<open>\<open>timeout(..., connect().map_err(PoolError::from)).await.map_err(|_| Timeout).and_then(|r| r)\<close>.\<close>

fun connect_result :: "connect_outcome \<Rightarrow> pool_error + unit" where
  "connect_result ConnectOk = Inr ()"
| "connect_result (ConnectFailed e) = Inl (pool_error_from_connect_error e)"
| "connect_result ConnectTimedOut = Inl Timeout"

text \<open>
  The actor's local variables. \<open>ca_connected\<close> is \<open>connection.is_some()\<close> and \<open>ca_count\<close> the number of
  live \<open>OneConnection\<close> permits, that is of handed-out \<open>ConnectionRef\<close>s; \<open>ca_idle_deadline\<close> is where
  \<open>idle_sleep\<close> was last reset to.
\<close>

record conn_actor =
  ca_node_id :: endpoint_id
  ca_generation :: u64
  ca_idle_timeout :: duration
  ca_connected :: bool
  ca_error :: "pool_error option"
  ca_count :: nat
  ca_idle_active :: bool
  ca_idle_deadline :: nat
  ca_shutdown_pending :: bool
  ca_running :: bool

datatype recv_result = RecvPending | RecvNone | RecvRequest request_msg

record readiness =
  rd_shutdown :: bool
  rd_conn_closed :: bool
  rd_recv :: recv_result
  rd_close_reason :: bool
  rd_notified :: bool
  rd_idle_elapsed :: bool
  rd_now :: nat

datatype branch = BranchShutdown | BranchClosed | BranchRecv | BranchNotified | BranchIdle

datatype conn_effect =
    SendPool msg
  | ReplyRef request_msg endpoint_id u64
  | ReplyError request_msg pool_error
  | CloseConnection string

definition get_one :: "conn_actor \<Rightarrow> conn_actor" where
  "get_one a = a\<lparr>ca_count := Suc (ca_count a)\<rparr>"

definition is_idle :: "conn_actor \<Rightarrow> bool" where
  "is_idle a \<longleftrightarrow> ca_count a = 0"

text \<open>\<open>OneConnection::drop\<close>: the second component says whether \<open>notify_one\<close> is called.\<close>

definition drop_one :: "conn_actor \<Rightarrow> conn_actor \<times> bool" where
  "drop_one a = (a\<lparr>ca_count := ca_count a - 1\<rparr>, ca_count a = 1)"

definition conn_start :: "endpoint_id \<Rightarrow> u64 \<Rightarrow> duration \<Rightarrow> connect_outcome \<Rightarrow> bool
    \<Rightarrow> conn_actor \<times> conn_effect list" where
  "conn_start i generation timeout outcome shutdown_closed =
     (case connect_result outcome of
        Inr _ \<Rightarrow>
          (\<lparr>ca_node_id = i, ca_generation = generation, ca_idle_timeout = timeout, ca_connected = True,
            ca_error = None, ca_count = 0, ca_idle_active = False, ca_idle_deadline = 0,
            ca_shutdown_pending = shutdown_closed, ca_running = True\<rparr>, [])
      | Inl e \<Rightarrow>
          (\<lparr>ca_node_id = i, ca_generation = generation, ca_idle_timeout = timeout, ca_connected = False,
            ca_error = Some e, ca_count = 0, ca_idle_active = False, ca_idle_deadline = 0,
            ca_shutdown_pending = shutdown_closed, ca_running = True\<rparr>,
           [SendPool (Msg_Shutdown i generation)]))"

text \<open>The biased choice: the first branch that is enabled and ready.\<close>

definition select_branch :: "conn_actor \<Rightarrow> readiness \<Rightarrow> branch option" where
  "select_branch a r =
     (if rd_shutdown r \<and> \<not> ca_shutdown_pending a then Some BranchShutdown
      else if rd_conn_closed r \<and> ca_connected a then Some BranchClosed
      else if rd_recv r \<noteq> RecvPending then Some BranchRecv
      else if rd_notified r \<and> ca_connected a then Some BranchNotified
      else if rd_idle_elapsed r \<and> ca_idle_active a then Some BranchIdle
      else None)"

text \<open>Leaving the loop: a connection is closed with the reason the code names.\<close>

definition conn_finish :: "conn_actor \<Rightarrow> conn_effect list \<Rightarrow> conn_actor \<times> conn_effect list" where
  "conn_finish a effs =
     (a\<lparr>ca_running := False\<rparr>,
      effs @ (if ca_connected a
              then [CloseConnection (if is_idle a then ''idle'' else ''drop'')] else []))"

definition notify_pool_shutdown :: "conn_actor \<Rightarrow> conn_effect" where
  "notify_pool_shutdown a = SendPool (Msg_Shutdown (ca_node_id a) (ca_generation a))"

definition on_request :: "conn_actor \<Rightarrow> bool \<Rightarrow> request_msg \<Rightarrow> conn_actor \<times> conn_effect list" where
  "on_request a closed req =
     (if ca_connected a
      then (if closed
            then conn_finish a [notify_pool_shutdown a, ReplyError req Closed]
            else ((get_one a)\<lparr>ca_idle_active := False\<rparr>,
                  [ReplyRef req (ca_node_id a) (ca_generation a)]))
      else (a, [ReplyError req (case ca_error a of Some e \<Rightarrow> e | None \<Rightarrow> Shutdown)]))"

definition on_notified :: "conn_actor \<Rightarrow> nat \<Rightarrow> conn_actor \<times> conn_effect list" where
  "on_notified a now =
     (if \<not> is_idle a then (a, [])
      else if ca_shutdown_pending a then conn_finish a []
      else (a\<lparr>ca_idle_active := True, ca_idle_deadline := now + ca_idle_timeout a\<rparr>,
            [SendPool (Msg_Idle (ca_node_id a) (ca_generation a))]))"

text \<open>The sum of an \<open>Instant\<close> and a \<open>Duration\<close> panics beyond the largest instant of the platform. The branch with
  that panic in it: the pool has its message by then, and the task is gone. \<open>on_notified\<close> is the case of a
  deadline that exists.\<close>

definition instant_add :: "nat \<Rightarrow> nat \<Rightarrow> nat \<Rightarrow> nat outcome" where
  "instant_add latest now d = (if latest < now + d then Panicked else Returned (now + d))"

definition on_notified_checked :: "nat \<Rightarrow> conn_actor \<Rightarrow> nat \<Rightarrow> conn_actor outcome \<times> conn_effect list" where
  "on_notified_checked latest a now =
     (if \<not> is_idle a then (Returned a, [])
      else if ca_shutdown_pending a then apfst Returned (conn_finish a [])
      else (case instant_add latest now (ca_idle_timeout a) of
              Panicked \<Rightarrow> Panicked
            | Returned deadline \<Rightarrow> Returned (a\<lparr>ca_idle_active := True, ca_idle_deadline := deadline\<rparr>),
            [SendPool (Msg_Idle (ca_node_id a) (ca_generation a))]))"

fun run_branch :: "conn_actor \<Rightarrow> readiness \<Rightarrow> branch \<Rightarrow> conn_actor \<times> conn_effect list" where
  "run_branch a r BranchShutdown =
     (let a = a\<lparr>ca_shutdown_pending := True\<rparr>
      in if is_idle a then conn_finish a [] else (a, []))"
| "run_branch a r BranchClosed = conn_finish a [notify_pool_shutdown a]"
| "run_branch a r BranchRecv =
     (case rd_recv r of
        RecvRequest req \<Rightarrow> on_request a (rd_close_reason r) req
      | RecvNone \<Rightarrow> conn_finish a []
      | RecvPending \<Rightarrow> (a, []))"
| "run_branch a r BranchNotified = on_notified a (rd_now r)"
| "run_branch a r BranchIdle = conn_finish a [notify_pool_shutdown a]"

text \<open>One round of the loop, and a handle dropped in between.\<close>

datatype conn_event = Select readiness | DropRef

fun conn_step :: "conn_actor \<Rightarrow> conn_event \<Rightarrow> conn_actor \<times> conn_effect list" where
  "conn_step a (Select r) =
     (if \<not> ca_running a then (a, [])
      else (case select_branch a r of None \<Rightarrow> (a, []) | Some b \<Rightarrow> run_branch a r b))"
| "conn_step a DropRef = (if ca_count a = 0 then (a, []) else (fst (drop_one a), []))"

definition conn_run :: "conn_actor \<Rightarrow> conn_event list \<Rightarrow> conn_actor" where
  "conn_run a es = foldl (\<lambda>a e. fst (conn_step a e)) a es"

text \<open>
  The senders of the actor's mailbox that are alive: the actor's own \<open>actor_tx\<close>, which it keeps until
  it returns, one clone per handed-out \<open>ConnectionRef\<close>, and the slot's. The documented law of a tokio
  receiver is that \<open>recv()\<close> returns \<open>None\<close> only when no sender is left.
\<close>

definition mailbox_senders :: "conn_actor \<Rightarrow> bool \<Rightarrow> nat" where
  "mailbox_senders a slot_held =
     (if ca_running a then 1 else 0) + ca_count a + (if slot_held then 1 else 0)"

fun recv_documented :: "conn_actor \<Rightarrow> conn_event \<Rightarrow> bool" where
  "recv_documented a (Select r) \<longleftrightarrow> (rd_recv r = RecvNone \<longrightarrow> (\<exists>slot_held. mailbox_senders a slot_held = 0))"
| "recv_documented a DropRef \<longleftrightarrow> True"

fun legal_run :: "conn_actor \<Rightarrow> conn_event list \<Rightarrow> bool" where
  "legal_run a [] \<longleftrightarrow> True"
| "legal_run a (e # es) \<longleftrightarrow> recv_documented a e \<and> legal_run (fst (conn_step a e)) es"

section \<open>The invariant\<close>

definition conn_inv :: "conn_actor \<Rightarrow> bool" where
  "conn_inv a \<longleftrightarrow> (ca_idle_active a \<longrightarrow> ca_count a = 0) \<and>
     (\<not> ca_connected a \<longrightarrow> ca_count a = 0 \<and> \<not> ca_idle_active a) \<and>
     (ca_connected a \<longleftrightarrow> ca_error a = None)"

lemmas conn_defs = conn_finish_def on_request_def on_notified_def get_one_def is_idle_def drop_one_def
  notify_pool_shutdown_def

text \<open>The actor of an unused connection panics exactly when its deadline would be beyond the largest
  instant; otherwise the branch is \<open>on_notified\<close>. The effects are the same.\<close>

lemma on_notified_checked_eq:
  "on_notified_checked latest a now =
     apfst (\<lambda>a'. if is_idle a \<and> \<not> ca_shutdown_pending a \<and> latest < now + ca_idle_timeout a then Panicked else Returned a')
       (on_notified a now)"
  by (simp add: on_notified_checked_def on_notified_def instant_add_def)

lemma conn_start_inv: "conn_inv (fst (conn_start i g t outcome closed))"
  by (cases outcome) (simp_all add: conn_start_def conn_inv_def)

lemma run_branch_inv:
  "conn_inv a \<Longrightarrow> select_branch a r = Some b \<Longrightarrow> conn_inv (fst (run_branch a r b))"
  by (cases b) (auto simp: conn_inv_def conn_defs select_branch_def Let_def
      split: recv_result.splits if_splits)

interpretation conn: machine "\<lambda>a e. fst (conn_step a e)" conn_inv
proof
  fix a e
  assume "conn_inv a"
  then show "conn_inv (fst (conn_step a e))"
    by (cases e) (auto simp: run_branch_inv split: option.split, auto simp: conn_inv_def drop_one_def)
qed

lemma conn_run_inv: "conn_inv (conn_run (fst (conn_start i g t outcome closed)) es)"
  unfolding conn_run_def by (rule conn.run_inv) (rule conn_start_inv)

text \<open>What leaves the actor's identity alone.\<close>

definition same_identity :: "conn_actor \<Rightarrow> conn_actor \<Rightarrow> bool" where
  "same_identity a a' \<longleftrightarrow> ca_node_id a' = ca_node_id a \<and> ca_generation a' = ca_generation a \<and>
     ca_connected a' = ca_connected a \<and> ca_error a' = ca_error a \<and> ca_idle_timeout a' = ca_idle_timeout a"

lemma run_branch_identity: "same_identity a (fst (run_branch a r b))"
  by (cases b) (simp_all add: same_identity_def conn_defs Let_def split: recv_result.split)

lemma conn_step_identity: "same_identity a (fst (conn_step a e))"
  by (cases e) (auto simp: run_branch_identity split: option.split, auto simp: same_identity_def drop_one_def)

text \<open>Every message to the pool carries the actor's own peer and generation.\<close>

fun own_message :: "conn_actor \<Rightarrow> conn_effect \<Rightarrow> bool" where
  "own_message a (SendPool m) \<longleftrightarrow>
     m = Msg_Idle (ca_node_id a) (ca_generation a) \<or> m = Msg_Shutdown (ca_node_id a) (ca_generation a)"
| "own_message a (ReplyRef req i g) \<longleftrightarrow> i = ca_node_id a \<and> g = ca_generation a"
| "own_message a (ReplyError req e) \<longleftrightarrow> True"
| "own_message a (CloseConnection why) \<longleftrightarrow> True"

fun replies_to :: "request_msg \<Rightarrow> conn_effect \<Rightarrow> bool" where
  "replies_to req (ReplyRef r i g) \<longleftrightarrow> r = req"
| "replies_to req (ReplyError r e) \<longleftrightarrow> r = req"
| "replies_to req (SendPool m) \<longleftrightarrow> False"
| "replies_to req (CloseConnection why) \<longleftrightarrow> False"

lemma select_branch_recv:
  "rd_recv r = RecvRequest req \<Longrightarrow> select_branch a r = Some b \<Longrightarrow>
     b = BranchShutdown \<or> b = BranchClosed \<or> b = BranchRecv"
  by (auto simp: select_branch_def split: if_splits)

text \<open>A running actor holds a sender of its own mailbox, so \<open>recv()\<close> never returns \<open>None\<close> to it.\<close>

lemma running_never_none: "ca_running a \<Longrightarrow> recv_documented a (Select r) \<Longrightarrow> rd_recv r \<noteq> RecvNone"
  by (auto simp: mailbox_senders_def)

lemma failed_step_running:
  assumes "ca_running a" and "\<not> ca_connected a" and "conn_inv a" and "recv_documented a e"
    and "ca_shutdown_pending a \<or> (\<forall>r. e = Select r \<longrightarrow> \<not> rd_shutdown r)"
  shows "ca_running (fst (conn_step a e)) \<and>
     ca_shutdown_pending (fst (conn_step a e)) = ca_shutdown_pending a"
proof (cases e)
  case DropRef
  with assms show ?thesis by (simp add: drop_one_def)
next
  case (Select r)
  then have "rd_recv r \<noteq> RecvNone" using running_never_none [OF assms(1)] assms(4) by blast
  moreover have "\<not> (rd_shutdown r \<and> \<not> ca_shutdown_pending a)" using assms(5) Select by auto
  moreover have "\<not> ca_idle_active a" using assms(2,3) by (simp add: conn_inv_def)
  ultimately show ?thesis
    using assms(1,2) Select by (auto simp: select_branch_def on_request_def split: recv_result.split)
qed

lemma failed_run_running:
  assumes "ca_running a" and "\<not> ca_connected a" and "conn_inv a" and "legal_run a es"
    and "ca_shutdown_pending a \<or> (\<forall>r. Select r \<in> set es \<longrightarrow> \<not> rd_shutdown r)"
  shows "ca_running (conn_run a es)"
  using assms
proof (induction es arbitrary: a)
  case Nil
  then show ?case by (simp add: conn_run_def)
next
  case (Cons e es)
  let ?a = "fst (conn_step a e)"
  have step: "ca_running ?a" "ca_shutdown_pending ?a = ca_shutdown_pending a"
    using failed_step_running [of a e] Cons.prems by auto
  moreover have "\<not> ca_connected ?a" "conn_inv ?a"
    using Cons.prems(2,3) conn_step_identity [of a e] by (simp_all add: same_identity_def conn.step_inv)
  ultimately have "ca_running (conn_run ?a es)"
    using Cons.prems by (intro Cons.IH) auto
  then show ?case by (simp add: conn_run_def)
qed

section \<open>Properties\<close>

text \<open>(C11) A lease keeps its connection: in every run of the actor the idle timer is armed only while no
  handle is out, and a round that ends the actor while handles are out is one in which the
  connection was already closed. No shutdown and no timeout closes a leased connection.\<close>

theorem leased_connection_kept:
  assumes "a = conn_run (fst (conn_start i g t outcome closed)) es"
    and "recv_documented a (Select r)"
    and "ca_running a" and "ca_count a > 0" and "\<not> ca_running (fst (conn_step a (Select r)))"
  shows "\<not> ca_idle_active a \<and> (rd_conn_closed r \<or> (\<exists>req. rd_recv r = RecvRequest req \<and> rd_close_reason r))"
proof -
  have inv: "conn_inv a" unfolding assms(1) by (rule conn_run_inv)
  then have idle: "\<not> ca_idle_active a" using assms(4) by (auto simp: conn_inv_def)
  have "rd_recv r \<noteq> RecvNone" using running_never_none assms(2,3) by blast
  with idle assms(3-5) show ?thesis
    by (auto simp: select_branch_def conn_defs Let_def split: if_splits recv_result.splits)
qed

text \<open>Messages are tagged: whatever the actor sends to the pool or hands out carries its own peer and
  generation.\<close>

lemma conn_effects_tagged:
  "list_all (own_message a) (snd (conn_step a e))"
proof -
  have "list_all (own_message a) (snd (run_branch a r b))" for r b
    by (cases b) (simp_all add: conn_defs Let_def split: recv_result.split)
  then show ?thesis by (cases e) (simp_all split: option.split)
qed

text \<open>Every request the actor takes from its mailbox is answered in the same round, once: with a handle
  to the live connection, with \<open>Closed\<close> when the connection is found closed (the pool is told
  first), or with the error the connect attempt ended in.\<close>

lemma conn_request_answered:
  assumes "conn_inv a" and "ca_running a" and "rd_recv r = RecvRequest req"
    and "select_branch a r = Some BranchRecv"
  shows "snd (conn_step a (Select r)) =
     (if \<not> ca_connected a then [ReplyError req (the (ca_error a))]
      else if rd_close_reason r
      then [SendPool (Msg_Shutdown (ca_node_id a) (ca_generation a)), ReplyError req Closed,
            CloseConnection (if ca_count a = 0 then ''idle'' else ''drop'')]
      else [ReplyRef req (ca_node_id a) (ca_generation a)])"
  using assms by (auto simp: conn_defs conn_inv_def)

text \<open>The last handle gone: when the actor sees the notification it either stops (the pool is shutting
  down) and closes the connection as idle, or tells the pool that it is idle and arms the timer
  for \<open>idle_timeout\<close> from now; a later request disarms it.\<close>

lemma last_handle_dropped:
  assumes "ca_running a" and "ca_connected a" and "ca_count a = 0"
    and "select_branch a r = Some BranchNotified"
  shows "conn_step a (Select r) =
     (if ca_shutdown_pending a
      then (a\<lparr>ca_running := False\<rparr>, [CloseConnection ''idle''])
      else (a\<lparr>ca_idle_active := True, ca_idle_deadline := rd_now r + ca_idle_timeout a\<rparr>,
            [SendPool (Msg_Idle (ca_node_id a) (ca_generation a))]))"
  using assms by (simp add: conn_defs)

text \<open>(C39) An actor whose connect attempt failed never returns while the pool is open, and never at all when
  the pool was shut down during the attempt: it answers what is in its mailbox and then waits for ever,
  because it holds a sender of that mailbox itself and every other branch is disabled. Each failed
  connect leaves a task behind, and a shut down pool waits for it for ever.\<close>

theorem failed_connect_actor_never_returns:
  assumes "connect_result outcome = Inl err"
    and "legal_run (fst (conn_start i g t outcome closed)) es"
    and "closed \<or> (\<forall>r. Select r \<in> set es \<longrightarrow> \<not> rd_shutdown r)"
  shows "ca_running (conn_run (fst (conn_start i g t outcome closed)) es)"
  using assms by (intro failed_run_running) (auto simp: conn_start_def conn_inv_def)

section \<open>Witnesses\<close>

definition wc_ready :: readiness where
  "wc_ready = \<lparr>rd_shutdown = False, rd_conn_closed = False, rd_recv = RecvPending, rd_close_reason = False,
     rd_notified = False, rd_idle_elapsed = False, rd_now = 7\<rparr>"

definition wc_req :: request_msg where
  "wc_req = \<lparr>req_id = [1], req_tx = 0\<rparr>"

definition wc_asked :: readiness where
  "wc_asked = wc_ready\<lparr>rd_recv := RecvRequest wc_req\<rparr>"

definition wc_start :: "connect_outcome \<Rightarrow> bool \<Rightarrow> conn_actor" where
  "wc_start outcome closed = fst (conn_start [1] 1 10 outcome closed)"

lemmas wc_defs = wc_ready_def wc_asked_def wc_start_def conn_start_def conn_run_def select_branch_def
  conn_defs Let_def mailbox_senders_def

text \<open>A connection is leased and then closed by the remote side.\<close>

theorem leased_connection_kept_witness:
  "\<not> ca_running (fst (conn_step (conn_run (wc_start ConnectOk False) [Select wc_asked])
       (Select (wc_ready\<lparr>rd_conn_closed := True\<rparr>)))) \<and>
   \<not> ca_idle_active (conn_run (wc_start ConnectOk False) [Select wc_asked])"
proof -
  let ?a = "conn_run (fst (conn_start [1] 1 10 ConnectOk False)) [Select wc_asked]"
    and ?r = "wc_ready\<lparr>rd_conn_closed := True\<rparr>"
  have "recv_documented ?a (Select ?r)" "ca_running ?a" "ca_count ?a > 0"
    and stop: "\<not> ca_running (fst (conn_step ?a (Select ?r)))"
    by (simp_all add: wc_defs)
  from leased_connection_kept [OF refl this] stop show ?thesis by (simp add: wc_start_def)
qed

text \<open>The failed actor answers the request that started it and stays.\<close>

theorem failed_connect_actor_never_returns_witness:
  "ca_running (conn_run (fst (conn_start [1] 1 10 ConnectTimedOut False)) [Select wc_asked, Select wc_ready]) \<and>
   ca_running (conn_run (fst (conn_start [1] 1 10 ConnectTimedOut True))
     [Select wc_asked, Select (wc_ready\<lparr>rd_shutdown := True\<rparr>)])"
  by (intro conjI failed_connect_actor_never_returns) (auto simp: wc_defs)

end
