(* ===== verification/Errors.thy ===== *)
theory Errors
  imports Pool_Actor
begin

text \<open>
  \<^verbatim>\<open>src/error.rs\<close> and the error conversions of \<^verbatim>\<open>src/client.rs\<close> and \<^verbatim>\<open>src/stream.rs\<close>. The iroh error
  enumerations are known from the exhaustive matches of the source; what their variants carry is
  opaque and kept as text. An \<open>std::io::Error\<close> is its kind and the error it wraps.
\<close>

section \<open>Definitions\<close>

datatype connection_error =
    VersionMismatch
  | TransportError string
  | ConnectionClosed string
  | ApplicationClosed string
  | ConnReset
  | ConnTimedOut
  | LocallyClosed
  | CidsExhausted

text \<open>The last variant stands for every further one of the non-exhaustive enumeration.\<close>

datatype connecting_error =
    ConnectingConnectionError connection_error
  | HandshakeFailure string
  | ConnectingOther string

datatype write_error =
    WriteStopped string
  | ConnectionLost connection_error
  | ClosedStream
  | ZeroRttRejected

datatype io_error_kind =
    KindBrokenPipe
  | KindConnectionAborted
  | KindConnectionRefused
  | KindConnectionReset
  | KindInvalidData
  | KindNotConnected
  | KindOther
  | KindPermissionDenied
  | KindTimedOut
  | KindUnsupported

datatype io_source =
    SrcConnection connection_error
  | SrcConnecting connecting_error
  | SrcWrite write_error
  | SrcPool pool_error
  | SrcConnect string
  | SrcMessage string

record io_error =
  io_kind :: io_error_kind
  io_source :: io_source

datatype error =
    IrohConnection connection_error
  | QuicWrite write_error
  | QuicRead string
  | TonicTransport string
  | H2 string
  | Io io_error
  | Connection string
  | AddressLookupMetadata string
  | DhtDiscovery string
  | Pool pool_error

type_synonym 'a result = "error + 'a"

definition connection :: "string \<Rightarrow> error" where
  "connection message = Connection message"

definition address_lookup_metadata :: "string \<Rightarrow> error" where
  "address_lookup_metadata message = AddressLookupMetadata message"

definition dht_discovery :: "string \<Rightarrow> error" where
  "dht_discovery message = DhtDiscovery message"

text \<open>The prefix each variant is displayed with, before the display of what it carries.\<close>

fun error_prefix :: "error \<Rightarrow> string" where
  "error_prefix (IrohConnection e) = ''Iroh connection error: ''"
| "error_prefix (QuicWrite e) = ''QUIC write error: ''"
| "error_prefix (QuicRead e) = ''QUIC read error: ''"
| "error_prefix (TonicTransport e) = ''Tonic transport error: ''"
| "error_prefix (H2 e) = ''HTTP/2 error: ''"
| "error_prefix (Io e) = ''I/O error: ''"
| "error_prefix (Connection e) = ''Connection error: ''"
| "error_prefix (AddressLookupMetadata e) = ''Address lookup metadata error: ''"
| "error_prefix (DhtDiscovery e) = ''DHT discovery error: ''"
| "error_prefix (Pool e) = ''Pool error: ''"

definition io_other :: "io_source \<Rightarrow> io_error" where
  "io_other src = \<lparr>io_kind = KindOther, io_source = src\<rparr>"

fun connection_error_kind :: "connection_error \<Rightarrow> io_error_kind" where
  "connection_error_kind VersionMismatch = KindUnsupported"
| "connection_error_kind (TransportError _) = KindInvalidData"
| "connection_error_kind (ConnectionClosed _) = KindConnectionAborted"
| "connection_error_kind (ApplicationClosed _) = KindConnectionReset"
| "connection_error_kind ConnReset = KindConnectionReset"
| "connection_error_kind ConnTimedOut = KindTimedOut"
| "connection_error_kind LocallyClosed = KindNotConnected"
| "connection_error_kind CidsExhausted = KindOther"

definition connection_error_to_io :: "connection_error \<Rightarrow> io_error" where
  "connection_error_to_io e = \<lparr>io_kind = connection_error_kind e, io_source = SrcConnection e\<rparr>"

fun connecting_error_to_io :: "connecting_error \<Rightarrow> io_error" where
  "connecting_error_to_io (ConnectingConnectionError src) = connection_error_to_io src"
| "connecting_error_to_io (HandshakeFailure e) =
     \<lparr>io_kind = KindPermissionDenied, io_source = SrcConnecting (HandshakeFailure e)\<rparr>"
| "connecting_error_to_io (ConnectingOther e) = io_other (SrcConnecting (ConnectingOther e))"

fun write_error_kind :: "write_error \<Rightarrow> io_error_kind" where
  "write_error_kind (WriteStopped _) = KindBrokenPipe"
| "write_error_kind (ConnectionLost _) = KindConnectionAborted"
| "write_error_kind ClosedStream = KindNotConnected"
| "write_error_kind ZeroRttRejected = KindOther"

definition write_error_to_io :: "write_error \<Rightarrow> io_error" where
  "write_error_to_io e = \<lparr>io_kind = write_error_kind e, io_source = SrcWrite e\<rparr>"

section \<open>Properties\<close>

text \<open>The conversions lose nothing: the wrapped error is the one that was converted.\<close>

lemma connection_error_to_io_inj: "connection_error_to_io e = connection_error_to_io f \<longleftrightarrow> e = f"
  by (auto simp: connection_error_to_io_def)

lemma write_error_to_io_inj: "write_error_to_io e = write_error_to_io f \<longleftrightarrow> e = f"
  by (auto simp: write_error_to_io_def)

lemma connecting_error_to_io_inj: "connecting_error_to_io e = connecting_error_to_io f \<longleftrightarrow> e = f"
  by (cases e; cases f) (auto simp: connection_error_to_io_def io_other_def)

lemma write_error_kinds:
  "io_kind (write_error_to_io e) \<in> {KindBrokenPipe, KindConnectionAborted, KindNotConnected, KindOther}"
  by (cases e) (simp_all add: write_error_to_io_def)

text \<open>Converting a connecting, connection or write error to an I/O error is lossless, and the kind tells
  the cases apart the caller acts on: a refused handshake is the only one reported as permission
  denied, a timeout the only one reported as timed out.\<close>

lemma error_conversions_lossless:
  "(connecting_error_to_io e = connecting_error_to_io f \<longleftrightarrow> e = f) \<and>
   (write_error_to_io v = write_error_to_io w \<longleftrightarrow> v = w) \<and>
   (io_kind (connecting_error_to_io e) = KindPermissionDenied \<longleftrightarrow> (\<exists>m. e = HandshakeFailure m)) \<and>
   (io_kind (connecting_error_to_io e) = KindTimedOut \<longleftrightarrow> e = ConnectingConnectionError ConnTimedOut)"
proof -
  have "connection_error_kind c \<noteq> KindPermissionDenied" "connection_error_kind c = KindTimedOut \<longleftrightarrow> c = ConnTimedOut" for c
    by (cases c; simp)+
  then show ?thesis
    unfolding connecting_error_to_io_inj write_error_to_io_inj
    by (cases e) (simp_all add: connection_error_to_io_def io_other_def)
qed

end
