(* ===== verification/Stream.thy ===== *)
theory Stream
  imports Errors
begin

text \<open>
  \<^verbatim>\<open>src/stream.rs\<close> and the stream wrapper of \<^verbatim>\<open>src/pool.rs\<close>: \<open>IrohContext\<close>, \<open>IrohStream\<close> and
  \<open>PooledStream\<close> with their \<open>AsyncRead\<close> and \<open>AsyncWrite\<close> methods. The QUIC streams of iroh are
  third-party code: their poll functions are the parameter \<open>quic\<close>.
\<close>

section \<open>Definitions\<close>

record ('s, 'r) quic =
  q_poll_write :: "'s \<Rightarrow> bytes \<Rightarrow> (write_error + nat) poll \<times> 's"
  q_poll_flush :: "'s \<Rightarrow> (io_error + unit) poll \<times> 's"
  q_poll_shutdown :: "'s \<Rightarrow> (io_error + unit) poll \<times> 's"
  q_poll_read :: "'r \<Rightarrow> nat \<Rightarrow> (io_error + bytes) poll \<times> 'r"

record iroh_context =
  ctx_node_id :: endpoint_id
  ctx_connection :: nat
  ctx_established_at :: nat
  ctx_alpn :: bytes

record ('s, 'r) iroh_stream =
  is_send :: 's
  is_recv :: 'r
  is_context :: iroh_context

definition iroh_stream_new :: "'s \<Rightarrow> 'r \<Rightarrow> iroh_context \<Rightarrow> ('s, 'r) iroh_stream" where
  "iroh_stream_new send recv context = \<lparr>is_send = send, is_recv = recv, is_context = context\<rparr>"

fun map_write :: "(write_error + nat) poll \<Rightarrow> (io_error + nat) poll" where
  "map_write (Ready (Inr n)) = Ready (Inr n)"
| "map_write (Ready (Inl e)) = Ready (Inl (write_error_to_io e))"
| "map_write Pending = Pending"

definition iroh_poll_read :: "('s, 'r) quic \<Rightarrow> ('s, 'r) iroh_stream \<Rightarrow> nat
    \<Rightarrow> (io_error + bytes) poll \<times> ('s, 'r) iroh_stream" where
  "iroh_poll_read q st buf =
     (case q_poll_read q (is_recv st) buf of (res, r) \<Rightarrow> (res, st\<lparr>is_recv := r\<rparr>))"

definition iroh_poll_write :: "('s, 'r) quic \<Rightarrow> ('s, 'r) iroh_stream \<Rightarrow> bytes
    \<Rightarrow> (io_error + nat) poll \<times> ('s, 'r) iroh_stream" where
  "iroh_poll_write q st buf =
     (case q_poll_write q (is_send st) buf of (res, s) \<Rightarrow> (map_write res, st\<lparr>is_send := s\<rparr>))"

definition iroh_poll_flush :: "('s, 'r) quic \<Rightarrow> ('s, 'r) iroh_stream
    \<Rightarrow> (io_error + unit) poll \<times> ('s, 'r) iroh_stream" where
  "iroh_poll_flush q st =
     (case q_poll_flush q (is_send st) of (res, s) \<Rightarrow> (res, st\<lparr>is_send := s\<rparr>))"

definition iroh_poll_shutdown :: "('s, 'r) quic \<Rightarrow> ('s, 'r) iroh_stream
    \<Rightarrow> (io_error + unit) poll \<times> ('s, 'r) iroh_stream" where
  "iroh_poll_shutdown q st =
     (case q_poll_shutdown q (is_send st) of (res, s) \<Rightarrow> (res, st\<lparr>is_send := s\<rparr>))"

definition connect_info :: "('s, 'r) iroh_stream \<Rightarrow> iroh_context" where
  "connect_info st = is_context st"

text \<open>\<open>ps_ref\<close> is the leased connection: the peer and the generation of the \<open>ConnectionRef\<close>.\<close>

record ('s, 'r) pooled_stream =
  ps_send :: 's
  ps_recv :: 'r
  ps_ref :: "endpoint_id \<times> u64"

definition pooled_poll_read :: "('s, 'r) quic \<Rightarrow> ('s, 'r) pooled_stream \<Rightarrow> nat
    \<Rightarrow> (io_error + bytes) poll \<times> ('s, 'r) pooled_stream" where
  "pooled_poll_read q st buf =
     (case q_poll_read q (ps_recv st) buf of (res, r) \<Rightarrow> (res, st\<lparr>ps_recv := r\<rparr>))"

definition pooled_poll_write :: "('s, 'r) quic \<Rightarrow> ('s, 'r) pooled_stream \<Rightarrow> bytes
    \<Rightarrow> (io_error + nat) poll \<times> ('s, 'r) pooled_stream" where
  "pooled_poll_write q st buf =
     (case q_poll_write q (ps_send st) buf of (res, s) \<Rightarrow> (map_write res, st\<lparr>ps_send := s\<rparr>))"

definition pooled_poll_flush :: "('s, 'r) quic \<Rightarrow> ('s, 'r) pooled_stream
    \<Rightarrow> (io_error + unit) poll \<times> ('s, 'r) pooled_stream" where
  "pooled_poll_flush q st =
     (case q_poll_flush q (ps_send st) of (res, s) \<Rightarrow> (res, st\<lparr>ps_send := s\<rparr>))"

definition pooled_poll_shutdown :: "('s, 'r) quic \<Rightarrow> ('s, 'r) pooled_stream
    \<Rightarrow> (io_error + unit) poll \<times> ('s, 'r) pooled_stream" where
  "pooled_poll_shutdown q st =
     (case q_poll_shutdown q (ps_send st) of (res, s) \<Rightarrow> (res, st\<lparr>ps_send := s\<rparr>))"

section \<open>What a stream wrapper promises\<close>

text \<open>
  Both wrappers offer \<open>AsyncWrite\<close> over a QUIC send stream. Seen from a client that writes a list of
  buffers, a wrapper is the raw stream with the error converted and nothing else: the same prefix
  of writes is accepted, and the raw stream is left in the same state.
\<close>

fun raw_writes :: "('s \<Rightarrow> bytes \<Rightarrow> (write_error + nat) poll \<times> 's) \<Rightarrow> 's \<Rightarrow> bytes list
    \<Rightarrow> (write_error + nat) poll list \<times> 's" where
  "raw_writes w s [] = ([], s)"
| "raw_writes w s (b # bs) =
     (case w s b of (res, s') \<Rightarrow> (case raw_writes w s' bs of (rs, s'') \<Rightarrow> (res # rs, s'')))"

fun wrapped_writes :: "('t \<Rightarrow> bytes \<Rightarrow> (io_error + nat) poll \<times> 't) \<Rightarrow> 't \<Rightarrow> bytes list
    \<Rightarrow> (io_error + nat) poll list \<times> 't" where
  "wrapped_writes w s [] = ([], s)"
| "wrapped_writes w s (b # bs) =
     (case w s b of (res, s') \<Rightarrow> (case wrapped_writes w s' bs of (rs, s'') \<Rightarrow> (res # rs, s'')))"

locale write_wrapper =
  fixes poll_write :: "'t \<Rightarrow> bytes \<Rightarrow> (io_error + nat) poll \<times> 't"
    and raw :: "'s \<Rightarrow> bytes \<Rightarrow> (write_error + nat) poll \<times> 's"
    and send_of :: "'t \<Rightarrow> 's"
  assumes write_result: "fst (poll_write st buf) = map_write (fst (raw (send_of st) buf))"
    and write_state: "send_of (snd (poll_write st buf)) = snd (raw (send_of st) buf)"
begin

lemma writes_transparent:
  "fst (wrapped_writes poll_write st bufs) = map map_write (fst (raw_writes raw (send_of st) bufs)) \<and>
   send_of (snd (wrapped_writes poll_write st bufs)) = snd (raw_writes raw (send_of st) bufs)"
proof (induction bufs arbitrary: st)
  case (Cons b bs)
  from Cons.IH [of "snd (poll_write st b)"] write_result [of st b] write_state [of st b] show ?case
    by (simp add: split_beta)
qed simp

end

interpretation iroh_writer: write_wrapper "iroh_poll_write q" "q_poll_write q" is_send for q
  by unfold_locales (simp_all add: iroh_poll_write_def split_beta)

interpretation pooled_writer: write_wrapper "pooled_poll_write q" "q_poll_write q" ps_send for q
  by unfold_locales (simp_all add: pooled_poll_write_def split_beta)

section \<open>Properties\<close>

text \<open>Both stream wrappers are transparent: any sequence of writes through \<open>IrohStream\<close> or
  \<open>PooledStream\<close> gives the results of the raw QUIC stream with the error converted, leaves the raw
  stream in the same state, and the two wrappers agree.\<close>

lemma stream_writes_transparent:
  assumes "is_send st = ps_send pst"
  shows "fst (wrapped_writes (iroh_poll_write q) st bufs) = map map_write (fst (raw_writes (q_poll_write q) (is_send st) bufs)) \<and>
         fst (wrapped_writes (pooled_poll_write q) pst bufs) = fst (wrapped_writes (iroh_poll_write q) st bufs) \<and>
         is_send (snd (wrapped_writes (iroh_poll_write q) st bufs)) = ps_send (snd (wrapped_writes (pooled_poll_write q) pst bufs))"
  using assms iroh_writer.writes_transparent [of q st bufs] pooled_writer.writes_transparent [of q pst bufs]
  by simp

end
