(* ===== verification/Pool_Handle.thy ===== *)
theory Pool_Handle
  imports Pool_Connection Stream Alpn
begin

text \<open>
  \<^verbatim>\<open>src/pool.rs\<close>, the public side: the shared state behind every \<open>ConnectionPool\<close> handle (\<open>Shutdown\<close>,
  \<open>Shared\<close>), the lazy start of the pool actor, cloning and dropping of handles, and the retry loops
  \<open>get_or_connect\<close>, \<open>open_stream\<close> and \<open>channel\<close>.

  \<open>Shared::tx\<close> and \<open>Drop for ConnectionPool\<close> run on any number of threads at once, so they are step
  relations: one rule per atomic access of the source to the flag, the cell, the mutex or the
  reference count.
\<close>

section \<open>Definitions: the shared state\<close>

text \<open>Where a thread is inside \<open>Shared::tx\<close>, by the next access it makes.\<close>

datatype tx_pc =
    TxStart
  | TxGetRuntime
  | TxLock
  | TxLockedClosed
  | TxLockedGetRuntime
  | TxSpawn
  | TxSet nat
  | TxDone "pool_error + nat"
  | TxPanicked

text \<open>\<open>sh_runtime\<close> is the \<open>OnceLock\<close> with the number of the pool actor whose sender it holds, and
  \<open>sh_spawned\<close> counts the pool actors spawned.\<close>

record shared =
  sh_closed :: bool
  sh_runtime :: "nat option"
  sh_lock :: "nat option"
  sh_spawned :: nat
  sh_pc :: "nat \<Rightarrow> tx_pc"

definition shared_new :: shared where
  "shared_new = \<lparr>sh_closed = False, sh_runtime = None, sh_lock = None, sh_spawned = 0, sh_pc = (\<lambda>_. TxStart)\<rparr>"

definition goto :: "shared \<Rightarrow> nat \<Rightarrow> tx_pc \<Rightarrow> shared" where
  "goto s t pc = s\<lparr>sh_pc := (sh_pc s)(t := pc)\<rparr>"

text \<open>\<open>Shutdown::close\<close>: the flag is swapped in; waiters are notified the first time only.\<close>

definition shutdown_close :: "shared \<Rightarrow> shared \<times> bool" where
  "shutdown_close s = (s\<lparr>sh_closed := True\<rparr>, \<not> sh_closed s)"

inductive tx_step :: "shared \<Rightarrow> shared \<Rightarrow> bool" where
  is_closed_yes: "sh_pc s t = TxStart \<Longrightarrow> sh_closed s \<Longrightarrow> tx_step s (goto s t (TxDone (Inl Shutdown)))"
| is_closed_no: "sh_pc s t = TxStart \<Longrightarrow> \<not> sh_closed s \<Longrightarrow> tx_step s (goto s t TxGetRuntime)"
| runtime_set: "sh_pc s t = TxGetRuntime \<Longrightarrow> sh_runtime s = Some r \<Longrightarrow> tx_step s (goto s t (TxDone (Inr r)))"
| runtime_unset: "sh_pc s t = TxGetRuntime \<Longrightarrow> sh_runtime s = None \<Longrightarrow> tx_step s (goto s t TxLock)"
| lock: "sh_pc s t = TxLock \<Longrightarrow> sh_lock s = None \<Longrightarrow>
     tx_step s ((goto s t TxLockedClosed)\<lparr>sh_lock := Some t\<rparr>)"
| locked_closed_yes: "sh_pc s t = TxLockedClosed \<Longrightarrow> sh_closed s \<Longrightarrow>
     tx_step s ((goto s t (TxDone (Inl Shutdown)))\<lparr>sh_lock := None\<rparr>)"
| locked_closed_no: "sh_pc s t = TxLockedClosed \<Longrightarrow> \<not> sh_closed s \<Longrightarrow> tx_step s (goto s t TxLockedGetRuntime)"
| locked_runtime_set: "sh_pc s t = TxLockedGetRuntime \<Longrightarrow> sh_runtime s = Some r \<Longrightarrow>
     tx_step s ((goto s t (TxDone (Inr r)))\<lparr>sh_lock := None\<rparr>)"
| locked_runtime_unset: "sh_pc s t = TxLockedGetRuntime \<Longrightarrow> sh_runtime s = None \<Longrightarrow> tx_step s (goto s t TxSpawn)"
| spawn: "sh_pc s t = TxSpawn \<Longrightarrow>
     tx_step s ((goto s t (TxSet (sh_spawned s)))\<lparr>sh_spawned := Suc (sh_spawned s)\<rparr>)"
| set_ok: "sh_pc s t = TxSet k \<Longrightarrow> sh_runtime s = None \<Longrightarrow>
     tx_step s ((goto s t (TxDone (Inr k)))\<lparr>sh_runtime := Some k, sh_lock := None\<rparr>)"
| set_panics: "sh_pc s t = TxSet k \<Longrightarrow> sh_runtime s = Some r \<Longrightarrow> tx_step s (goto s t TxPanicked)"
| close: "tx_step s (fst (shutdown_close s))"
| call_again: "sh_pc s t = TxDone r \<Longrightarrow> tx_step s (goto s t TxStart)"

inductive tx_reachable :: "shared \<Rightarrow> bool" where
  start: "tx_reachable shared_new"
| step: "tx_reachable s \<Longrightarrow> tx_step s s' \<Longrightarrow> tx_reachable s'"

section \<open>Definitions: handles\<close>

text \<open>\<open>Drop for ConnectionPool\<close> first reads the reference count and shuts the pool down when it is 1;
  the count goes down afterwards, when the field is dropped.\<close>

datatype handle_pc = Held | CountRead | Released

record handles =
  hd_closed :: bool
  hd_pc :: "handle_pc list"

definition strong_count :: "handles \<Rightarrow> nat" where
  "strong_count h = length (filter (\<lambda>p. p \<noteq> Released) (hd_pc h))"

definition pool_new :: handles where
  "pool_new = \<lparr>hd_closed = False, hd_pc = [Held]\<rparr>"

definition clone_handle :: "handles \<Rightarrow> handles" where
  "clone_handle h = h\<lparr>hd_pc := hd_pc h @ [Held]\<rparr>"

definition drop_read_count :: "handles \<Rightarrow> nat \<Rightarrow> handles" where
  "drop_read_count h k =
     h\<lparr>hd_closed := (hd_closed h \<or> strong_count h = 1), hd_pc := (hd_pc h)[k := CountRead]\<rparr>"

definition drop_release :: "handles \<Rightarrow> nat \<Rightarrow> handles" where
  "drop_release h k = h\<lparr>hd_pc := (hd_pc h)[k := Released]\<rparr>"

definition drop_handle :: "handles \<Rightarrow> nat \<Rightarrow> handles" where
  "drop_handle h k = drop_release (drop_read_count h k) k"

inductive handle_step :: "handles \<Rightarrow> handles \<Rightarrow> bool" where
  clone: "k < length (hd_pc h) \<Longrightarrow> hd_pc h ! k = Held \<Longrightarrow> handle_step h (clone_handle h)"
| read_count: "k < length (hd_pc h) \<Longrightarrow> hd_pc h ! k = Held \<Longrightarrow> handle_step h (drop_read_count h k)"
| release: "k < length (hd_pc h) \<Longrightarrow> hd_pc h ! k = CountRead \<Longrightarrow> handle_step h (drop_release h k)"

section \<open>Definitions: getting a connection and a stream\<close>

record conn_ref =
  cr_id :: endpoint_id
  cr_generation :: u64

text \<open>What one round trip to the pool actor gives: the mailbox is gone, the reply channel was dropped,
  or a reply.\<close>

datatype attempt = SendFailed | ReplyDropped | Replied "pool_error + conn_ref"

fun get_or_connect_loop :: "(nat \<Rightarrow> attempt) \<Rightarrow> nat list \<Rightarrow> pool_error + conn_ref" where
  "get_or_connect_loop env [] = Inl Closed"
| "get_or_connect_loop env (n # ns) =
     (case env n of
        SendFailed \<Rightarrow> Inl Shutdown
      | ReplyDropped \<Rightarrow> Inl Shutdown
      | Replied res \<Rightarrow>
          (if res = Inl Closed \<and> n + 1 < OPEN_STREAM_RETRIES then get_or_connect_loop env ns else res))"

definition get_or_connect :: "pool_error + nat \<Rightarrow> (nat \<Rightarrow> attempt) \<Rightarrow> pool_error + conn_ref" where
  "get_or_connect tx env =
     (case tx of Inl e \<Rightarrow> Inl e | Inr _ \<Rightarrow> get_or_connect_loop env [0 ..< OPEN_STREAM_RETRIES])"

definition invalidate :: "pool_error + nat \<Rightarrow> endpoint_id \<Rightarrow> u64 \<Rightarrow> msg list" where
  "invalidate tx i generation = (case tx of Inr _ \<Rightarrow> [Msg_Shutdown i generation] | Inl _ \<Rightarrow> [])"

text \<open>The surroundings of \<open>open_stream\<close> in each of its rounds: what \<open>get_or_connect\<close> returns, how
  \<open>open_bi\<close> ends, and whether the actor can still be reached to invalidate.\<close>

record open_env =
  oe_get :: "nat \<Rightarrow> pool_error + conn_ref"
  oe_open_bi :: "nat \<Rightarrow> connection_error option"
  oe_tx :: "nat \<Rightarrow> pool_error + nat"

definition aborted :: "io_source \<Rightarrow> io_error" where
  "aborted src = \<lparr>io_kind = KindConnectionAborted, io_source = src\<rparr>"

fun open_stream_loop :: "open_env \<Rightarrow> nat list \<Rightarrow> io_error option \<Rightarrow> (io_error + conn_ref) \<times> msg list" where
  "open_stream_loop env [] last_error =
     (Inl (case last_error of
             Some e \<Rightarrow> e
           | None \<Rightarrow> aborted (SrcMessage ''failed to open stream on pooled connection'')), [])"
| "open_stream_loop env (n # ns) last_error =
     (case oe_get env n of
        Inl e \<Rightarrow> (Inl (io_other (SrcPool e)), [])
      | Inr conn \<Rightarrow>
          (case oe_open_bi env n of
             None \<Rightarrow> (Inr conn, [])
           | Some err \<Rightarrow>
               (let sent = invalidate (oe_tx env n) (cr_id conn) (cr_generation conn);
                    last_error = Some (aborted (SrcConnection err))
                in if n + 1 = OPEN_STREAM_RETRIES
                   then (case open_stream_loop env [] last_error of (res, later) \<Rightarrow> (res, sent @ later))
                   else (case open_stream_loop env ns last_error of (res, later) \<Rightarrow> (res, sent @ later)))))"

definition open_stream :: "open_env \<Rightarrow> (io_error + conn_ref) \<times> msg list" where
  "open_stream env = open_stream_loop env [0 ..< OPEN_STREAM_RETRIES] None"

text \<open>\<open>ConnectionPool::channel\<close>: the I/O error is wrapped, then the HTTP/2 handshake runs on the stream.\<close>

definition pool_channel :: "open_env \<Rightarrow> (conn_ref \<Rightarrow> error + 'c) \<Rightarrow> error + 'c" where
  "pool_channel env handshake =
     (case fst (open_stream env) of Inl e \<Rightarrow> Inl (Io e) | Inr conn \<Rightarrow> handshake conn)"

definition pool_for_service :: "string \<Rightarrow> pool_options \<Rightarrow> bytes \<times> pool_options" where
  "pool_for_service service options = (service_to_alpn service, options)"

section \<open>Lazy start: the invariant\<close>

fun holds_lock :: "tx_pc \<Rightarrow> bool" where
  "holds_lock TxLockedClosed = True"
| "holds_lock TxLockedGetRuntime = True"
| "holds_lock TxSpawn = True"
| "holds_lock (TxSet k) = True"
| "holds_lock _ = False"

definition tx_inv :: "shared \<Rightarrow> bool" where
  "tx_inv s \<longleftrightarrow>
     (\<forall>t. holds_lock (sh_pc s t) \<longrightarrow> sh_lock s = Some t) \<and>
     (\<forall>t. sh_pc s t = TxSpawn \<longrightarrow> sh_runtime s = None \<and> sh_spawned s = 0) \<and>
     (\<forall>t k. sh_pc s t = TxSet k \<longrightarrow> sh_runtime s = None \<and> k = 0 \<and> sh_spawned s = 1) \<and>
     (sh_runtime s = None \<longrightarrow> (\<forall>t k. sh_pc s t \<noteq> TxSet k) \<longrightarrow> sh_spawned s = 0) \<and>
     (\<forall>r. sh_runtime s = Some r \<longrightarrow> r = 0 \<and> sh_spawned s = 1) \<and>
     (\<forall>t r. sh_pc s t = TxDone (Inr r) \<longrightarrow> sh_runtime s = Some r) \<and>
     (\<forall>t. sh_pc s t \<noteq> TxPanicked)"

lemma goto_simps [simp]:
  "sh_closed (goto s t pc) = sh_closed s" "sh_runtime (goto s t pc) = sh_runtime s"
  "sh_lock (goto s t pc) = sh_lock s" "sh_spawned (goto s t pc) = sh_spawned s"
  "sh_pc (goto s t pc) = (sh_pc s)(t := pc)"
  by (simp_all add: goto_def)

lemma tx_inv_new: "tx_inv shared_new"
  by (simp add: tx_inv_def shared_new_def)

text \<open>A thread that holds the lock is the only one in the critical section.\<close>

lemma tx_inv_sole:
  assumes "tx_inv s" and "holds_lock (sh_pc s t)" and "u \<noteq> t"
  shows "\<not> holds_lock (sh_pc s u) \<and> sh_pc s u \<noteq> TxSet k \<and> sh_pc s u \<noteq> TxSpawn"
proof -
  have "\<not> holds_lock (sh_pc s u)" using assms unfolding tx_inv_def by (metis option.inject)
  then show ?thesis by fastforce
qed

text \<open>A move that neither spawns nor sets the cell, and that takes, keeps or gives back the lock.\<close>

lemma tx_inv_move:
  assumes "tx_inv s" and old: "\<And>k. sh_pc s t \<noteq> TxSet k"
    and new: "\<And>k. pc \<noteq> TxSet k" "pc \<noteq> TxSpawn" "pc \<noteq> TxPanicked" "\<And>r. pc = TxDone (Inr r) \<Longrightarrow> sh_runtime s = Some r"
    and lock: "holds_lock pc \<Longrightarrow> l = Some t" "\<And>u. u \<noteq> t \<Longrightarrow> holds_lock (sh_pc s u) \<Longrightarrow> l = Some u"
  shows "tx_inv ((goto s t pc)\<lparr>sh_lock := l\<rparr>)"
proof -
  have "(\<forall>u k. ((sh_pc s)(t := pc)) u \<noteq> TxSet k) \<longleftrightarrow> (\<forall>u k. sh_pc s u \<noteq> TxSet k)"
    using old new(1) by (metis fun_upd_apply)
  with assms show ?thesis unfolding tx_inv_def by auto
qed

lemma tx_inv_goto:
  assumes "tx_inv s" and "\<And>k. sh_pc s t \<noteq> TxSet k"
    and "\<And>k. pc \<noteq> TxSet k" "pc \<noteq> TxSpawn" "pc \<noteq> TxPanicked" "\<And>r. pc = TxDone (Inr r) \<Longrightarrow> sh_runtime s = Some r"
    and "holds_lock pc \<Longrightarrow> holds_lock (sh_pc s t)"
  shows "tx_inv (goto s t pc)"
  using tx_inv_move [OF assms(1-6), of "sh_lock s"] assms(1,7)
  by (simp add: tx_inv_def)

lemma tx_step_inv:
  assumes "tx_step s s'" and "tx_inv s"
  shows "tx_inv s'"
  using assms
proof cases
  case (spawn t)
  with tx_inv_sole [OF assms(2), of t] assms(2) show ?thesis
    unfolding tx_inv_def by (auto split: if_splits)
next
  case (set_ok t k)
  with tx_inv_sole [OF assms(2), of t] assms(2) show ?thesis
    unfolding tx_inv_def by (auto split: if_splits)
next
  case (locked_runtime_unset t)
  have "sh_pc s u \<noteq> TxSet k" for u k
    using tx_inv_sole [OF assms(2), of t u k] locked_runtime_unset by (cases "u = t") auto
  with locked_runtime_unset assms(2) show ?thesis unfolding tx_inv_def by (auto split: if_splits)
next
  case (lock t)
  have "\<not> holds_lock (sh_pc s u)" for u using assms(2) lock by (auto simp: tx_inv_def)
  with lock assms(2) show ?thesis by (auto intro!: tx_inv_move)
next
  case (locked_closed_yes t)
  with tx_inv_sole [OF assms(2), of t] assms(2) show ?thesis by (auto intro!: tx_inv_move)
next
  case (locked_runtime_set t r)
  with tx_inv_sole [OF assms(2), of t] assms(2) show ?thesis by (auto intro!: tx_inv_move)
next
  case (set_panics t k r)
  then show ?thesis using assms(2) unfolding tx_inv_def by fastforce
next
  case close
  then show ?thesis using assms(2) by (simp add: tx_inv_def shutdown_close_def)
qed (use assms(2) in \<open>auto intro!: tx_inv_goto\<close>)

lemma tx_reachable_inv: "tx_reachable s \<Longrightarrow> tx_inv s"
  by (induction rule: tx_reachable.induct) (auto intro: tx_inv_new tx_step_inv)

lemma tx_inv_spawned: "tx_inv s \<Longrightarrow> sh_spawned s \<le> 1"
  unfolding tx_inv_def by (cases "sh_runtime s") fastforce+

section \<open>Handles: counting\<close>

lemma count_update:
  "k < length xs \<Longrightarrow> xs ! k \<noteq> Released \<Longrightarrow>
   Suc (length (filter (\<lambda>p. p \<noteq> Released) (xs[k := Released]))) = length (filter (\<lambda>p. p \<noteq> Released) xs)"
proof (induction xs arbitrary: k)
  case (Cons x xs)
  then show ?case by (cases k) auto
qed simp

lemma drop_handle_count:
  assumes "k < length (hd_pc h)" and "hd_pc h ! k = Held"
  shows "Suc (strong_count (drop_handle h k)) = strong_count h"
    and "hd_closed (drop_handle h k) \<longleftrightarrow> hd_closed h \<or> strong_count (drop_handle h k) = 0"
  using count_update [of k "hd_pc h", symmetric] assms
  by (auto simp: drop_handle_def drop_release_def drop_read_count_def strong_count_def)

text \<open>Whatever the interleaving, the pool is never shut down under a handle that is still held.\<close>

inductive handles_reachable :: "handles \<Rightarrow> bool" where
  start: "handles_reachable pool_new"
| step: "handles_reachable h \<Longrightarrow> handle_step h h' \<Longrightarrow> handles_reachable h'"

definition handles_inv :: "handles \<Rightarrow> bool" where
  "handles_inv h \<longleftrightarrow> (hd_closed h \<longrightarrow> Held \<notin> set (hd_pc h))"

lemma sole_handle:
  assumes "strong_count h = 1" and "k < length (hd_pc h)" and "hd_pc h ! k \<noteq> Released"
  shows "set ((hd_pc h)[k := CountRead]) \<subseteq> {CountRead, Released}"
proof -
  have "length (filter (\<lambda>p. p \<noteq> Released) ((hd_pc h)[k := Released])) = 0"
    using count_update [OF assms(2,3)] assms(1) by (simp add: strong_count_def)
  then have "\<forall>p \<in> set ((hd_pc h)[k := Released]). p = Released"
    by (simp add: filter_empty_conv)
  moreover have "set (xs[k := CountRead]) \<subseteq> insert CountRead (set (xs[k := Released]))" for xs :: "handle_pc list"
    by (metis list_update_overwrite set_update_subset_insert)
  ultimately show ?thesis by blast
qed

lemma handle_step_inv: "handle_step h h' \<Longrightarrow> handles_inv h \<Longrightarrow> handles_inv h'"
proof (induction rule: handle_step.induct)
  case (read_count k h)
  then show ?case
    using sole_handle [of h k] set_update_subset_insert [of "hd_pc h" k CountRead]
    by (auto simp: handles_inv_def drop_read_count_def)
next
  case (release k h)
  then show ?case
    using set_update_subset_insert [of "hd_pc h" k Released]
    by (auto simp: handles_inv_def drop_release_def)
qed (auto simp: handles_inv_def clone_handle_def dest: nth_mem)

lemma handles_reachable_inv: "handles_reachable h \<Longrightarrow> handles_inv h"
proof (induction rule: handles_reachable.induct)
  case start
  show ?case by (simp add: handles_inv_def pool_new_def)
qed (rule handle_step_inv)

text \<open>Handles that are cloned and dropped one after the other, each drop finishing before the next
  operation starts.\<close>

datatype handle_op = CloneOf nat | DropOf nat

fun handle_op_run :: "handles \<Rightarrow> handle_op \<Rightarrow> handles" where
  "handle_op_run h (CloneOf k) = (if k < length (hd_pc h) \<and> hd_pc h ! k = Held then clone_handle h else h)"
| "handle_op_run h (DropOf k) = (if k < length (hd_pc h) \<and> hd_pc h ! k = Held then drop_handle h k else h)"

definition sequential_inv :: "handles \<Rightarrow> bool" where
  "sequential_inv h \<longleftrightarrow> (hd_closed h \<longleftrightarrow> strong_count h = 0)"

lemma held_counted: "k < length (hd_pc h) \<Longrightarrow> hd_pc h ! k = Held \<Longrightarrow> 0 < strong_count h"
  using count_update [of k "hd_pc h"] by (auto simp: strong_count_def)

interpretation sequential_handles: machine handle_op_run sequential_inv
proof
  fix h e
  assume "sequential_inv h"
  then show "sequential_inv (handle_op_run h e)"
  proof (cases e)
    case (CloneOf k)
    with \<open>sequential_inv h\<close> show ?thesis
      using held_counted [of k h] by (auto simp: sequential_inv_def clone_handle_def strong_count_def)
  next
    case (DropOf k)
    with \<open>sequential_inv h\<close> show ?thesis
      using held_counted [of k h] drop_handle_count(2) [of k h] by (auto simp: sequential_inv_def)
  qed
qed

section \<open>The retry loops, written out\<close>

text \<open>A round of \<open>open_stream\<close> that got a connection on which no stream could be opened.\<close>

definition failed_round :: "open_env \<Rightarrow> nat \<Rightarrow> bool" where
  "failed_round env n \<longleftrightarrow> (\<exists>c. oe_get env n = Inr c) \<and> oe_open_bi env n \<noteq> None"

text \<open>The message that has to leave the pool after such a round, when its actor can be reached.\<close>

definition round_invalidates :: "open_env \<Rightarrow> nat \<Rightarrow> msg list" where
  "round_invalidates env n =
     (case (oe_get env n, oe_tx env n) of
        (Inr c, Inr _) \<Rightarrow> [Msg_Shutdown (cr_id c) (cr_generation c)]
      | _ \<Rightarrow> [])"

lemma retries_upt: "[0 ..< OPEN_STREAM_RETRIES] = [0, 1]"
  by (simp add: OPEN_STREAM_RETRIES_def upt_rec)

section \<open>Properties\<close>

text \<open>(C17) However many threads call \<open>Shared::tx\<close> at once, and whenever the pool is shut down, at most one
  pool actor is ever spawned, the \<open>expect\<close> on the cell never panics, and all callers that succeed get
  the sender of the same actor.\<close>

theorem pool_actor_spawned_once:
  assumes "tx_reachable s"
  shows "sh_spawned s \<le> 1 \<and> (\<forall>t. sh_pc s t \<noteq> TxPanicked) \<and>
     (\<forall>t u r r'. sh_pc s t = TxDone (Inr r) \<longrightarrow> sh_pc s u = TxDone (Inr r') \<longrightarrow> r = r')"
proof -
  have inv: "tx_inv s" using assms by (rule tx_reachable_inv)
  moreover from inv have "\<forall>t r. sh_pc s t = TxDone (Inr r) \<longrightarrow> sh_runtime s = Some r"
      and "\<forall>t. sh_pc s t \<noteq> TxPanicked"
    by (simp_all add: tx_inv_def)
  ultimately show ?thesis by (metis option.inject tx_inv_spawned)
qed

text \<open>In every interleaving of clones and drops, the pool is never shut down while some handle is
  still held.\<close>

lemma never_closed_under_live_handle:
  assumes "handles_reachable h" and "hd_closed h"
  shows "Held \<notin> set (hd_pc h)"
  using handles_reachable_inv [OF assms(1)] assms(2) by (simp add: handles_inv_def)

text \<open>When drops do not overlap, the pool is shut down exactly when the last handle is gone.\<close>

lemma sequential_drops_close:
  "hd_closed (foldl handle_op_run pool_new ops) \<longleftrightarrow> strong_count (foldl handle_op_run pool_new ops) = 0"
proof -
  have "sequential_inv pool_new" by (simp add: sequential_inv_def pool_new_def strong_count_def)
  from sequential_handles.run_inv [OF this] show ?thesis by (simp add: sequential_inv_def)
qed

text \<open>When the last two handles are dropped at the same time both may read a count of two: every
  handle is then gone and the pool was never shut down.\<close>

lemma concurrent_drops_never_close:
  "\<exists>h. handles_reachable h \<and> strong_count h = 0 \<and> \<not> hd_closed h"
proof -
  let ?h = "\<lambda>a b. \<lparr>hd_closed = False, hd_pc = [a, b]\<rparr>"
  have "handles_reachable (?h Held Held)"
    using handles_reachable.step [OF handles_reachable.start handle_step.clone [of 0 pool_new]]
    by (simp add: pool_new_def clone_handle_def)
  then have "handles_reachable (?h CountRead Held)"
    using handle_step.read_count [of 0 "?h Held Held"]
    by (auto simp: drop_read_count_def strong_count_def intro: handles_reachable.step)
  then have "handles_reachable (?h CountRead CountRead)"
    using handle_step.read_count [of 1 "?h CountRead Held"]
    by (auto simp: drop_read_count_def strong_count_def intro: handles_reachable.step)
  then have "handles_reachable (?h Released CountRead)"
    using handle_step.release [of 0 "?h CountRead CountRead"]
    by (auto simp: drop_release_def intro: handles_reachable.step)
  then have "handles_reachable (?h Released Released)"
    using handle_step.release [of 1 "?h Released CountRead"]
    by (auto simp: drop_release_def intro: handles_reachable.step)
  then show ?thesis by (intro exI [of _ "?h Released Released"]) (simp add: strong_count_def)
qed

text \<open>\<open>get_or_connect\<close> retries once, and only a reply of \<open>Closed\<close>: any other reply is returned as it
  is, a lost actor or a dropped reply is \<open>Shutdown\<close>.\<close>

lemma get_or_connect_retries_closed_once:
  "get_or_connect tx env =
     (case tx of
        Inl e \<Rightarrow> Inl e
      | Inr _ \<Rightarrow>
          (let reply = (\<lambda>n. case env n of Replied r \<Rightarrow> r | _ \<Rightarrow> Inl Shutdown)
           in if reply 0 = Inl Closed then reply 1 else reply 0))"
  unfolding get_or_connect_def retries_upt
  by (auto simp: Let_def OPEN_STREAM_RETRIES_def split: sum.split attempt.split)

text \<open>(C26) There are at most two rounds. A round goes on to the next only when it got a connection and could
  not open a stream on it; a failure of the pool ends the call at once, with that failure. \<open>k\<close> rounds failed
  to open a stream: after two the error of the second is returned as an aborted connection, otherwise round
  \<open>k\<close> decides. Each of the \<open>k\<close> rounds tells the pool, if it can be reached, to drop exactly the connection the
  round had, by peer and generation, and nothing else is sent.\<close>

theorem open_stream_spec:
  "let k = length (takeWhile (failed_round env) [0, 1]) in
     fst (open_stream env) =
       (if k = 2 then Inl (aborted (SrcConnection (the (oe_open_bi env 1))))
        else map_sum (\<lambda>e. io_other (SrcPool e)) id (oe_get env k)) \<and>
     snd (open_stream env) = concat (map (round_invalidates env) [0 ..< k])"
  unfolding open_stream_def retries_upt
  by (auto simp: OPEN_STREAM_RETRIES_def failed_round_def invalidate_def
      round_invalidates_def Let_def upt_rec split: sum.split option.split)

text \<open>After the invalidation of a live connection the next request for that peer always starts a
  fresh connection of another generation, never the refusal for too many connections.\<close>

lemma reconnect_after_invalidate:
  assumes "pool_inv s" and "matches_generation s i g" and "req_id req = i" and "pa_channels s < 2 ^ 64"
  shows "pa_next_generation s \<noteq> g \<and>
     snd (handle env (fst (handle env' s (Msg_Shutdown i g))) (Msg_Request req)) =
       [SpawnConnection i (pa_next_generation s) (pa_channels s),
        if env_send_fails env (pa_channels s) req then DropRequest req else Forward (pa_channels s) req]"
proof
  obtain slot where slot: "fmlookup (pa_connections s) i = Some slot" "slot_generation slot = g"
    using assms(2) by (auto simp: matches_generation_iff)
  then have lt: "slot_tx slot < pa_channels s" and g: "g = generation_of (slot_tx slot)"
      and nxt: "pa_next_generation s = generation_of (pa_channels s)"
    using assms(1) by (auto simp: pool_inv_def slots_ok_def)
  have "(generation_of (pa_channels s) = generation_of (slot_tx slot)) =
      (Suc (pa_channels s) mod 2 ^ 64 = Suc (slot_tx slot) mod 2 ^ 64)"
    by (simp add: generation_of_def word_of_nat_eq_iff take_bit_eq_mod del: of_nat_Suc)
  moreover have "Suc (pa_channels s) mod 2 ^ 64 \<noteq> Suc (slot_tx slot) mod 2 ^ 64"
    using lt assms(4) by (cases "Suc (pa_channels s) = 2 ^ 64") auto
  ultimately show "pa_next_generation s \<noteq> g" unfolding g nxt by simp
  let ?s = "fst (handle env' s (Msg_Shutdown i g))"
  have inv: "pool_inv ?s" using assms(1) by (rule handle_inv)
  have "i |\<in>| fmdom (pa_connections s)" using slot(1) by (rule fmdomI)
  from fcard_Suc_fminus1 [OF this] assms(1)
  have "fcard (fmdom (pa_connections s) |-| {|i|}) < max_connections (pa_options s)"
    by (simp add: pool_inv_def pool_len_def)
  then show "snd (handle env ?s (Msg_Request req)) =
       [SpawnConnection i (pa_next_generation s) (pa_channels s),
        if env_send_fails env (pa_channels s) req then DropRequest req else Forward (pa_channels s) req]"
    using assms(2,3) handle_request_effects [OF inv, of env req]
    by (simp add: request_effects_def new_connection_effects_def others_def
        remove_connection_if_match_def)
qed

section \<open>Witnesses\<close>

text \<open>One thread starts the actor.\<close>

definition ph_shared :: shared where
  "ph_shared = \<lparr>sh_closed = False, sh_runtime = Some 0, sh_lock = None, sh_spawned = 1,
     sh_pc = (\<lambda>_. TxStart)(0 := TxDone (Inr 0))\<rparr>"

lemma ph_shared_reachable: "tx_reachable ph_shared"
proof -
  let ?at = "\<lambda>pc l n. \<lparr>sh_closed = False, sh_runtime = None, sh_lock = l, sh_spawned = n,
    sh_pc = (\<lambda>_. TxStart)(0 := pc)\<rparr>"
  note st = tx_reachable.step
  have "tx_reachable (?at TxGetRuntime None 0)"
    using st [OF tx_reachable.start is_closed_no [of _ 0]] by (simp add: shared_new_def goto_def)
  then have "tx_reachable (?at TxLock None 0)"
    using runtime_unset [of "?at TxGetRuntime None 0" 0] by (auto simp: goto_def intro: st)
  then have "tx_reachable (?at TxLockedClosed (Some 0) 0)"
    using lock [of "?at TxLock None 0" 0] by (auto simp: goto_def intro: st)
  then have "tx_reachable (?at TxLockedGetRuntime (Some 0) 0)"
    using locked_closed_no [of "?at TxLockedClosed (Some 0) 0" 0] by (auto simp: goto_def intro: st)
  then have "tx_reachable (?at TxSpawn (Some 0) 0)"
    using locked_runtime_unset [of "?at TxLockedGetRuntime (Some 0) 0" 0] by (auto simp: goto_def intro: st)
  then have "tx_reachable (?at (TxSet 0) (Some 0) 1)"
    using spawn [of "?at TxSpawn (Some 0) 0" 0] by (auto simp: goto_def intro: st)
  then show ?thesis
    using set_ok [of "?at (TxSet 0) (Some 0) 1" 0 0] by (auto simp: goto_def ph_shared_def intro: st)
qed

theorem pool_actor_spawned_once_witness:
  "sh_spawned ph_shared \<le> 1 \<and> sh_pc ph_shared 0 = TxDone (Inr 0) \<and> sh_pc ph_shared 1 \<noteq> TxPanicked"
  using pool_actor_spawned_once [OF ph_shared_reachable] by (simp add: ph_shared_def)

end
