(* ===== verification/Pool_System.thy ===== *)
theory Pool_System
  imports Pool_Handle "HOL-Library.Multiset"
begin

text \<open>
  The pool of \<^verbatim>\<open>src/pool.rs\<close> as a whole: its actor, the connection actors it starts, the mailboxes between
  them and the callers. A step is one message handled by the pool actor, one round of a connection
  actor's \<open>select!\<close>, or one action of a caller; the steps are the ones of \<open>Pool_Actor\<close> and
  \<open>Pool_Connection\<close>, and here the mailboxes carry what one of them sends to the other. The mailboxes are
  first-in first-out queues (tokio's \<open>mpsc\<close>).
\<close>

section \<open>Definitions\<close>

text \<open>\<open>ps_replies\<close> lists the requests that were answered, with \<open>None\<close> for a reply channel that was dropped
  unanswered; \<open>ps_issued\<close> counts the requests made, which are numbered by \<open>req_tx\<close>.\<close>

type_synonym reply = "(pool_error + endpoint_id \<times> u64) option"

record pool_system =
  ps_status :: run_status
  ps_pool :: pool_actor
  ps_queue :: "msg list"
  ps_mail :: "mailbox \<Rightarrow> request_msg list"
  ps_spawned :: "mailbox \<Rightarrow> (endpoint_id \<times> u64) option"
  ps_actors :: "mailbox \<Rightarrow> conn_actor option"
  ps_closed :: bool
  ps_replies :: "(request_msg \<times> reply) list"
  ps_issued :: nat

definition pool_system_new :: "pool_options \<Rightarrow> pool_system" where
  "pool_system_new options =
     \<lparr>ps_status = Running, ps_pool = pool_actor_new options, ps_queue = [], ps_mail = (\<lambda>_. []),
      ps_spawned = (\<lambda>_. None), ps_actors = (\<lambda>_. None), ps_closed = False, ps_replies = [], ps_issued = 0\<rparr>"

text \<open>The receiver of a mailbox lives as long as its connection actor.\<close>

definition actor_finished :: "pool_system \<Rightarrow> mailbox \<Rightarrow> bool" where
  "actor_finished st c \<longleftrightarrow> (case ps_actors st c of Some a \<Rightarrow> \<not> ca_running a | None \<Rightarrow> False)"

definition system_env :: "pool_system \<Rightarrow> bool \<Rightarrow> channel_env" where
  "system_env st send_fails =
     \<lparr>env_try_send = (\<lambda>c req. if actor_finished st c then SendClosed
        else if length (ps_mail st c) \<ge> CONNECTION_CHANNEL_CAPACITY then SendFull else SendOk),
      env_send_fails = (\<lambda>c req. send_fails)\<rparr>"

fun apply_effect :: "pool_system \<Rightarrow> effect \<Rightarrow> pool_system" where
  "apply_effect st (Forward c req) = st\<lparr>ps_mail := (ps_mail st)(c := ps_mail st c @ [req])\<rparr>"
| "apply_effect st (ReplyErr req e) = st\<lparr>ps_replies := ps_replies st @ [(req, Some (Inl e))]\<rparr>"
| "apply_effect st (DropRequest req) = st\<lparr>ps_replies := ps_replies st @ [(req, None)]\<rparr>"
| "apply_effect st (SpawnConnection i g c) = st\<lparr>ps_spawned := (ps_spawned st)(c \<mapsto> (i, g))\<rparr>"

text \<open>A message to a pool that has closed its receiver is lost; the code ignores the error.\<close>

fun apply_conn_effect :: "pool_system \<Rightarrow> conn_effect \<Rightarrow> pool_system" where
  "apply_conn_effect st (SendPool m) =
     (if ps_status st = Running then st\<lparr>ps_queue := ps_queue st @ [m]\<rparr> else st)"
| "apply_conn_effect st (ReplyRef req i g) = st\<lparr>ps_replies := ps_replies st @ [(req, Some (Inr (i, g)))]\<rparr>"
| "apply_conn_effect st (ReplyError req e) = st\<lparr>ps_replies := ps_replies st @ [(req, Some (Inl e))]\<rparr>"
| "apply_conn_effect st (CloseConnection why) = st"

definition pool_receives :: "bool \<Rightarrow> pool_system \<Rightarrow> msg \<Rightarrow> pool_system" where
  "pool_receives send_fails st m =
     (case handle (system_env st send_fails) (ps_pool st) m of
        (p, effs) \<Rightarrow> foldl apply_effect (st\<lparr>ps_pool := p\<rparr>) effs)"

definition conn_connects :: "pool_system \<Rightarrow> mailbox \<Rightarrow> endpoint_id \<Rightarrow> u64 \<Rightarrow> connect_outcome \<Rightarrow> pool_system" where
  "conn_connects st c i g outcome =
     (case conn_start i g (idle_timeout (pa_options (ps_pool st))) outcome (ps_closed st) of
        (a, effs) \<Rightarrow> foldl apply_conn_effect (st\<lparr>ps_actors := (ps_actors st)(c \<mapsto> a)\<rparr>) effs)"

text \<open>A connection actor that has returned drops its receiver, and with it the requests that wait there.\<close>

definition drop_mailbox :: "pool_system \<Rightarrow> mailbox \<Rightarrow> pool_system" where
  "drop_mailbox st c =
     st\<lparr>ps_replies := ps_replies st @ map (\<lambda>req. (req, None)) (ps_mail st c), ps_mail := (ps_mail st)(c := [])\<rparr>"

definition conn_selects :: "pool_system \<Rightarrow> mailbox \<Rightarrow> conn_actor \<Rightarrow> readiness \<Rightarrow> pool_system" where
  "conn_selects st c a r =
     (case conn_step a (Select r) of
        (a', effs) \<Rightarrow>
          (let mail = (if select_branch a r = Some BranchRecv then tl (ps_mail st c) else ps_mail st c);
               st = foldl apply_conn_effect
                      (st\<lparr>ps_actors := (ps_actors st)(c \<mapsto> a'), ps_mail := (ps_mail st)(c := mail)\<rparr>) effs
           in if ca_running a' then st else drop_mailbox st c))"

fun requests_of :: "msg list \<Rightarrow> request_msg list" where
  "requests_of [] = []"
| "requests_of (Msg_Request req # ms) = req # requests_of ms"
| "requests_of (m # ms) = requests_of ms"

text \<open>The queue of a stopped pool actor is dropped with its receiver, when \<open>run\<close> returns.\<close>

definition drop_queue :: "pool_system \<Rightarrow> pool_system" where
  "drop_queue st =
     st\<lparr>ps_replies := ps_replies st @ map (\<lambda>req. (req, None)) (requests_of (ps_queue st)), ps_queue := []\<rparr>"

inductive sys_step :: "pool_system \<Rightarrow> pool_system \<Rightarrow> bool" where
  request: "ps_status st = Running \<Longrightarrow> length (ps_queue st) < POOL_CHANNEL_CAPACITY \<Longrightarrow>
     sys_step st (st\<lparr>ps_queue := ps_queue st @ [Msg_Request \<lparr>req_id = i, req_tx = ps_issued st\<rparr>],
                     ps_issued := Suc (ps_issued st)\<rparr>)"
| invalidate: "ps_status st = Running \<Longrightarrow> length (ps_queue st) < POOL_CHANNEL_CAPACITY \<Longrightarrow>
     sys_step st (st\<lparr>ps_queue := ps_queue st @ [Msg_Shutdown i g]\<rparr>)"
| pool_message: "ps_status st = Running \<Longrightarrow> ps_queue st = m # ms \<Longrightarrow>
     sys_step st (pool_receives send_fails (st\<lparr>ps_queue := ms\<rparr>) m)"
| pool_joins: "actor_finished st c \<Longrightarrow>
     sys_step st (st\<lparr>ps_pool := snd (run_step (ps_status st, ps_pool st) (TaskJoined c))\<rparr>)"
| close: "sys_step st (st\<lparr>ps_closed := True\<rparr>)"
| pool_stops: "ps_status st = Running \<Longrightarrow> ps_closed st \<Longrightarrow>
     sys_step st (st\<lparr>ps_status := Stopped, ps_pool := stop_pool (ps_pool st)\<rparr>)"
| pool_returns: "ps_status st = Stopped \<Longrightarrow> pa_tasks (ps_pool st) = [] \<Longrightarrow> sys_step st (drop_queue st)"
| connect: "ps_spawned st c = Some (i, g) \<Longrightarrow> ps_actors st c = None \<Longrightarrow> sys_step st (conn_connects st c i g outcome)"
| select: "ps_actors st c = Some a \<Longrightarrow> ca_running a \<Longrightarrow>
     rd_recv r = RecvPending \<or> (\<exists>req. ps_mail st c \<noteq> [] \<and> req = hd (ps_mail st c) \<and> rd_recv r = RecvRequest req) \<Longrightarrow>
     (rd_shutdown r \<longrightarrow> ps_closed st) \<Longrightarrow> sys_step st (conn_selects st c a r)"
| drop_ref: "ps_actors st c = Some a \<Longrightarrow>
     sys_step st (st\<lparr>ps_actors := (ps_actors st)(c \<mapsto> fst (conn_step a DropRef))\<rparr>)"

inductive sys_reachable :: "pool_options \<Rightarrow> pool_system \<Rightarrow> bool" for options where
  start: "sys_reachable options (pool_system_new options)"
| step: "sys_reachable options st \<Longrightarrow> sys_step st st' \<Longrightarrow> sys_reachable options st'"

section \<open>The invariant\<close>

text \<open>Who is who: a slot, the actor behind it and every request in its mailbox agree on the peer, and a
  handle that was given out is the one of a connected actor for the peer that was asked for.\<close>

definition slots_spawned :: "pool_system \<Rightarrow> bool" where
  "slots_spawned st \<longleftrightarrow>
     (\<forall>i slot. fmlookup (pa_connections (ps_pool st)) i = Some slot \<longrightarrow>
        ps_spawned st (slot_tx slot) = Some (i, slot_generation slot)) \<and>
     (\<forall>c. pa_channels (ps_pool st) \<le> c \<longrightarrow> ps_spawned st c = None)"

definition actors_ok :: "pool_system \<Rightarrow> bool" where
  "actors_ok st \<longleftrightarrow>
     (\<forall>c a. ps_actors st c = Some a \<longrightarrow> ps_spawned st c = Some (ca_node_id a, ca_generation a)) \<and>
     (\<forall>c. \<forall>req \<in> set (ps_mail st c). \<exists>g. ps_spawned st c = Some (req_id req, g))"

definition handle_for :: "pool_system \<Rightarrow> endpoint_id \<Rightarrow> u64 \<Rightarrow> bool" where
  "handle_for st i g \<longleftrightarrow> (\<exists>c a. ps_actors st c = Some a \<and> ca_connected a \<and> ca_node_id a = i \<and> ca_generation a = g)"

definition replies_ok :: "pool_system \<Rightarrow> bool" where
  "replies_ok st \<longleftrightarrow> (\<forall>req i g. (req, Some (Inr (i, g))) \<in> set (ps_replies st) \<longrightarrow> i = req_id req \<and> handle_for st i g)"

definition sys_inv :: "pool_system \<Rightarrow> bool" where
  "sys_inv st \<longleftrightarrow> slots_spawned st \<and> actors_ok st \<and> replies_ok st"

subsection \<open>What the pool actor does with a message\<close>

definition shrinks :: "pool_actor \<Rightarrow> pool_actor \<Rightarrow> bool" where
  "shrinks p p' \<longleftrightarrow> pa_channels p' = pa_channels p \<and> pa_next_generation p' = pa_next_generation p \<and>
     (\<forall>i slot. fmlookup (pa_connections p') i = Some slot \<longrightarrow> fmlookup (pa_connections p) i = Some slot)"

definition grows :: "pool_actor \<Rightarrow> pool_actor \<Rightarrow> endpoint_id \<Rightarrow> u64 \<Rightarrow> bool" where
  "grows p p' i g \<longleftrightarrow> pa_channels p' = Suc (pa_channels p) \<and> g = pa_next_generation p \<and>
     (\<forall>j slot. fmlookup (pa_connections p') j = Some slot \<longrightarrow>
        fmlookup (pa_connections p) j = Some slot \<or>
        j = i \<and> slot = \<lparr>slot_generation = g, slot_tx = pa_channels p\<rparr>)"

inductive handled :: "channel_env \<Rightarrow> pool_actor \<Rightarrow> msg \<Rightarrow> pool_actor \<Rightarrow> effect list \<Rightarrow> bool" for env p where
  noted: "shrinks p p' \<Longrightarrow> requests_of [m] = [] \<Longrightarrow> handled env p m p' []"
| reused: "shrinks p p' \<Longrightarrow> fmlookup (pa_connections p) (req_id req) = Some slot \<Longrightarrow>
     env_try_send env (slot_tx slot) req = SendOk \<Longrightarrow> handled env p (Msg_Request req) p' [Forward (slot_tx slot) req]"
| refused: "shrinks p p' \<Longrightarrow> handled env p (Msg_Request req) p' [ReplyErr req e]"
| started: "grows p p' (req_id req) g \<Longrightarrow> x = Forward (pa_channels p) req \<or> x = DropRequest req \<Longrightarrow>
     handled env p (Msg_Request req) p' [SpawnConnection (req_id req) g (pa_channels p), x]"

lemma shrinks_refl [simp]: "shrinks p p"
  by (simp add: shrinks_def)

lemma shrinks_drop: "shrinks q p \<Longrightarrow> shrinks q (p\<lparr>pa_connections := fmdrop i (pa_connections p)\<rparr>)"
  by (auto simp: shrinks_def)

lemma shrinks_remove_idle [simp]: "shrinks q (remove_idle p i) = shrinks q p"
  by (simp add: shrinks_def)

lemma shrinks_drop_idle: "shrinks p ((remove_idle p i)\<lparr>pa_connections := fmdrop j (pa_connections p)\<rparr>)"
  by (auto simp: shrinks_def)

lemma shrinks_remove_connection: "shrinks p (remove_connection_if_match p i g)"
  by (simp add: remove_connection_if_match_def shrinks_drop)

lemma shrinks_evict: "shrinks q p \<Longrightarrow> evict_loop l p = (b, p') \<Longrightarrow> shrinks q p'"
  by (induction l p rule: evict_loop.induct) (auto simp: shrinks_def split: if_splits)

lemma grows_remove_connection: "grows p p' i g \<Longrightarrow> grows p (remove_connection_if_match p' j h) i g"
  by (auto simp: grows_def remove_connection_if_match_def)

lemma start_connection_handled:
  assumes "shrinks p q"
  shows "handled env p (Msg_Request req) (fst (start_connection env q req)) (snd (start_connection env q req))"
proof -
  have "pa_channels q = pa_channels p" using assms by (simp add: shrinks_def)
  moreover have "grows p (q\<lparr>pa_next_generation := x, pa_channels := Suc (pa_channels q),
      pa_connections := fmupd (req_id req) \<lparr>slot_generation = pa_next_generation q, slot_tx = pa_channels q\<rparr> (pa_connections q),
      pa_tasks := ts\<rparr>) (req_id req) (pa_next_generation q)" for x ts
    using assms by (auto simp: grows_def shrinks_def)
  ultimately show ?thesis
    by (auto simp: start_connection_def fetch_next_generation_def Let_def intro!: started grows_remove_connection)
qed

lemma admit_connection_handled:
  assumes "shrinks p q"
  shows "handled env p (Msg_Request req) (fst (admit_connection env q req)) (snd (admit_connection env q req))"
  using assms shrinks_evict [OF assms, of "pa_idle q"]
  by (auto simp: admit_connection_def evict_idle_connection_def split: prod.split
      intro!: start_connection_handled refused)

lemma handle_handled: "handled env p m (fst (handle env p m)) (snd (handle env p m))"
proof (cases m)
  case (Msg_Request req)
  have "handled env p (Msg_Request req) (fst (handle_request env p req)) (snd (handle_request env p req))"
    by (auto simp: handle_request_def Let_def split: option.split try_send_result.split
        intro!: admit_connection_handled shrinks_drop_idle reused refused)
  with Msg_Request show ?thesis by simp
next
  case (Msg_Idle i g)
  have "shrinks p (add_idle p i g)" by (simp add: shrinks_def add_idle_def Let_def)
  with Msg_Idle show ?thesis by (auto intro!: noted)
next
  case (Msg_Shutdown i g)
  then show ?thesis by (auto intro!: noted shrinks_remove_connection)
qed

subsection \<open>What a connection actor does in a round\<close>

fun answered :: "conn_effect list \<Rightarrow> request_msg list" where
  "answered [] = []"
| "answered (ReplyRef req i g # es) = req # answered es"
| "answered (ReplyError req e # es) = req # answered es"
| "answered (_ # es) = answered es"

lemma apply_conn_effects_frame [simp]:
  "ps_mail (foldl apply_conn_effect st es) = ps_mail st" "ps_actors (foldl apply_conn_effect st es) = ps_actors st"
  "ps_spawned (foldl apply_conn_effect st es) = ps_spawned st" "ps_pool (foldl apply_conn_effect st es) = ps_pool st"
  "ps_issued (foldl apply_conn_effect st es) = ps_issued st"
proof (induction es arbitrary: st)
  case (Cons e es)
  { case 1 then show ?case using Cons(1) by (cases e) simp_all }
  { case 2 then show ?case using Cons(2) by (cases e) simp_all }
  { case 3 then show ?case using Cons(3) by (cases e) simp_all }
  { case 4 then show ?case using Cons(4) by (cases e) simp_all }
  { case 5 then show ?case using Cons(5) by (cases e) simp_all }
qed simp_all

lemma apply_conn_effects_replies:
  "map fst (ps_replies (foldl apply_conn_effect st es)) = map fst (ps_replies st) @ answered es"
proof (induction es arbitrary: st)
  case (Cons e es)
  then show ?case by (cases e) simp_all
qed simp

lemma apply_conn_effects_refs:
  "(req, Some (Inr (i, g))) \<in> set (ps_replies (foldl apply_conn_effect st es)) \<longleftrightarrow>
     (req, Some (Inr (i, g))) \<in> set (ps_replies st) \<or> ReplyRef req i g \<in> set es"
proof (induction es arbitrary: st)
  case (Cons e es)
  then show ?case by (cases e) auto
qed simp

lemma requests_of_append [simp]: "requests_of (xs @ ys) = requests_of xs @ requests_of ys"
  by (induction xs rule: requests_of.induct) simp_all

lemma apply_conn_effects_queue:
  "list_all (own_message a) es \<Longrightarrow> requests_of (ps_queue (foldl apply_conn_effect st es)) = requests_of (ps_queue st)"
proof (induction es arbitrary: st)
  case (Cons e es)
  then show ?case by (cases e) auto
qed simp

lemma conn_step_answered:
  assumes "ca_running a" and "rd_recv r \<noteq> RecvNone"
  shows "answered (snd (conn_step a (Select r))) =
    (if select_branch a r = Some BranchRecv then (case rd_recv r of RecvRequest req \<Rightarrow> [req] | _ \<Rightarrow> []) else [])"
proof (cases "select_branch a r")
  case (Some b)
  with assms show ?thesis by (cases b) (auto simp: conn_defs Let_def split: recv_result.split)
qed (use assms in simp)

lemma conn_step_ref:
  assumes "ReplyRef req i g \<in> set (snd (conn_step a (Select r)))"
  shows "rd_recv r = RecvRequest req \<and> i = ca_node_id a \<and> g = ca_generation a \<and> ca_connected a"
proof -
  from assms obtain b where "select_branch a r = Some b" and ref: "ReplyRef req i g \<in> set (snd (run_branch a r b))"
    by (auto split: if_splits option.splits)
  from ref show ?thesis
    by (cases b) (auto simp: conn_defs Let_def split: if_splits recv_result.splits)
qed

subsection \<open>Every step keeps the invariant\<close>

lemma handle_for_step:
  assumes "\<And>c a. ps_actors st c = Some a \<Longrightarrow> \<exists>a'. ps_actors st' c = Some a' \<and> same_identity a a'"
    and "handle_for st i g"
  shows "handle_for st' i g"
proof -
  from assms(2) obtain c a where "ps_actors st c = Some a" "ca_connected a" "ca_node_id a = i" "ca_generation a = g"
    by (auto simp: handle_for_def)
  with assms(1) [of c a] show ?thesis by (auto simp: handle_for_def same_identity_def)
qed

text \<open>Everything but the queue, the pool actor and new replies without a handle stays as it is.\<close>

lemma sys_inv_frame:
  assumes "sys_inv st" and "ps_actors st' = ps_actors st" and "ps_spawned st' = ps_spawned st"
    and "\<And>c. set (ps_mail st' c) \<subseteq> set (ps_mail st c)"
    and "\<And>req i g. (req, Some (Inr (i, g))) \<in> set (ps_replies st') \<Longrightarrow> (req, Some (Inr (i, g))) \<in> set (ps_replies st)"
    and "shrinks (ps_pool st) (ps_pool st')"
  shows "sys_inv st'"
proof -
  have "handle_for st' = handle_for st" using assms(2) by (simp add: handle_for_def fun_eq_iff)
  with assms(1,5) have "replies_ok st'" unfolding sys_inv_def replies_ok_def by metis
  moreover have "actors_ok st'"
    using assms(1-4) unfolding sys_inv_def actors_ok_def by (metis subsetD)
  moreover have "slots_spawned st'"
    using assms(1,3,6) by (auto simp: sys_inv_def slots_spawned_def shrinks_def)
  ultimately show ?thesis by (simp add: sys_inv_def)
qed

lemma handled_sys_inv:
  assumes "sys_inv st" and "handled env (ps_pool st) m p effs"
  shows "sys_inv (foldl apply_effect (st\<lparr>ps_pool := p\<rparr>) effs)"
  using assms(2)
proof cases
  case noted
  with assms(1) show ?thesis by (auto intro: sys_inv_frame)
next
  case (refused req e)
  with assms(1) show ?thesis by (auto intro: sys_inv_frame)
next
  case (reused req slot)
  then have "ps_spawned st (slot_tx slot) = Some (req_id req, slot_generation slot)"
    using assms(1) by (simp add: sys_inv_def slots_spawned_def)
  then have "\<exists>g. ps_spawned st c = Some (req_id r, g)"
    if "r \<in> set (((ps_mail st)(slot_tx slot := ps_mail st (slot_tx slot) @ [req])) c)" for c r
    using that assms(1) by (cases "r \<in> set (ps_mail st c)") (simp_all add: sys_inv_def actors_ok_def split: if_splits)
  with assms(1) have "sys_inv (st\<lparr>ps_mail := (ps_mail st)(slot_tx slot := ps_mail st (slot_tx slot) @ [req])\<rparr>)"
    by (simp add: sys_inv_def slots_spawned_def actors_ok_def replies_ok_def handle_for_def)
  from sys_inv_frame [OF this, of "foldl apply_effect (st\<lparr>ps_pool := p\<rparr>) effs"] reused show ?thesis by simp
next
  case (started req g x)
  let ?c = "pa_channels (ps_pool st)"
  let ?st = "foldl apply_effect (st\<lparr>ps_pool := p\<rparr>) effs"
  have fresh: "ps_spawned st ?c = None" using assms(1) by (simp add: sys_inv_def slots_spawned_def)
  then have none: "ps_actors st ?c = None" "ps_mail st ?c = []"
    using assms(1) unfolding sys_inv_def actors_ok_def
    by (metis option.distinct(1) not_None_eq, metis list.set_intros(1) neq_Nil_conv option.distinct(1))
  have fields: "ps_actors ?st = ps_actors st" "ps_spawned ?st = (ps_spawned st)(?c \<mapsto> (req_id req, g))" "ps_pool ?st = p"
    using started by auto
  have "replies_ok ?st"
    using assms(1) started by (auto simp: sys_inv_def replies_ok_def handle_for_def)
  moreover have "set (ps_mail ?st d) \<subseteq> (if d = ?c then {req} else set (ps_mail st d))" for d
    using started none(2) by auto
  then have "actors_ok ?st"
    using assms(1) none unfolding sys_inv_def actors_ok_def fields by (fastforce split: if_splits)
  moreover have "slots_spawned ?st"
    using assms(1) started(3) fresh unfolding sys_inv_def slots_spawned_def grows_def fields by fastforce
  ultimately show ?thesis by (simp add: sys_inv_def)
qed

lemma pool_receives_inv: "sys_inv st \<Longrightarrow> sys_inv (pool_receives send_fails st m)"
  using handled_sys_inv [OF _ handle_handled] by (simp add: pool_receives_def split_beta)

lemma conn_connects_inv:
  assumes "sys_inv st" and "ps_spawned st c = Some (i, g)" and "ps_actors st c = None"
  shows "sys_inv (conn_connects st c i g outcome)"
proof -
  obtain a effs where start: "conn_start i g (idle_timeout (pa_options (ps_pool st))) outcome (ps_closed st) = (a, effs)"
    by fastforce
  then have a: "ca_node_id a = i" "ca_generation a = g" and no_ref: "\<And>req j h. ReplyRef req j h \<notin> set effs"
    by (auto simp: conn_start_def split: sum.splits)
  have keep: "handle_for (st\<lparr>ps_actors := (ps_actors st)(c \<mapsto> a)\<rparr>) j h" if "handle_for st j h" for j h
    by (rule handle_for_step [OF _ that]) (use assms(3) in \<open>auto simp: same_identity_def\<close>)
  then have "replies_ok (conn_connects st c i g outcome)"
    using assms(1) no_ref
    by (auto simp: conn_connects_def start sys_inv_def replies_ok_def apply_conn_effects_refs handle_for_def)
  then show ?thesis
    using assms by (auto simp: conn_connects_def start a sys_inv_def slots_spawned_def actors_ok_def)
qed

lemma conn_selects_inv:
  assumes "sys_inv st" and "ps_actors st c = Some a"
    and "rd_recv r = RecvPending \<or> (\<exists>req. ps_mail st c \<noteq> [] \<and> req = hd (ps_mail st c) \<and> rd_recv r = RecvRequest req)"
  shows "sys_inv (conn_selects st c a r)"
proof -
  obtain a' effs where step: "conn_step a (Select r) = (a', effs)" by fastforce
  let ?st = "conn_selects st c a r"
  have same: "same_identity a a'" using conn_step_identity [of a "Select r"] step by (simp del: conn_step.simps)
  have fields: "ps_actors ?st = (ps_actors st)(c \<mapsto> a')" "ps_spawned ?st = ps_spawned st" "ps_pool ?st = ps_pool st"
    by (simp_all add: conn_selects_def step Let_def drop_mailbox_def del: conn_step.simps)
  have mail: "set (ps_mail ?st d) \<subseteq> set (ps_mail st d)" for d
    by (cases "ps_mail st c") (auto simp: conn_selects_def step Let_def drop_mailbox_def simp del: conn_step.simps)
  have refs: "(req, Some (Inr (i, g))) \<in> set (ps_replies ?st) \<longleftrightarrow>
      (req, Some (Inr (i, g))) \<in> set (ps_replies st) \<or> ReplyRef req i g \<in> set effs" for req i g
    by (auto simp: conn_selects_def step Let_def drop_mailbox_def apply_conn_effects_refs simp del: conn_step.simps)
  have keep: "handle_for ?st i g" if "handle_for st i g" for i g
    by (rule handle_for_step [OF _ that]) (use assms(2) same in \<open>auto simp: fields same_identity_def\<close>)
  have new: "i = req_id req \<and> handle_for ?st i g" if "ReplyRef req i g \<in> set effs" for req i g
  proof -
    from conn_step_ref [of req i g a r] that step
    have "rd_recv r = RecvRequest req" and a: "i = ca_node_id a" "g = ca_generation a" "ca_connected a"
      by (auto simp del: conn_step.simps)
    with assms(3) have "req \<in> set (ps_mail st c)" by auto
    then have "req_id req = ca_node_id a" using assms(1,2) unfolding sys_inv_def actors_ok_def by fastforce
    with a same show ?thesis by (auto simp: handle_for_def fields same_identity_def)
  qed
  have "replies_ok ?st" using assms(1) keep new unfolding replies_ok_def sys_inv_def refs by blast
  moreover have "actors_ok ?st"
    using assms(1,2) mail same unfolding sys_inv_def actors_ok_def fields same_identity_def by (fastforce split: if_splits)
  moreover have "slots_spawned ?st" using assms(1) by (simp add: sys_inv_def slots_spawned_def fields)
  ultimately show ?thesis by (simp add: sys_inv_def)
qed

lemma sys_step_inv:
  assumes "sys_step st st'" and "sys_inv st"
  shows "sys_inv st'"
  using assms
proof cases
  case (pool_message m ms send_fails)
  have "sys_inv (st\<lparr>ps_queue := ms\<rparr>)" using assms(2) by (rule sys_inv_frame) simp_all
  with pool_message show ?thesis by (simp add: pool_receives_inv)
next
  case (pool_joins c)
  then show ?thesis
    using assms(2) by (cases "ps_status st") (auto intro!: sys_inv_frame [OF assms(2)] simp: shrinks_def)
next
  case (connect c i g outcome)
  with assms(2) show ?thesis by (simp add: conn_connects_inv)
next
  case (select c a r)
  with assms(2) show ?thesis by (simp add: conn_selects_inv)
next
  case (drop_ref c a)
  have same: "same_identity a (fst (conn_step a DropRef))" by (rule conn_step_identity)
  have "handle_for st' i g" if "handle_for st i g" for i g
    by (rule handle_for_step [OF _ that]) (use drop_ref same in \<open>auto simp: same_identity_def\<close>)
  with drop_ref same assms(2) show ?thesis
    unfolding sys_inv_def replies_ok_def actors_ok_def slots_spawned_def same_identity_def by (auto split: if_splits)
qed (use assms(2) in \<open>auto intro!: sys_inv_frame [OF assms(2)] simp: shrinks_def stop_pool_def drop_queue_def\<close>)

lemma sys_reachable_inv: "sys_reachable options st \<Longrightarrow> sys_inv st"
proof (induction rule: sys_reachable.induct)
  case start
  show ?case
    by (simp add: sys_inv_def slots_spawned_def actors_ok_def replies_ok_def pool_system_new_def pool_actor_new_def)
qed (rule sys_step_inv)

section \<open>No request is lost\<close>

text \<open>Where the requests are: in the queue of the pool actor, in a mailbox of a connection actor, or
  answered.\<close>

definition in_mail :: "nat \<Rightarrow> (mailbox \<Rightarrow> request_msg list) \<Rightarrow> request_msg multiset" where
  "in_mail n mail = (\<Sum>c<n. mset (mail c))"

definition whereabouts :: "pool_system \<Rightarrow> request_msg multiset" where
  "whereabouts st = mset (requests_of (ps_queue st)) + in_mail (pa_channels (ps_pool st)) (ps_mail st)
     + mset (map fst (ps_replies st))"

lemma in_mail_split: "c < n \<Longrightarrow> in_mail n mail = mset (mail c) + (\<Sum>d \<in> {..<n} - {c}. mset (mail d))"
  by (simp add: in_mail_def sum.remove)

lemma in_mail_upd:
  assumes "c < n"
  shows "in_mail n (mail(c := xs)) + mset (mail c) = in_mail n mail + mset xs"
proof -
  have "(\<Sum>d \<in> {..<n} - {c}. mset ((mail(c := xs)) d)) = (\<Sum>d \<in> {..<n} - {c}. mset (mail d))"
    by (rule sum.cong) auto
  then show ?thesis by (simp add: in_mail_split [OF assms])
qed

lemma in_mail_append: "c < n \<Longrightarrow> in_mail n (mail(c := mail c @ [req])) = add_mset req (in_mail n mail)"
  using in_mail_upd [of c n mail "mail c @ [req]"] by simp

lemma in_mail_Suc: "in_mail (Suc n) mail = in_mail n mail + mset (mail n)"
  by (simp add: in_mail_def)

lemma in_mail_above: "n \<le> c \<Longrightarrow> in_mail n (mail(c := xs)) = in_mail n mail"
  unfolding in_mail_def by (rule sum.cong) auto

lemma spawned_channel: "sys_inv st \<Longrightarrow> ps_spawned st c = Some x \<Longrightarrow> c < pa_channels (ps_pool st)"
  by (metis sys_inv_def slots_spawned_def not_le option.distinct(1))

lemma fresh_mail_empty: "sys_inv st \<Longrightarrow> ps_mail st (pa_channels (ps_pool st)) = []"
  unfolding sys_inv_def actors_ok_def slots_spawned_def
  by (metis list.set_intros(1) neq_Nil_conv option.distinct(1) order_refl)

lemma requests_of_Cons: "requests_of (m # ms) = requests_of [m] @ requests_of ms"
  by (cases m) simp_all

lemma pool_receives_whereabouts:
  assumes "sys_inv st" and "ps_queue st = m # ms"
  shows "whereabouts (pool_receives send_fails (st\<lparr>ps_queue := ms\<rparr>) m) = whereabouts st \<and>
    ps_issued (pool_receives send_fails (st\<lparr>ps_queue := ms\<rparr>) m) = ps_issued st"
proof -
  obtain p effs where h: "handle (system_env (st\<lparr>ps_queue := ms\<rparr>) send_fails) (ps_pool st) m = (p, effs)" by fastforce
  then have "handled (system_env (st\<lparr>ps_queue := ms\<rparr>) send_fails) (ps_pool st) m p effs"
    using handle_handled [of "system_env (st\<lparr>ps_queue := ms\<rparr>) send_fails" "ps_pool st" m] by (simp del: handle.simps)
  moreover have r: "pool_receives send_fails (st\<lparr>ps_queue := ms\<rparr>) m =
      foldl apply_effect (st\<lparr>ps_queue := ms, ps_pool := p\<rparr>) effs"
    by (simp add: pool_receives_def h del: handle.simps)
  ultimately show ?thesis
  proof cases
    case noted
    with requests_of_Cons [of m ms] show ?thesis unfolding r
      by (simp add: whereabouts_def assms(2) shrinks_def)
  next
    case (refused req e)
    then show ?thesis unfolding r by (simp add: whereabouts_def assms(2) shrinks_def)
  next
    case (reused req slot)
    then have "ps_spawned st (slot_tx slot) = Some (req_id req, slot_generation slot)"
      using assms(1) by (simp add: sys_inv_def slots_spawned_def)
    with reused spawned_channel [OF assms(1)] show ?thesis unfolding r
      by (simp add: whereabouts_def assms(2) shrinks_def in_mail_append)
  next
    case (started req g x)
    then show ?thesis unfolding r
      by (auto simp: whereabouts_def assms(2) grows_def in_mail_Suc in_mail_above
          fresh_mail_empty [OF assms(1)])
  qed
qed

lemma conn_selects_whereabouts:
  assumes "sys_inv st" and "ps_actors st c = Some a" and "ca_running a"
    and "rd_recv r = RecvPending \<or> (\<exists>req. ps_mail st c \<noteq> [] \<and> req = hd (ps_mail st c) \<and> rd_recv r = RecvRequest req)"
  shows "whereabouts (conn_selects st c a r) = whereabouts st"
proof -
  obtain a' effs where step: "conn_step a (Select r) = (a', effs)" by fastforce
  let ?mail = "if select_branch a r = Some BranchRecv then tl (ps_mail st c) else ps_mail st c"
  let ?st = "foldl apply_conn_effect (st\<lparr>ps_actors := (ps_actors st)(c \<mapsto> a'), ps_mail := (ps_mail st)(c := ?mail)\<rparr>) effs"
  have c: "c < pa_channels (ps_pool st)"
    using assms(1,2) spawned_channel [OF assms(1)] unfolding sys_inv_def actors_ok_def by blast
  have "answered effs = (if select_branch a r = Some BranchRecv then [hd (ps_mail st c)] else [])"
    using conn_step_answered [of a r] assms(3,4) step by (auto simp: select_branch_def split: if_splits)
  moreover have "select_branch a r = Some BranchRecv \<Longrightarrow> ps_mail st c \<noteq> []"
    using assms(4) by (auto simp: select_branch_def split: if_splits)
  ultimately have mail: "mset ?mail + mset (answered effs) = mset (ps_mail st c)"
    by (cases "ps_mail st c") auto
  have queue: "requests_of (ps_queue ?st) = requests_of (ps_queue st)"
    using apply_conn_effects_queue [of a effs] conn_effects_tagged [of a "Select r"] step by simp
  let ?n = "pa_channels (ps_pool st)"
  have "in_mail ?n ((ps_mail st)(c := ?mail)) + mset (answered effs) + mset ?mail = in_mail ?n (ps_mail st) + mset ?mail"
    using in_mail_upd [OF c, of "ps_mail st" ?mail] unfolding mail [symmetric] by (simp only: ac_simps)
  then have "in_mail ?n ((ps_mail st)(c := ?mail)) + mset (answered effs) = in_mail ?n (ps_mail st)"
    by (simp only: add_right_cancel)
  then have "whereabouts ?st = whereabouts st"
    unfolding whereabouts_def apply_conn_effects_replies queue apply_conn_effects_frame
    by (simp add: ac_simps del: fun_upd_apply)
  moreover have "whereabouts (drop_mailbox ?st c) = whereabouts ?st"
    using in_mail_upd [of c "pa_channels (ps_pool ?st)" "ps_mail ?st" "[]"] c
    by (simp add: whereabouts_def drop_mailbox_def comp_def ac_simps)
  ultimately show ?thesis by (simp add: conn_selects_def step Let_def del: conn_step.simps)
qed

lemma sys_step_whereabouts:
  assumes "sys_step st st'" and "sys_inv st"
  shows "ps_issued st' = ps_issued st \<and> whereabouts st' = whereabouts st \<or>
    (\<exists>i. ps_issued st' = Suc (ps_issued st) \<and>
       whereabouts st' = add_mset \<lparr>req_id = i, req_tx = ps_issued st\<rparr> (whereabouts st))"
  using assms
proof cases
  case (pool_message m ms send_fails)
  with pool_receives_whereabouts [OF assms(2)] show ?thesis by simp
next
  case (select c a r)
  moreover have "ps_issued (conn_selects st c a r) = ps_issued st"
    by (simp add: conn_selects_def drop_mailbox_def Let_def split: prod.split)
  ultimately show ?thesis using conn_selects_whereabouts [OF assms(2)] by simp
next
  case (connect c i g outcome)
  then show ?thesis
    by (cases "connect_result outcome") (auto simp: conn_connects_def conn_start_def whereabouts_def)
next
  case (pool_joins c)
  then show ?thesis by (cases "ps_status st") (simp_all add: whereabouts_def)
qed (auto simp: whereabouts_def stop_pool_def drop_queue_def comp_def)

lemma requests_accounted:
  assumes "sys_reachable options st"
  shows "image_mset req_tx (whereabouts st) = mset [0 ..< ps_issued st]"
  using assms
proof (induction rule: sys_reachable.induct)
  case start
  show ?case by (simp add: pool_system_new_def whereabouts_def pool_actor_new_def in_mail_def)
next
  case (step st st')
  from sys_step_whereabouts [OF step.hyps(2) sys_reachable_inv [OF step.hyps(1)]] step.IH
  show ?case by (auto simp: atLeast0_lessThan_Suc)
qed

lemma distinct_of_submset: "mset xs \<subseteq># mset ys \<Longrightarrow> distinct ys \<Longrightarrow> distinct xs"
  by (metis distinct_append mset_append mset_eq_imp_distinct_iff subset_mset.le_iff_add ex_mset)

section \<open>The loop head and the shutdown\<close>

text \<open>
  \<open>PoolActor::run\<close> reads the flag and then creates the future that waits for the notification;
  \<open>Shutdown::close\<close> sets the flag and then notifies the futures that exist. Here for a pool without
  connections, where after the last handle is gone nothing but the notification can wake the actor.
\<close>

datatype run_pc = CheckClosed | CreateWait | Selecting | LoopLeft

datatype close_pc = CloseSwap | CloseNotify | CloseDone

record run_loop =
  rl_pc :: run_pc
  rl_woken :: bool
  rl_messages :: nat
  rl_closed :: bool
  rl_close :: close_pc

definition run_loop_new :: run_loop where
  "run_loop_new = \<lparr>rl_pc = CheckClosed, rl_woken = False, rl_messages = 0, rl_closed = False, rl_close = CloseSwap\<rparr>"

inductive run_loop_step :: "run_loop \<Rightarrow> run_loop \<Rightarrow> bool" where
  is_closed_yes: "rl_pc s = CheckClosed \<Longrightarrow> rl_closed s \<Longrightarrow> run_loop_step s (s\<lparr>rl_pc := LoopLeft\<rparr>)"
| is_closed_no: "rl_pc s = CheckClosed \<Longrightarrow> \<not> rl_closed s \<Longrightarrow> run_loop_step s (s\<lparr>rl_pc := CreateWait\<rparr>)"
| create_wait: "rl_pc s = CreateWait \<Longrightarrow> run_loop_step s (s\<lparr>rl_pc := Selecting, rl_woken := False\<rparr>)"
| woken: "rl_pc s = Selecting \<Longrightarrow> rl_woken s \<Longrightarrow> run_loop_step s (s\<lparr>rl_pc := LoopLeft\<rparr>)"
| message: "rl_pc s = Selecting \<Longrightarrow> \<not> rl_woken s \<Longrightarrow> 0 < rl_messages s \<Longrightarrow>
     run_loop_step s (s\<lparr>rl_pc := CheckClosed, rl_messages := rl_messages s - 1\<rparr>)"
| send: "rl_close s = CloseSwap \<Longrightarrow> run_loop_step s (s\<lparr>rl_messages := Suc (rl_messages s)\<rparr>)"
| close_swap: "rl_close s = CloseSwap \<Longrightarrow> run_loop_step s (s\<lparr>rl_closed := True, rl_close := CloseNotify\<rparr>)"
| close_notify: "rl_close s = CloseNotify \<Longrightarrow>
     run_loop_step s (s\<lparr>rl_woken := (rl_woken s \<or> rl_pc s = Selecting), rl_close := CloseDone\<rparr>)"

inductive_cases run_loop_stepE: "run_loop_step s s'"

inductive run_loop_reachable :: "run_loop \<Rightarrow> bool" where
  start: "run_loop_reachable run_loop_new"
| step: "run_loop_reachable s \<Longrightarrow> run_loop_step s s' \<Longrightarrow> run_loop_reachable s'"

section \<open>Properties\<close>

text \<open>(C3) Whatever the interleaving of callers, pool actor and connection actors, a caller that is given a
  handle gets one for the peer it asked for, made by a connection actor that is connected to that peer
  and carries the handle's generation.\<close>

theorem handle_for_asked_peer:
  assumes "sys_reachable options st" and "(req, Some (Inr (i, g))) \<in> set (ps_replies st)"
  shows "i = req_id req \<and>
    (\<exists>c a. ps_actors st c = Some a \<and> ca_connected a \<and> ca_node_id a = req_id req \<and> ca_generation a = g)"
  using sys_reachable_inv [OF assms(1)] assms(2) unfolding sys_inv_def replies_ok_def handle_for_def by blast

text \<open>(C2) No request is lost or answered twice: in every reachable state of the whole pool each request
  made so far is in exactly one place, the queue of the pool actor, one mailbox of a connection actor,
  or the answers, and occurs there once.\<close>

theorem requests_conserved:
  assumes "sys_reachable options st"
  shows "image_mset req_tx (whereabouts st) = mset [0 ..< ps_issued st] \<and>
    distinct (map (\<lambda>(req, _). req_tx req) (ps_replies st))"
proof
  show all: "image_mset req_tx (whereabouts st) = mset [0 ..< ps_issued st]" by (rule requests_accounted) (rule assms)
  have "mset (map (\<lambda>(req, _). req_tx req) (ps_replies st)) \<subseteq># image_mset req_tx (whereabouts st)"
    by (simp add: whereabouts_def case_prod_unfold multiset.map_comp comp_def)
  then show "distinct (map (\<lambda>(req, _). req_tx req) (ps_replies st))"
    unfolding all by (rule distinct_of_submset) simp
qed

text \<open>A shutdown can be missed: when it falls between the check of the flag and the creation of the
  future at the head of \<open>PoolActor::run\<close>, the actor waits for a notification that was already given.\<close>

lemma shutdown_notification_lost:
  "\<exists>s. run_loop_reachable s \<and> rl_closed s \<and> rl_close s = CloseDone \<and> rl_pc s = Selecting \<and>
     (\<forall>s'. \<not> run_loop_step s s')"
proof -
  let ?s = "\<lambda>pc closed cl. \<lparr>rl_pc = pc, rl_woken = False, rl_messages = 0, rl_closed = closed, rl_close = cl\<rparr>"
  have "run_loop_reachable (?s CheckClosed False CloseSwap)"
    using run_loop_reachable.start by (simp add: run_loop_new_def)
  from run_loop_reachable.step [OF this is_closed_no] have "run_loop_reachable (?s CreateWait False CloseSwap)" by simp
  from run_loop_reachable.step [OF this close_swap] have "run_loop_reachable (?s CreateWait True CloseNotify)" by simp
  from run_loop_reachable.step [OF this close_notify] have "run_loop_reachable (?s CreateWait True CloseDone)" by simp
  from run_loop_reachable.step [OF this create_wait] have "run_loop_reachable (?s Selecting True CloseDone)" by simp
  moreover have "\<not> run_loop_step (?s Selecting True CloseDone) s'" for s' by (auto elim!: run_loop_stepE)
  ultimately show ?thesis by (intro exI [of _ "?s Selecting True CloseDone"]) simp
qed

end
