(* ===== verification/Pool_Runs.thy ===== *)
theory Pool_Runs
  imports Pool_System
begin

text \<open>
  Runs of the whole pool of \<open>Pool_System\<close>: a request can always be answered, and a run in which more
  connections are in use than the limit allows.
\<close>

section \<open>Requests can be answered\<close>

text \<open>A connection actor that has returned has no requests left in its mailbox, and none gets in.\<close>

definition mail_served :: "pool_system \<Rightarrow> bool" where
  "mail_served st \<longleftrightarrow> (\<forall>c a. ps_actors st c = Some a \<longrightarrow> \<not> ca_running a \<longrightarrow> ps_mail st c = [])"

lemma mail_served_pool_message:
  assumes "sys_inv st" and "mail_served st"
  shows "mail_served (pool_receives send_fails st m)"
proof -
  let ?env = "system_env st send_fails"
  obtain p effs where h: "handle ?env (ps_pool st) m = (p, effs)" by fastforce
  have r: "pool_receives send_fails st m = foldl apply_effect (st\<lparr>ps_pool := p\<rparr>) effs"
    by (simp add: pool_receives_def h del: handle.simps)
  have "handled ?env (ps_pool st) m p effs"
    using handle_handled [of ?env "ps_pool st" m] h by (simp del: handle.simps)
  then have "mail_served (foldl apply_effect (st\<lparr>ps_pool := p\<rparr>) effs)"
  proof cases
    case (reused req slot)
    then have "\<not> actor_finished st (slot_tx slot)" by (auto simp: system_env_def split: if_splits)
    with reused assms(2) show ?thesis by (auto simp: mail_served_def actor_finished_def)
  next
    case (started req g x)
    have "ps_actors st (pa_channels (ps_pool st)) = None"
      using assms(1) unfolding sys_inv_def actors_ok_def slots_spawned_def
      by (metis not_None_eq option.distinct(1) order_refl)
    with started assms(2) show ?thesis by (auto simp: mail_served_def)
  qed (use assms(2) in \<open>auto simp: mail_served_def\<close>)
  then show ?thesis unfolding r .
qed

lemma conn_start_running: "ca_running (fst (conn_start i g t outcome closed))"
  by (cases outcome) (simp_all add: conn_start_def)

lemma sys_step_mail_served:
  assumes "sys_step st st'" and "sys_inv st" and "mail_served st"
  shows "mail_served st'"
  using assms(1)
proof cases
  case (pool_message m ms send_fails)
  have "sys_inv (st\<lparr>ps_queue := ms\<rparr>)" using assms(2) by (rule sys_inv_frame) simp_all
  moreover have "mail_served (st\<lparr>ps_queue := ms\<rparr>)" using assms(3) by (simp add: mail_served_def)
  ultimately show ?thesis using pool_message by (simp add: mail_served_pool_message)
next
  case (connect c i g outcome)
  with assms(3) conn_start_running show ?thesis
    by (auto simp: conn_connects_def mail_served_def split_beta)
next
  case (select c a r)
  with assms(3) show ?thesis
    by (auto simp: conn_selects_def Let_def drop_mailbox_def mail_served_def split_beta simp del: conn_step.simps)
next
  case (drop_ref c a)
  with assms(3) show ?thesis by (auto simp: mail_served_def drop_one_def split: if_splits)
qed (use assms(3) in \<open>auto simp: mail_served_def drop_queue_def\<close>)

lemma sys_reachable_mail_served: "sys_reachable options st \<Longrightarrow> mail_served st"
proof (induction rule: sys_reachable.induct)
  case start
  show ?case by (simp add: mail_served_def pool_system_new_def)
next
  case (step st st')
  then show ?case using sys_step_mail_served sys_reachable_inv by blast
qed

text \<open>One request taken from a mailbox by a round in which nothing else is ready.\<close>

definition only_recv :: "request_msg \<Rightarrow> readiness" where
  "only_recv req = \<lparr>rd_shutdown = False, rd_conn_closed = False, rd_recv = RecvRequest req, rd_close_reason = False,
     rd_notified = False, rd_idle_elapsed = False, rd_now = 0\<rparr>"

definition is_answered :: "pool_system \<Rightarrow> request_msg \<Rightarrow> bool" where
  "is_answered st req \<longleftrightarrow> req \<in> set (map fst (ps_replies st))"

lemma serve_one:
  assumes "ps_actors st c = Some a" and "ca_running a" and "ps_mail st c = req # rest"
  shows "\<exists>st' a'. sys_step st st' \<and> ps_actors st' c = Some a' \<and> ca_running a' \<and> ps_mail st' c = rest \<and> is_answered st' req"
proof -
  obtain a' effs where step: "conn_step a (Select (only_recv req)) = (a', effs)" by fastforce
  have branch: "select_branch a (only_recv req) = Some BranchRecv" by (simp add: select_branch_def only_recv_def)
  have running: "ca_running a'" and eff: "answered effs = [req]"
    using step assms(2) branch by (auto simp: only_recv_def on_request_def get_one_def split: if_splits)
  have "sys_step st (conn_selects st c a (only_recv req))"
    using assms by (intro select) (auto simp: only_recv_def)
  moreover have "is_answered (conn_selects st c a (only_recv req)) req"
    unfolding is_answered_def
    by (simp add: conn_selects_def step branch running eff Let_def apply_conn_effects_replies del: conn_step.simps)
  ultimately show ?thesis
    by (intro exI [of _ "conn_selects st c a (only_recv req)"] exI [of _ a'])
       (simp add: conn_selects_def step branch running assms(3) Let_def del: conn_step.simps)
qed

lemma serve_mail:
  assumes "ps_actors st c = Some a" and "ca_running a" and "ps_mail st c = before @ req # rest"
  shows "\<exists>st'. sys_step\<^sup>*\<^sup>* st st' \<and> is_answered st' req"
  using assms
proof (induction before arbitrary: st a)
  case Nil
  with serve_one [of st c a req rest] show ?case by (metis append_Nil r_into_rtranclp)
next
  case (Cons x before)
  from serve_one [of st c a x] Cons.prems obtain st1 a1 where
    "sys_step st st1" "ps_actors st1 c = Some a1" "ca_running a1" "ps_mail st1 c = before @ req # rest"
    by (metis append_Cons)
  with Cons.IH show ?case by (meson converse_rtranclp_into_rtranclp)
qed

lemma mail_answerable:
  assumes "sys_inv st" and "mail_served st" and "req \<in> set (ps_mail st c)"
  shows "\<exists>st'. sys_step\<^sup>*\<^sup>* st st' \<and> is_answered st' req"
proof (cases "ps_actors st c")
  case (Some a)
  with assms(2,3) have "ca_running a" unfolding mail_served_def by (metis empty_iff empty_set)
  with Some assms(3) serve_mail show ?thesis by (metis split_list)
next
  case None
  from assms(1,3) obtain g where spawned: "ps_spawned st c = Some (req_id req, g)"
    unfolding sys_inv_def actors_ok_def by blast
  let ?st = "conn_connects st c (req_id req) g ConnectOk"
  have "sys_step st ?st" by (rule connect) (fact spawned None)+
  moreover have "\<exists>a. ps_actors ?st c = Some a \<and> ca_running a" "ps_mail ?st c = ps_mail st c"
    using conn_start_running by (auto simp: conn_connects_def split_beta)
  ultimately show ?thesis using assms(3) serve_mail
    by (metis converse_rtranclp_into_rtranclp split_list)
qed

text \<open>The pool actor works through its queue.\<close>

lemma apply_effects_queue [simp]:
  "ps_queue (foldl apply_effect st effs) = ps_queue st" "ps_status (foldl apply_effect st effs) = ps_status st"
proof (induction effs arbitrary: st)
  case (Cons e effs)
  { case 1 then show ?case using Cons(1) by (cases e) simp_all }
  { case 2 then show ?case using Cons(2) by (cases e) simp_all }
qed simp_all

lemma pool_receives_frame [simp]:
  "ps_queue (pool_receives send_fails st m) = ps_queue st" "ps_status (pool_receives send_fails st m) = ps_status st"
  by (simp_all add: pool_receives_def split_beta)

lemma pool_receives_request:
  "is_answered (pool_receives send_fails st (Msg_Request req)) req \<or>
   (\<exists>c. req \<in> set (ps_mail (pool_receives send_fails st (Msg_Request req)) c))"
proof -
  let ?env = "system_env st send_fails"
  obtain p effs where h: "handle ?env (ps_pool st) (Msg_Request req) = (p, effs)" by fastforce
  have r: "pool_receives send_fails st (Msg_Request req) = foldl apply_effect (st\<lparr>ps_pool := p\<rparr>) effs"
    by (simp add: pool_receives_def h del: handle.simps)
  have "handled ?env (ps_pool st) (Msg_Request req) p effs"
    using handle_handled [of ?env "ps_pool st" "Msg_Request req"] h by (simp del: handle.simps)
  then show ?thesis unfolding r is_answered_def by cases (auto split: if_splits)
qed

lemma queue_answerable:
  assumes "sys_inv st" and "mail_served st" and "ps_status st = Running"
    and "ps_queue st = before @ Msg_Request req # rest"
  shows "\<exists>st'. sys_step\<^sup>*\<^sup>* st st' \<and> is_answered st' req"
  using assms
proof (induction before arbitrary: st)
  case Nil
  let ?st = "pool_receives False (st\<lparr>ps_queue := rest\<rparr>) (Msg_Request req)"
  have step: "sys_step st ?st" using Nil by (intro pool_message) simp_all
  with Nil have "sys_inv ?st" "mail_served ?st" using sys_step_inv sys_step_mail_served by blast+
  with pool_receives_request [of False "st\<lparr>ps_queue := rest\<rparr>" req] mail_answerable step show ?case
    by (meson converse_rtranclp_into_rtranclp rtranclp.rtrancl_refl)
next
  case (Cons m before)
  let ?st = "pool_receives False (st\<lparr>ps_queue := before @ Msg_Request req # rest\<rparr>) m"
  have step: "sys_step st ?st" using Cons.prems by (intro pool_message) simp_all
  with Cons.prems have "sys_inv ?st" "mail_served ?st" using sys_step_inv sys_step_mail_served by blast+
  then have "\<exists>st'. sys_step\<^sup>*\<^sup>* ?st st' \<and> is_answered st' req" using Cons.prems(3) by (intro Cons.IH) simp_all
  with step show ?case by (meson converse_rtranclp_into_rtranclp)
qed

lemma requests_of_split: "req \<in> set (requests_of q) \<Longrightarrow> \<exists>before rest. q = before @ Msg_Request req # rest"
proof (induction q rule: requests_of.induct)
  case (2 r ms)
  then show ?case by (metis append_Cons append_Nil requests_of.simps(2) set_ConsD)
qed (auto, (metis append_Cons)+)

text \<open>(C4) No request is ever stuck while the pool runs: from every reachable state of the whole pool, every
  request made so far has been answered or can still be, by steps of the actors alone.\<close>

theorem request_answerable:
  assumes "sys_reachable options st" and "ps_status st = Running" and "n < ps_issued st"
  shows "\<exists>st' req. sys_step\<^sup>*\<^sup>* st st' \<and> req \<in> set (map fst (ps_replies st')) \<and> req_tx req = n"
proof -
  have inv: "sys_inv st" "mail_served st"
    using sys_reachable_inv [OF assms(1)] sys_reachable_mail_served [OF assms(1)] .
  have "n \<in># image_mset req_tx (whereabouts st)"
    using requests_accounted [OF assms(1)] assms(3) by simp
  then obtain req where n: "req_tx req = n" and req: "req \<in># whereabouts st" by auto
  then consider "req \<in> set (requests_of (ps_queue st))" | c where "req \<in> set (ps_mail st c)" | "is_answered st req"
    by (auto simp: whereabouts_def in_mail_def is_answered_def set_mset_sum)
  then have "\<exists>st'. sys_step\<^sup>*\<^sup>* st st' \<and> is_answered st' req"
  proof cases
    case 1
    with queue_answerable [OF inv assms(2)] show ?thesis by (metis requests_of_split)
  next
    case (2 c)
    with mail_answerable [OF inv] show ?thesis by blast
  next
    case 3
    then show ?thesis by blast
  qed
  with n show ?thesis unfolding is_answered_def by blast
qed

section \<open>A run past the limit\<close>

text \<open>A pool of one connection. A second request for peer 1 is queued before the \<open>Idle\<close> message of its
  connection, so the connection is queued as idle while it is leased again; a request for peer 2 then
  evicts it. \<open>wy\<close> builds the states of the run.\<close>

definition wy_req :: "u8 \<Rightarrow> nat \<Rightarrow> request_msg" where
  "wy_req i n = \<lparr>req_id = [i], req_tx = n\<rparr>"

definition wy :: "pool_actor \<Rightarrow> msg list \<Rightarrow> request_msg list \<Rightarrow> request_msg list \<Rightarrow> (endpoint_id \<times> u64) option
    \<Rightarrow> conn_actor option \<Rightarrow> conn_actor option \<Rightarrow> (request_msg \<times> reply) list \<Rightarrow> nat \<Rightarrow> pool_system" where
  "wy p q m0 m1 s1 a0 a1 reps n =
     \<lparr>ps_status = Running, ps_pool = p, ps_queue = q, ps_mail = (\<lambda>c. if c = 0 then m0 else if c = 1 then m1 else []),
      ps_spawned = (\<lambda>c. if c = 0 then Some ([1], 1) else if c = 1 then s1 else None),
      ps_actors = (\<lambda>c. if c = 0 then a0 else if c = 1 then a1 else None), ps_closed = False, ps_replies = reps, ps_issued = n\<rparr>"

lemma wy_simps [simp]:
  "ps_status (wy p q m0 m1 s1 a0 a1 reps n) = Running" "ps_pool (wy p q m0 m1 s1 a0 a1 reps n) = p"
  "ps_queue (wy p q m0 m1 s1 a0 a1 reps n) = q" "ps_mail (wy p q m0 m1 s1 a0 a1 reps n) 0 = m0"
  "ps_mail (wy p q m0 m1 s1 a0 a1 reps n) (Suc 0) = m1" "ps_issued (wy p q m0 m1 s1 a0 a1 reps n) = n"
  "ps_actors (wy p q m0 m1 s1 a0 a1 reps n) 0 = a0" "ps_actors (wy p q m0 m1 s1 a0 a1 reps n) (Suc 0) = a1"
  "ps_spawned (wy p q m0 m1 s1 a0 a1 reps n) 0 = Some ([1], 1)"
  "ps_spawned (wy p q m0 m1 s1 a0 a1 reps n) (Suc 0) = s1" "ps_closed (wy p q m0 m1 s1 a0 a1 reps n) = False"
  "ps_replies (wy p q m0 m1 s1 a0 a1 reps n) = reps"
  by (simp_all add: wy_def)

lemma wy_updates [simp]:
  "(wy p q m0 m1 s1 a0 a1 reps n)\<lparr>ps_queue := q'\<rparr> = wy p q' m0 m1 s1 a0 a1 reps n"
  "(wy p q m0 m1 s1 a0 a1 reps n)\<lparr>ps_issued := n'\<rparr> = wy p q m0 m1 s1 a0 a1 reps n'"
  "(wy p q m0 m1 s1 a0 a1 reps n)\<lparr>ps_pool := p'\<rparr> = wy p' q m0 m1 s1 a0 a1 reps n"
  "(wy p q m0 m1 s1 a0 a1 reps n)\<lparr>ps_replies := reps'\<rparr> = wy p q m0 m1 s1 a0 a1 reps' n"
  "(wy p q m0 m1 s1 a0 a1 reps n)\<lparr>ps_mail := (ps_mail (wy p' q' n0 n1 t1 b0 b1 reps' n'))(0 := x)\<rparr> = wy p q x n1 s1 a0 a1 reps n"
  "(wy p q m0 m1 s1 a0 a1 reps n)\<lparr>ps_mail := (ps_mail (wy p' q' n0 n1 t1 b0 b1 reps' n'))(Suc 0 := x)\<rparr> = wy p q n0 x s1 a0 a1 reps n"
  "(wy p q m0 m1 s1 a0 a1 reps n)\<lparr>ps_actors := (ps_actors (wy p' q' n0 n1 t1 b0 b1 reps' n'))(0 \<mapsto> a)\<rparr> = wy p q m0 m1 s1 (Some a) b1 reps n"
  "(wy p q m0 m1 s1 a0 a1 reps n)\<lparr>ps_actors := (ps_actors (wy p' q' n0 n1 t1 b0 b1 reps' n'))(Suc 0 \<mapsto> a)\<rparr> = wy p q m0 m1 s1 b0 (Some a) reps n"
  "(wy p q m0 m1 s1 a0 a1 reps n)\<lparr>ps_spawned := (ps_spawned (wy p' q' n0 n1 t1 b0 b1 reps' n'))(Suc 0 \<mapsto> y)\<rparr> = wy p q m0 m1 (Some y) a0 a1 reps n"
  by (auto simp: wy_def fun_eq_iff)

definition wy_pool :: "(endpoint_id, connection_slot) fmap \<Rightarrow> (endpoint_id \<times> u64) list \<Rightarrow> u64 \<Rightarrow> nat \<Rightarrow> nat list \<Rightarrow> pool_actor" where
  "wy_pool conns idle g chans tasks = \<lparr>pa_options = w_options, pa_connections = conns, pa_idle = idle,
     pa_next_generation = g, pa_channels = chans, pa_tasks = tasks\<rparr>"

definition wy_actor :: "u8 \<Rightarrow> u64 \<Rightarrow> nat \<Rightarrow> bool \<Rightarrow> nat \<Rightarrow> conn_actor" where
  "wy_actor i g leases idle deadline = \<lparr>ca_node_id = [i], ca_generation = g, ca_idle_timeout = from_secs 10, ca_connected = True,
     ca_error = None, ca_count = leases, ca_idle_active = idle, ca_idle_deadline = deadline, ca_shutdown_pending = False,
     ca_running = True\<rparr>"

lemmas wy_defs = wy_pool_def wy_actor_def wy_req_def pool_receives_def system_env_def actor_finished_def
  conn_connects_def conn_selects_def conn_start_def drop_mailbox_def select_branch_def conn_defs wc_ready_def
  pool_options_default_def CONNECTION_CHANNEL_CAPACITY_def POOL_CHANNEL_CAPACITY_def
  evict_idle_connection_def remove_connection_if_match_def w_pool_defs

abbreviation wy_conns1 :: "(endpoint_id, connection_slot) fmap" where
  "wy_conns1 \<equiv> fmupd [1] \<lparr>slot_generation = 1, slot_tx = 0\<rparr> fmempty"

abbreviation wy_conns2 :: "(endpoint_id, connection_slot) fmap" where
  "wy_conns2 \<equiv> fmupd [2] \<lparr>slot_generation = 2, slot_tx = 1\<rparr> fmempty"

lemma wy_conns1_drop [simp]: "fmdrop [1] wy_conns1 = fmempty"
  by (rule fmap_ext) auto

lemma wy_first: "sys_reachable w_options (wy (wy_pool wy_conns1 [] 2 1 [0]) [] [wy_req 1 0] [] None None None [] 1)"
proof -
  let ?st = "pool_system_new w_options"
  have "sys_reachable w_options (?st\<lparr>ps_queue := [Msg_Request (wy_req 1 0)], ps_issued := 1\<rparr>)"
    using sys_reachable.step [OF sys_reachable.start request [where i = "[1]"]]
    by (simp add: pool_system_new_def wy_req_def POOL_CHANNEL_CAPACITY_def)
  from sys_reachable.step [OF this pool_message [where m = "Msg_Request (wy_req 1 0)" and ms = "[]" and send_fails = False]]
  have "sys_reachable w_options (pool_receives False (?st\<lparr>ps_issued := 1\<rparr>) (Msg_Request (wy_req 1 0)))"
    by (simp add: pool_system_new_def)
  moreover have "pool_receives False (?st\<lparr>ps_issued := 1\<rparr>) (Msg_Request (wy_req 1 0)) =
      wy (wy_pool wy_conns1 [] 2 1 [0]) [] [wy_req 1 0] [] None None None [] 1"
    by (simp add: pool_system_new_def wy_defs wy_def fun_eq_iff)
  ultimately show ?thesis by simp
qed

text \<open>The rules of the system with the next state given up to an equation.\<close>

lemma reach_message:
  "sys_reachable opts st \<Longrightarrow> ps_status st = Running \<Longrightarrow> ps_queue st = m # ms \<Longrightarrow>
   pool_receives False (st\<lparr>ps_queue := ms\<rparr>) m = st' \<Longrightarrow> sys_reachable opts st'"
  using sys_reachable.step [OF _ pool_message] by metis

lemma reach_select:
  "sys_reachable opts st \<Longrightarrow> ps_actors st c = Some a \<Longrightarrow> ca_running a \<Longrightarrow> \<not> rd_shutdown r \<Longrightarrow>
   rd_recv r = RecvPending \<or> ps_mail st c \<noteq> [] \<and> rd_recv r = RecvRequest (hd (ps_mail st c)) \<Longrightarrow>
   conn_selects st c a r = st' \<Longrightarrow> sys_reachable opts st'"
  using sys_reachable.step [OF _ select] by metis

lemma reach_connect:
  "sys_reachable opts st \<Longrightarrow> ps_spawned st c = Some (i, g) \<Longrightarrow> ps_actors st c = None \<Longrightarrow>
   conn_connects st c i g ConnectOk = st' \<Longrightarrow> sys_reachable opts st'"
  using sys_reachable.step [OF _ connect] by metis

lemma reach_request:
  "sys_reachable opts (wy p q m0 m1 s1 a0 a1 reps n) \<Longrightarrow> length q < POOL_CHANNEL_CAPACITY \<Longrightarrow>
   sys_reachable opts (wy p (q @ [Msg_Request (wy_req i n)]) m0 m1 s1 a0 a1 reps (Suc n))"
  using sys_reachable.step [OF _ request [where i = "[i]"]] by (force simp: wy_req_def)

definition wy_recv :: "request_msg \<Rightarrow> readiness" where
  "wy_recv req = wc_ready\<lparr>rd_recv := RecvRequest req\<rparr>"

definition wy_notified :: readiness where
  "wy_notified = wc_ready\<lparr>rd_notified := True\<rparr>"

lemma wy_actor_simps [simp]:
  "ca_running (wy_actor i g k b d)" "ca_connected (wy_actor i g k b d)" "ca_count (wy_actor i g k b d) = k"
  "conn_step (wy_actor i g k b d) (Select (wy_recv req)) = (wy_actor i g (Suc k) False d, [ReplyRef req [i] g])"
  "conn_step (wy_actor i g 0 b d) (Select wy_notified) = (wy_actor i g 0 True (7 + from_secs 10), [SendPool (Msg_Idle [i] g)])"
  "conn_step (wy_actor i g (Suc k) b d) DropRef = (wy_actor i g k b d, [])"
  "select_branch (wy_actor i g k b d) (wy_recv req) = Some BranchRecv"
  "select_branch (wy_actor i g k b d) wy_notified = Some BranchNotified"
  "conn_start [i] g (from_secs 10) ConnectOk False = (wy_actor i g 0 False 0, [])"
  by (simp_all add: wy_actor_def wy_recv_def wy_notified_def wc_ready_def conn_defs select_branch_def conn_start_def)

lemma wy_ready_simps [simp]:
  "\<not> rd_shutdown (wy_recv req)" "rd_recv (wy_recv req) = RecvRequest req"
  "\<not> rd_shutdown wy_notified" "rd_recv wy_notified = RecvPending"
  "idle_timeout (pa_options (wy_pool conns idle h chans tasks)) = from_secs 10"
  by (simp_all add: wy_recv_def wy_notified_def wc_ready_def wy_pool_def w_options_def pool_options_default_def)

lemmas wy_conn_defs = conn_connects_def conn_selects_def Let_def

lemma wy_leased:
  "sys_reachable w_options (wy (wy_pool wy_conns1 [] 2 1 [0]) [] [] [] None (Some (wy_actor 1 1 1 False 0)) None
     [(wy_req 1 0, Some (Inr ([1], 1)))] 1)"
proof -
  have "sys_reachable w_options (wy (wy_pool wy_conns1 [] 2 1 [0]) [] [wy_req 1 0] [] None
      (Some (wy_actor 1 1 0 False 0)) None [] 1)"
    by (rule reach_connect [OF wy_first, where c = 0 and i = "[1]" and g = 1]) (simp_all add: wy_conn_defs)
  then show ?thesis
    by (rule reach_select [where c = 0 and a = "wy_actor 1 1 0 False 0" and r = "wy_recv (wy_req 1 0)"]) (simp_all add: wy_conn_defs del: conn_step.simps)
qed

text \<open>The connection of peer 1 is leased and in the idle queue.\<close>

lemma wy_stale_idle:
  "sys_reachable w_options (wy (wy_pool wy_conns1 [([1], 1)] 2 1 [0]) [] [] [] None
     (Some (wy_actor 1 1 1 False (7 + from_secs 10))) None
     [(wy_req 1 0, Some (Inr ([1], 1))), (wy_req 1 1, Some (Inr ([1], 1)))] 2)"
proof -
  let ?r = "[(wy_req 1 0, Some (Inr ([1], 1)))]" and ?p = "wy_pool wy_conns1 [] 2 1 [0]"
  let ?a = "wy_actor 1 1 0 True (7 + from_secs 10)"
  have "sys_reachable w_options (wy ?p [Msg_Request (wy_req 1 1)] [] [] None (Some (wy_actor 1 1 1 False 0)) None ?r 2)"
    using reach_request [OF wy_leased, of 1] by (simp add: POOL_CHANNEL_CAPACITY_def numeral_2_eq_2)
  from sys_reachable.step [OF this drop_ref [where c = 0]]
  have "sys_reachable w_options (wy ?p [Msg_Request (wy_req 1 1)] [] [] None (Some (wy_actor 1 1 0 False 0)) None ?r 2)"
    by (simp del: conn_step.simps)
  then have "sys_reachable w_options (wy ?p [Msg_Request (wy_req 1 1), Msg_Idle [1] 1] [] [] None (Some ?a) None ?r 2)"
    by (rule reach_select [where c = 0 and a = "wy_actor 1 1 0 False 0" and r = wy_notified]) (simp_all add: wy_conn_defs del: conn_step.simps)
  then have "sys_reachable w_options (wy ?p [Msg_Idle [1] 1] [wy_req 1 1] [] None (Some ?a) None ?r 2)"
    by (rule reach_message [where m = "Msg_Request (wy_req 1 1)" and ms = "[Msg_Idle [1] 1]"]) (simp_all add: wy_defs)
  then have "sys_reachable w_options (wy (wy_pool wy_conns1 [([1], 1)] 2 1 [0]) [] [wy_req 1 1] [] None (Some ?a) None ?r 2)"
    by (rule reach_message [where m = "Msg_Idle [1] 1" and ms = "[]"]) (simp_all add: wy_defs)
  then show ?thesis
    by (rule reach_select [where c = 0 and a = ?a and r = "wy_recv (wy_req 1 1)"]) (simp_all add: wy_conn_defs del: conn_step.simps)
qed

text \<open>(C38) The limit does not bound the connections in use: a pool of one connection can reach a state in
  which two connections, to different peers, are open and leased at the same time. The connection that
  was evicted to make room was in use, because its \<open>Idle\<close> message was handled after the request that
  leased it again; eviction drops the slot and leaves the connection open.\<close>

theorem connection_limit_exceeded:
  "\<exists>st a b. sys_reachable w_options st \<and> max_connections w_options = 1 \<and>
     ps_actors st 0 = Some a \<and> ca_running a \<and> ca_connected a \<and> 0 < ca_count a \<and>
     ps_actors st 1 = Some b \<and> ca_running b \<and> ca_connected b \<and> 0 < ca_count b \<and> ca_node_id a \<noteq> ca_node_id b"
proof -
  let ?r = "[(wy_req 1 0, Some (Inr ([1], 1))), (wy_req 1 1, Some (Inr ([1], 1)))]"
  let ?a = "wy_actor 1 1 1 False (7 + from_secs 10)" and ?b = "wy_actor 2 2 0 False 0"
  let ?p = "wy_pool wy_conns1 [([1], 1)] 2 1 [0]" and ?q = "wy_pool wy_conns2 [] 3 2 [0, 1]"
  have "sys_reachable w_options (wy ?p [Msg_Request (wy_req 2 2)] [] [] None (Some ?a) None ?r 3)"
    using reach_request [OF wy_stale_idle, of 2] by (simp add: POOL_CHANNEL_CAPACITY_def numeral_3_eq_3 numeral_2_eq_2)
  then have "sys_reachable w_options (wy ?q [] [] [wy_req 2 2] (Some ([2], 2)) (Some ?a) None ?r 3)"
    by (rule reach_message [where m = "Msg_Request (wy_req 2 2)" and ms = "[]"]) (simp_all add: wy_defs numeral_2_eq_2)
  then have "sys_reachable w_options (wy ?q [] [] [wy_req 2 2] (Some ([2], 2)) (Some ?a) (Some ?b) ?r 3)"
    by (rule reach_connect [where c = 1 and i = "[2]" and g = 2]) (simp_all add: wy_conn_defs)
  then have "sys_reachable w_options (wy ?q [] [] [] (Some ([2], 2)) (Some ?a) (Some (wy_actor 2 2 1 False 0))
      (?r @ [(wy_req 2 2, Some (Inr ([2], 2)))]) 3)"
    by (rule reach_select [where c = 1 and a = ?b and r = "wy_recv (wy_req 2 2)"])
       (simp_all add: wy_conn_defs del: conn_step.simps)
  then show ?thesis
    by (intro exI conjI) (assumption | simp add: w_options_def wy_actor_def)+
qed

section \<open>Witnesses\<close>

definition wy_leased_state :: pool_system where
  "wy_leased_state = wy (wy_pool wy_conns1 [] 2 1 [0]) [] [] [] None (Some (wy_actor 1 1 1 False 0)) None
     [(wy_req 1 0, Some (Inr ([1], 1)))] 1"

theorem handle_for_asked_peer_witness:
  "\<exists>c a. ps_actors wy_leased_state c = Some a \<and> ca_connected a \<and> ca_node_id a = [1] \<and> ca_generation a = 1"
  using handle_for_asked_peer [OF wy_leased, of "wy_req 1 0" "[1]" 1]
  by (simp add: wy_leased_state_def wy_req_def)

theorem requests_conserved_witness:
  "image_mset req_tx (whereabouts wy_leased_state) = {#0#} \<and>
   distinct (map (\<lambda>(req, _). req_tx req) (ps_replies wy_leased_state))"
  using requests_conserved [OF wy_leased] by (simp add: wy_leased_state_def)

text \<open>The first request still waits in the mailbox of a connection that is being set up.\<close>

theorem request_answerable_witness:
  "\<exists>st' req. sys_step\<^sup>*\<^sup>* (wy (wy_pool wy_conns1 [] 2 1 [0]) [] [wy_req 1 0] [] None None None [] 1) st' \<and>
     req \<in> set (map fst (ps_replies st')) \<and> req_tx req = 0"
  by (rule request_answerable [OF wy_first]) simp_all

end
