(* ===== verification/Pool_Ledger.thy ===== *)
theory Pool_Ledger
  imports Pool_Runs
begin

text \<open>
  What the pool of \<^verbatim>\<open>src/pool.rs\<close> promises to its callers, as an abstract machine, and that the pool keeps the
  promise: a ledger of open requests and given answers. The ledger knows nothing of actors, mailboxes,
  generations, evictions or shutdown; every run of the whole pool (theory \<open>Pool_System\<close>) is a run of the
  ledger. The second half says what a state of the whole pool looks like, whatever was done to it.
\<close>

section \<open>The specification\<close>

record ledger =
  lg_next :: nat
  lg_open :: "request_msg multiset"
  lg_answers :: "(request_msg \<times> reply) list"

definition ledger_new :: ledger where
  "ledger_new = \<lparr>lg_next = 0, lg_open = {#}, lg_answers = []\<rparr>"

text \<open>A request may be refused or dropped, but a handle is one to the peer that was asked for.\<close>

definition may_answer :: "request_msg \<Rightarrow> reply \<Rightarrow> bool" where
  "may_answer req r \<longleftrightarrow> (case r of Some (Inr (i, g)) \<Rightarrow> i = req_id req | _ \<Rightarrow> True)"

inductive ledger_step :: "ledger \<Rightarrow> ledger \<Rightarrow> bool" where
  issue: "ledger_step l (l\<lparr>lg_next := Suc (lg_next l),
     lg_open := add_mset \<lparr>req_id = i, req_tx = lg_next l\<rparr> (lg_open l)\<rparr>)"
| answer: "req \<in># lg_open l \<Longrightarrow> may_answer req r \<Longrightarrow>
     ledger_step l (l\<lparr>lg_open := lg_open l - {#req#}, lg_answers := lg_answers l @ [(req, r)]\<rparr>)"

definition ledger_of :: "pool_system \<Rightarrow> ledger" where
  "ledger_of st =
     \<lparr>lg_next = ps_issued st,
      lg_open = mset (requests_of (ps_queue st)) + in_mail (pa_channels (ps_pool st)) (ps_mail st),
      lg_answers = ps_replies st\<rparr>"

lemma whereabouts_ledger: "whereabouts st = lg_open (ledger_of st) + mset (map fst (lg_answers (ledger_of st)))"
  by (simp add: whereabouts_def ledger_of_def)

text \<open>Several answers at once, as when an actor that returns drops its mailbox.\<close>

lemma ledger_answers:
  assumes "\<And>req r. (req, r) \<in> set new \<Longrightarrow> may_answer req r"
  shows "ledger_step\<^sup>*\<^sup>* \<lparr>lg_next = n, lg_open = M + mset (map fst new), lg_answers = as\<rparr>
    \<lparr>lg_next = n, lg_open = M, lg_answers = as @ new\<rparr>"
  using assms
proof (induction new arbitrary: as)
  case (Cons x new)
  obtain req r where x: "x = (req, r)" by (cases x)
  let ?l = "\<lparr>lg_next = n, lg_open = M + mset (map fst (x # new)), lg_answers = as\<rparr>"
  have "ledger_step ?l (?l\<lparr>lg_open := lg_open ?l - {#req#}, lg_answers := lg_answers ?l @ [(req, r)]\<rparr>)"
    using Cons.prems by (intro ledger_step.answer) (simp_all add: x)
  then have "ledger_step ?l \<lparr>lg_next = n, lg_open = M + mset (map fst new), lg_answers = as @ [x]\<rparr>" by (simp add: x)
  with Cons.IH [of "as @ [x]"] Cons.prems show ?case by (auto intro: converse_rtranclp_into_rtranclp)
qed simp

section \<open>The pool keeps it\<close>

text \<open>Answers are final: a step only adds to them.\<close>

lemma apply_effects_replies: "\<exists>new. ps_replies (foldl apply_effect st es) = ps_replies st @ new"
proof (induction es arbitrary: st)
  case (Cons e es)
  from Cons [of "apply_effect st e"] show ?case by (cases e) auto
qed simp

lemma apply_conn_effects_append: "\<exists>new. ps_replies (foldl apply_conn_effect st es) = ps_replies st @ new"
proof (induction es arbitrary: st)
  case (Cons e es)
  from Cons [of "apply_conn_effect st e"] show ?case by (cases e) (auto split: if_splits)
qed simp

lemma sys_step_replies: "sys_step st st' \<Longrightarrow> \<exists>new. ps_replies st' = ps_replies st @ new"
proof (induction rule: sys_step.induct)
  case (pool_message st m ms send_fails)
  show ?case
    using apply_effects_replies [of "st\<lparr>ps_queue := ms, ps_pool := _\<rparr>"]
    by (simp add: pool_receives_def split: prod.split)
next
  case (connect st c i g outcome)
  show ?case
    using apply_conn_effects_append [of "st\<lparr>ps_actors := (ps_actors st)(c \<mapsto> _)\<rparr>"]
    by (simp add: conn_connects_def split: prod.split)
next
  case (select st c a r)
  obtain a' effs where step: "conn_step a (Select r) = (a', effs)" by fastforce
  let ?mail = "if select_branch a r = Some BranchRecv then tl (ps_mail st c) else ps_mail st c"
  from apply_conn_effects_append [of "st\<lparr>ps_actors := (ps_actors st)(c \<mapsto> a'), ps_mail := (ps_mail st)(c := ?mail)\<rparr>" effs]
  show ?case by (auto simp: conn_selects_def step drop_mailbox_def Let_def simp del: conn_step.simps)
qed (auto simp: drop_queue_def)

lemma sys_step_ledger:
  assumes "sys_inv st" and "sys_step st st'"
  shows "ledger_step\<^sup>*\<^sup>* (ledger_of st) (ledger_of st')"
proof -
  from sys_step_replies [OF assms(2)] obtain new where new: "ps_replies st' = ps_replies st @ new" by blast
  have "replies_ok st'" using sys_step_inv [OF assms(2,1)] by (simp add: sys_inv_def)
  then have may: "may_answer req r" if "(req, r) \<in> set new" for req r
    using that new by (auto simp: replies_ok_def may_answer_def split: option.split sum.split)
  let ?l = "ledger_of st" and ?l' = "ledger_of st'"
  have answers: "lg_answers ?l' = lg_answers ?l @ new" by (simp add: ledger_of_def new)
  have fin: "ledger_step\<^sup>*\<^sup>* \<lparr>lg_next = lg_next ?l', lg_open = lg_open ?l' + mset (map fst new), lg_answers = lg_answers ?l\<rparr> ?l'"
    using ledger_answers [OF may, of new "lg_next ?l'" "lg_open ?l'" "lg_answers ?l"]
    unfolding answers [symmetric] by (simp add: ledger_of_def)
  from sys_step_whereabouts [OF assms(2,1)] consider
      "lg_next ?l' = lg_next ?l" "lg_open ?l = lg_open ?l' + mset (map fst new)"
    | i where "lg_next ?l' = Suc (lg_next ?l)"
        "add_mset \<lparr>req_id = i, req_tx = lg_next ?l\<rparr> (lg_open ?l) = lg_open ?l' + mset (map fst new)"
  proof (elim disjE conjE exE)
    assume "ps_issued st' = ps_issued st" "whereabouts st' = whereabouts st"
    then show ?thesis using that(1) unfolding whereabouts_ledger answers by (simp add: ledger_of_def new ac_simps)
  next
    fix i
    assume "ps_issued st' = Suc (ps_issued st)"
      "whereabouts st' = add_mset \<lparr>req_id = i, req_tx = ps_issued st\<rparr> (whereabouts st)"
    then show ?thesis using that(2) [of i] unfolding whereabouts_ledger answers by (simp add: ledger_of_def new ac_simps)
  qed
  then show ?thesis
  proof cases
    case 1
    then have "?l = \<lparr>lg_next = lg_next ?l', lg_open = lg_open ?l' + mset (map fst new), lg_answers = lg_answers ?l\<rparr>"
      by (intro ledger.equality) simp_all
    with fin show ?thesis by metis
  next
    case (2 i)
    have "?l\<lparr>lg_next := Suc (lg_next ?l), lg_open := add_mset \<lparr>req_id = i, req_tx = lg_next ?l\<rparr> (lg_open ?l)\<rparr> =
        \<lparr>lg_next = lg_next ?l', lg_open = lg_open ?l' + mset (map fst new), lg_answers = lg_answers ?l\<rparr>"
      unfolding 2 by (intro ledger.equality) simp_all
    then have "ledger_step ?l
        \<lparr>lg_next = lg_next ?l', lg_open = lg_open ?l' + mset (map fst new), lg_answers = lg_answers ?l\<rparr>"
      using ledger_step.issue [of ?l i] by simp
    from converse_rtranclp_into_rtranclp [of ledger_step, OF this fin] show ?thesis .
  qed
qed

text \<open>The contract of a refinement, once for every system that has one.\<close>

interpretation pool_ledger: refinement sys_step ledger_step ledger_of sys_inv
  by unfold_locales (auto intro: sys_step_inv sys_step_ledger)

section \<open>Well-formed states\<close>

text \<open>Every reference in a state of the pool leads somewhere and every number says what it should: the
  pool actor's own invariant; a slot names a mailbox that was made for the very peer and generation; so
  do an actor and a request that waits; a generation is the number of the mailbox; no mailbox
  overflows.\<close>

definition well_formed :: "pool_system \<Rightarrow> bool" where
  "well_formed st \<longleftrightarrow> pool_inv (ps_pool st) \<and> slots_spawned st \<and> actors_ok st \<and>
     (\<forall>c i g. ps_spawned st c = Some (i, g) \<longrightarrow> g = generation_of c) \<and>
     (\<forall>c. length (ps_mail st c) \<le> CONNECTION_CHANNEL_CAPACITY)"

definition numbered :: "pool_system \<Rightarrow> bool" where
  "numbered st \<longleftrightarrow> pool_inv (ps_pool st) \<and> (\<forall>c i g. ps_spawned st c = Some (i, g) \<longrightarrow> g = generation_of c) \<and>
     (\<forall>c. length (ps_mail st c) \<le> CONNECTION_CHANNEL_CAPACITY)"

lemma numbered_pool_message:
  assumes "sys_inv st" and "numbered st"
  shows "numbered (pool_receives send_fails (st\<lparr>ps_queue := ms\<rparr>) m)"
proof -
  let ?env = "system_env (st\<lparr>ps_queue := ms\<rparr>) send_fails"
  obtain p effs where h: "handle ?env (ps_pool st) m = (p, effs)" by fastforce
  have inv: "pool_inv p" using handle_inv [of "ps_pool st" ?env m] assms(2) by (simp add: numbered_def h del: handle.simps)
  have num: "\<And>c i g. ps_spawned st c = Some (i, g) \<Longrightarrow> g = generation_of c"
      "\<And>c. length (ps_mail st c) \<le> CONNECTION_CHANNEL_CAPACITY" "slots_ok (ps_pool st)"
    using assms(2) by (simp_all add: numbered_def pool_inv_def)
  have "handled ?env (ps_pool st) m p effs"
    using handle_handled [of ?env "ps_pool st" m] by (simp add: h del: handle.simps)
  moreover have r: "pool_receives send_fails (st\<lparr>ps_queue := ms\<rparr>) m =
      foldl apply_effect (st\<lparr>ps_queue := ms, ps_pool := p\<rparr>) effs"
    by (simp add: pool_receives_def h del: handle.simps)
  ultimately show ?thesis
  proof cases
    case (reused req slot)
    then have "length (ps_mail st (slot_tx slot)) < CONNECTION_CHANNEL_CAPACITY"
      by (simp add: system_env_def split: if_splits)
    with reused inv num show ?thesis unfolding r by (auto simp: numbered_def)
  next
    case (started req g x)
    then have "g = generation_of (pa_channels (ps_pool st))" using num(3) by (simp add: grows_def slots_ok_def)
    with started inv num fresh_mail_empty [OF assms(1)] show ?thesis unfolding r
      by (auto simp: numbered_def CONNECTION_CHANNEL_CAPACITY_def split: if_splits)
  qed (use inv num in \<open>auto simp: numbered_def r\<close>)
qed

lemma sys_step_numbered:
  assumes "sys_step st st'" and "sys_inv st" and "numbered st"
  shows "numbered st'"
  using assms
proof cases
  case (pool_message m ms send_fails)
  with numbered_pool_message [OF assms(2,3)] show ?thesis by simp
next
  case (pool_joins c)
  with assms(3) show ?thesis by (cases "ps_status st") (simp_all add: numbered_def pool_inv_tasks)
next
  case (select c a r)
  have "length (tl (ps_mail st c)) \<le> CONNECTION_CHANNEL_CAPACITY"
    using assms(3) le_trans [OF diff_le_self] by (simp add: numbered_def)
  with assms(3) show ?thesis
    by (auto simp: select(1) conn_selects_def Let_def drop_mailbox_def numbered_def split: prod.split)
next
  case (connect c i g outcome)
  with assms(3) show ?thesis by (simp add: conn_connects_def numbered_def split: prod.split)
qed (auto simp: numbered_def stop_pool_inv drop_queue_def)

lemma sys_reachable_numbered: "sys_reachable options st \<Longrightarrow> numbered st"
proof (induction rule: sys_reachable.induct)
  case start
  show ?case by (simp add: pool_system_new_def numbered_def pool_inv_new)
next
  case (step st st')
  then show ?case using sys_step_numbered sys_reachable_inv by blast
qed

lemma reachable_steps: "sys_reachable options st \<Longrightarrow> sys_step\<^sup>*\<^sup>* (pool_system_new options) st"
  by (induction rule: sys_reachable.induct) (auto intro: rtranclp.rtrancl_into_rtrancl)

section \<open>Properties\<close>

text \<open>(C5) The pool as a whole implements its specification: every run of actors, mailboxes, callers and
  shutdown is, seen through \<open>ledger_of\<close>, a run of the ledger, in which a request is opened with a fresh
  number, stays open until it is answered, is answered once and for good, and gets no handle to
  another peer.\<close>

theorem pool_refines_ledger:
  assumes "sys_reachable options st" and "sys_step\<^sup>*\<^sup>* st st'"
  shows "ledger_of (pool_system_new options) = ledger_new \<and> ledger_step\<^sup>*\<^sup>* (ledger_of st) (ledger_of st')"
proof
  show "ledger_of (pool_system_new options) = ledger_new"
    by (simp add: ledger_of_def ledger_new_def pool_system_new_def pool_actor_new_def in_mail_def)
  show "ledger_step\<^sup>*\<^sup>* (ledger_of st) (ledger_of st')"
    using pool_ledger.steps_refine [OF assms(2) sys_reachable_inv [OF assms(1)]] by blast
qed

text \<open>(C18) Every reachable state of the whole pool is well-formed, and in consequence a generation
  identifies a connection: two connection actors with the same generation are one and the same unless
  2 to the 64 connections were opened between them.\<close>

theorem pool_system_well_formed:
  assumes "sys_reachable options st"
  shows "well_formed st \<and>
    (\<forall>c d a b. ps_actors st c = Some a \<longrightarrow> ps_actors st d = Some b \<longrightarrow> ca_generation a = ca_generation b \<longrightarrow>
       c mod 2 ^ 64 = d mod 2 ^ 64)"
proof (intro conjI allI impI)
  have inv: "sys_inv st" and num: "numbered st"
    using sys_reachable_inv [OF assms] sys_reachable_numbered [OF assms] .
  then show "well_formed st" by (simp add: well_formed_def sys_inv_def numbered_def)
  fix c d a b
  assume a: "ps_actors st c = Some a" "ps_actors st d = Some b" and same: "ca_generation a = ca_generation b"
  from a inv have "ps_spawned st c = Some (ca_node_id a, ca_generation a)" "ps_spawned st d = Some (ca_node_id b, ca_generation b)"
    by (simp_all add: sys_inv_def actors_ok_def)
  with num same have "generation_of c = generation_of d" by (metis numbered_def)
  then show "c mod 2 ^ 64 = d mod 2 ^ 64" by (simp add: generation_of_def word_of_nat_eq_iff take_bit_eq_mod)
qed

section \<open>Witnesses\<close>

theorem pool_refines_ledger_witness:
  "ledger_step\<^sup>*\<^sup>* ledger_new (ledger_of wy_leased_state)"
  using pool_refines_ledger [OF sys_reachable.start reachable_steps [OF wy_leased]]
  unfolding wy_leased_state_def by metis

theorem pool_system_well_formed_witness: "well_formed wy_leased_state"
  using pool_system_well_formed [OF wy_leased] by (simp add: wy_leased_state_def)

end
