(* ===== verification/Pool_Lease.thy ===== *)
theory Pool_Lease
  imports Pool_Connection
begin

text \<open>
  \<^verbatim>\<open>src/pool.rs\<close>, leases: \<open>ConnectionCounter\<close>, \<open>OneConnection\<close> and the actor of one connection with every atomic access a
  step of its own. A permit is dropped in two accesses, the decrement and then, by whoever
  brought the counter to zero, \<open>notify_one\<close>; between them the actor and other holders may run. \<open>Notify\<close> is
  tokio's: \<open>notify_one\<close> leaves at most one stored permit, which the actor's \<open>notified()\<close> takes when its
  branch is chosen and which a branch not chosen leaves in place.
\<close>

section \<open>Definitions\<close>

text \<open>\<open>le_notify\<close> is the stored permit, \<open>le_notifying\<close> the number of holders between decrement and
  \<open>notify_one\<close>, \<open>le_leased\<close> records that a handle was ever given out, \<open>le_effects\<close> what the actor did last.\<close>

record lease_state =
  le_actor :: conn_actor
  le_notify :: bool
  le_notifying :: nat
  le_leased :: bool
  le_effects :: "conn_effect list"

definition counter_new :: "endpoint_id \<Rightarrow> u64 \<Rightarrow> duration \<Rightarrow> connect_outcome \<Rightarrow> bool \<Rightarrow> lease_state" where
  "counter_new i generation timeout outcome shutdown_closed =
     (case conn_start i generation timeout outcome shutdown_closed of
        (a, effs) \<Rightarrow> \<lparr>le_actor = a, le_notify = False, le_notifying = 0, le_leased = False, le_effects = effs\<rparr>)"

definition counter_current :: "lease_state \<Rightarrow> nat" where
  "counter_current st = ca_count (le_actor st)"

inductive lease_step :: "lease_state \<Rightarrow> lease_state \<Rightarrow> bool" where
  actor_round:
    "ca_running (le_actor st) \<Longrightarrow> rd_notified r = le_notify st \<Longrightarrow> recv_documented (le_actor st) (Select r) \<Longrightarrow>
     conn_step (le_actor st) (Select r) = (a, effs) \<Longrightarrow>
     lease_step st (st\<lparr>le_actor := a, le_effects := effs,
       le_notify := (le_notify st \<and> select_branch (le_actor st) r \<noteq> Some BranchNotified),
       le_leased := (le_leased st \<or> ca_count (le_actor st) < ca_count a)\<rparr>)"
| drop_decrement:
    "0 < counter_current st \<Longrightarrow> drop_one (le_actor st) = (a, was_last) \<Longrightarrow>
     lease_step st (st\<lparr>le_actor := a, le_notifying := le_notifying st + (if was_last then 1 else 0)\<rparr>)"
| drop_notify:
    "0 < le_notifying st \<Longrightarrow> lease_step st (st\<lparr>le_notify := True, le_notifying := le_notifying st - 1\<rparr>)"

inductive lease_reachable :: "lease_state \<Rightarrow> bool" where
  lease_init: "lease_reachable (counter_new i generation timeout outcome shutdown_closed)"
| lease_more: "lease_reachable st \<Longrightarrow> lease_step st st' \<Longrightarrow> lease_reachable st'"

section \<open>No wake-up is lost\<close>

definition wakes :: "lease_state \<Rightarrow> bool" where
  "wakes st \<longleftrightarrow> conn_inv (le_actor st) \<and> (le_leased st \<longrightarrow> ca_connected (le_actor st)) \<and>
     (ca_running (le_actor st) \<and> le_leased st \<and> ca_count (le_actor st) = 0 \<longrightarrow>
        le_notify st \<or> 0 < le_notifying st \<or> ca_idle_active (le_actor st))"

lemma wakes_round:
  assumes "wakes st" and "ca_running (le_actor st)" and "rd_notified r = le_notify st"
    and "conn_step (le_actor st) (Select r) = (a, effs)"
  shows "wakes (st\<lparr>le_actor := a, le_effects := effs,
    le_notify := (le_notify st \<and> select_branch (le_actor st) r \<noteq> Some BranchNotified),
    le_leased := (le_leased st \<or> ca_count (le_actor st) < ca_count a)\<rparr>)"
proof -
  have "conn_inv a" using conn.step_inv [of "le_actor st" "Select r"] assms(1,4) by (simp add: wakes_def)
  moreover have "ca_connected a = ca_connected (le_actor st)"
    using conn_step_identity [of "le_actor st" "Select r"] assms(4) by (simp add: same_identity_def)
  moreover from assms have "ca_connected (le_actor st)" if "ca_count (le_actor st) < ca_count a"
    using that by (auto simp: select_branch_def conn_defs Let_def split: if_splits recv_result.splits)
  moreover from assms have "(le_notify st \<and> select_branch (le_actor st) r \<noteq> Some BranchNotified) \<or>
      0 < le_notifying st \<or> ca_idle_active a"
    if "ca_running a" "ca_count a = 0" "le_leased st \<or> ca_count (le_actor st) < ca_count a"
    using that by (auto simp: wakes_def select_branch_def conn_defs Let_def split: if_splits recv_result.splits)
  ultimately show ?thesis using assms(1) by (auto simp: wakes_def)
qed

lemma lease_step_wakes:
  assumes "lease_step st st'" and "wakes st"
  shows "wakes st'"
  using assms
proof (cases rule: lease_step.cases)
  case (actor_round r a effs)
  with assms(2) show ?thesis by (simp add: wakes_round)
next
  case (drop_decrement a was_last)
  with assms(2) show ?thesis
    by (auto simp: wakes_def drop_one_def counter_current_def conn_inv_def)
next
  case drop_notify
  with assms(2) show ?thesis by (simp add: wakes_def)
qed

lemma counter_new_wakes: "wakes (counter_new i generation timeout outcome shutdown_closed)"
proof -
  obtain a effs where start: "conn_start i generation timeout outcome shutdown_closed = (a, effs)" by force
  then have "conn_inv a" using conn_start_inv [of i generation timeout outcome shutdown_closed] by simp
  with start show ?thesis by (simp add: counter_new_def wakes_def)
qed

lemma lease_reachable_wakes: "lease_reachable st \<Longrightarrow> wakes st"
  by (induction rule: lease_reachable.induct) (auto intro: counter_new_wakes lease_step_wakes)

section \<open>When nobody asks any more\<close>

text \<open>The next step when no request, no shutdown and no close arrives: the holders that brought the counter to
  zero notify, then the actor makes its rounds at time \<open>now\<close>, its idle timer having run out when armed.\<close>

definition quiet_readiness :: "nat \<Rightarrow> bool \<Rightarrow> readiness" where
  "quiet_readiness now notified =
     \<lparr>rd_shutdown = False, rd_conn_closed = False, rd_recv = RecvPending, rd_close_reason = False, rd_notified = notified,
      rd_idle_elapsed = True, rd_now = now\<rparr>"

definition quiet_next :: "nat \<Rightarrow> lease_state \<Rightarrow> lease_state" where
  "quiet_next now st =
     (if 0 < le_notifying st then st\<lparr>le_notify := True, le_notifying := le_notifying st - 1\<rparr>
      else (let r = quiet_readiness now (le_notify st)
            in case conn_step (le_actor st) (Select r) of
                 (a, effs) \<Rightarrow> st\<lparr>le_actor := a, le_effects := effs,
                   le_notify := (le_notify st \<and> select_branch (le_actor st) r \<noteq> Some BranchNotified),
                   le_leased := (le_leased st \<or> ca_count (le_actor st) < ca_count a)\<rparr>))"

lemma quiet_next_step:
  assumes "ca_running (le_actor st)"
  shows "lease_step st (quiet_next now st)"
proof (cases "0 < le_notifying st")
  case True
  then show ?thesis using drop_notify [OF True] by (simp add: quiet_next_def)
next
  case False
  obtain a effs where step: "conn_step (le_actor st) (Select (quiet_readiness now (le_notify st))) = (a, effs)" by force
  have "lease_step st (st\<lparr>le_actor := a, le_effects := effs,
      le_notify := (le_notify st \<and> select_branch (le_actor st) (quiet_readiness now (le_notify st)) \<noteq> Some BranchNotified),
      le_leased := (le_leased st \<or> ca_count (le_actor st) < ca_count a)\<rparr>)"
    by (rule actor_round [OF assms _ _ step]) (simp_all add: quiet_readiness_def)
  with False step show ?thesis by (simp add: quiet_next_def Let_def del: conn_step.simps)
qed

text \<open>The end: the actor stopped and closed the connection as idle.\<close>

definition closed_idle :: "lease_state \<Rightarrow> bool" where
  "closed_idle st \<longleftrightarrow> \<not> ca_running (le_actor st) \<and> CloseConnection ''idle'' \<in> set (le_effects st)"

definition quiet_closes :: "nat \<Rightarrow> lease_state \<Rightarrow> nat \<Rightarrow> bool" where
  "quiet_closes now st k \<longleftrightarrow>
     closed_idle ((quiet_next now ^^ k) st) \<and>
     (\<forall>j < k. lease_step ((quiet_next now ^^ j) st) ((quiet_next now ^^ Suc j) st))"

lemma quiet_closes_Suc:
  assumes "ca_running (le_actor st)" and "quiet_closes now (quiet_next now st) k"
  shows "quiet_closes now st (Suc k)"
proof -
  have shift: "(quiet_next now ^^ Suc j) st = (quiet_next now ^^ j) (quiet_next now st)" for j
    by (simp add: funpow_swap1)
  have "lease_step ((quiet_next now ^^ j) st) ((quiet_next now ^^ Suc j) st)" if "j < Suc k" for j
  proof (cases j)
    case 0
    then show ?thesis using quiet_next_step [OF assms(1)] by simp
  next
    case (Suc i)
    then show ?thesis using assms(2) that shift [of i] shift [of "Suc i"] by (simp add: quiet_closes_def del: funpow.simps)
  qed
  then show ?thesis using assms(2) shift [of k] by (simp add: quiet_closes_def del: funpow.simps)
qed

lemma quiet_armed:
  assumes "ca_running (le_actor st)" and "ca_idle_active (le_actor st)" and "ca_connected (le_actor st)"
    and "ca_count (le_actor st) = 0" and "le_notifying st = 0" and "\<not> le_notify st"
  shows "quiet_closes now st 1"
  using assms quiet_next_step [OF assms(1), of now]
  by (simp add: quiet_closes_def closed_idle_def quiet_next_def quiet_readiness_def select_branch_def conn_defs Let_def)

lemma quiet_notified:
  assumes "ca_running (le_actor st)" and "ca_connected (le_actor st)" and "ca_count (le_actor st) = 0"
    and "le_notifying st = 0" and "le_notify st"
  shows "quiet_closes now st 1 \<or> quiet_closes now st 2"
proof (cases "ca_shutdown_pending (le_actor st)")
  case True
  with assms quiet_next_step [OF assms(1), of now] show ?thesis
    by (simp add: quiet_closes_def closed_idle_def quiet_next_def quiet_readiness_def select_branch_def conn_defs Let_def)
next
  case False
  have "quiet_closes now (quiet_next now st) 1"
    by (rule quiet_armed) (use assms False in
      \<open>simp_all add: quiet_next_def quiet_readiness_def select_branch_def conn_defs Let_def\<close>)
  from quiet_closes_Suc [OF assms(1) this] show ?thesis by (simp add: numeral_2_eq_2)
qed

lemma quiet_run:
  assumes "ca_running (le_actor st)" and "ca_connected (le_actor st)" and "ca_count (le_actor st) = 0"
    and "le_notify st \<or> 0 < le_notifying st \<or> ca_idle_active (le_actor st)"
  shows "\<exists>k \<le> le_notifying st + 2. quiet_closes now st k"
  using assms
proof (induction "le_notifying st" arbitrary: st)
  case 0
  show ?case
  proof (cases "le_notify st")
    case True
    with 0 quiet_notified [of st now] show ?thesis by (metis add_0 one_le_numeral order_refl)
  next
    case False
    with 0 quiet_armed [of st now] show ?thesis by (metis add_0 one_le_numeral not_less0)
  qed
next
  case (Suc n)
  let ?st = "quiet_next now st"
  have "n = le_notifying ?st" "ca_running (le_actor ?st)" "ca_connected (le_actor ?st)" "ca_count (le_actor ?st) = 0"
      "le_notify ?st \<or> 0 < le_notifying ?st \<or> ca_idle_active (le_actor ?st)"
    using Suc(2-) by (simp_all add: quiet_next_def flip: Suc(2))
  from Suc(1) [OF this] obtain k where "k \<le> n + 2" "quiet_closes now ?st k"
    using \<open>n = le_notifying ?st\<close> by metis
  with quiet_closes_Suc [OF Suc(3) this(2)] Suc(2) show ?case by (intro exI [of _ "Suc k"]) simp
qed

section \<open>Properties\<close>

text \<open>(C9) No wake-up is lost: however the decrements and notifications of dropped handles interleave with the
  rounds of the actor, once the last handle of a connection is gone the actor's timer is armed or it
  will be woken, and when nobody asks for the peer any more the notifications under way and at most
  two rounds of the actor close the connection as idle.\<close>

theorem unleased_connection_closes:
  assumes "lease_reachable st" and "ca_running (le_actor st)" and "le_leased st" and "counter_current st = 0"
  shows "(le_notify st \<or> 0 < le_notifying st \<or> ca_idle_active (le_actor st)) \<and>
    (\<exists>k \<le> le_notifying st + 2. closed_idle ((quiet_next now ^^ k) st) \<and>
       (\<forall>j < k. lease_step ((quiet_next now ^^ j) st) ((quiet_next now ^^ Suc j) st)))"
proof -
  from lease_reachable_wakes [OF assms(1)] assms(2-4) have
    wake: "le_notify st \<or> 0 < le_notifying st \<or> ca_idle_active (le_actor st)" and con: "ca_connected (le_actor st)"
    by (simp_all add: wakes_def counter_current_def)
  from quiet_run [OF assms(2) con _ wake, of now] assms(4) wake show ?thesis
    by (simp add: counter_current_def quiet_closes_def)
qed

section \<open>Witnesses\<close>

text \<open>A connection is leased once and the handle dropped; the holder has not notified yet.\<close>

definition wz_actor :: "nat \<Rightarrow> conn_actor" where
  "wz_actor n = (wc_start ConnectOk False)\<lparr>ca_count := n\<rparr>"

definition wz_state :: lease_state where
  "wz_state = \<lparr>le_actor = wz_actor 0, le_notify = False, le_notifying = 1, le_leased = True, le_effects = [ReplyRef wc_req [1] 1]\<rparr>"

lemma wz_reachable: "lease_reachable wz_state"
proof -
  let ?st0 = "\<lparr>le_actor = wz_actor 0, le_notify = False, le_notifying = 0, le_leased = False, le_effects = []\<rparr>"
  let ?st1 = "\<lparr>le_actor = wz_actor 1, le_notify = False, le_notifying = 0, le_leased = True, le_effects = [ReplyRef wc_req [1] 1]\<rparr>"
  have start: "?st0 = counter_new [1] 1 10 ConnectOk False"
    by (simp add: counter_new_def wz_actor_def wc_start_def conn_start_def)
  have r0: "lease_reachable ?st0" unfolding start by (rule lease_init)
  have "conn_step (wz_actor 0) (Select wc_asked) = (wz_actor 1, [ReplyRef wc_req [1] 1])"
    by (simp add: wz_actor_def wc_defs conn_defs)
  then have "lease_step ?st0 ?st1"
    using actor_round [of ?st0 wc_asked "wz_actor 1" "[ReplyRef wc_req [1] 1]"] by (simp add: wz_actor_def wc_defs)
  with r0 have r1: "lease_reachable ?st1" by (rule lease_more)
  have "lease_step ?st1 wz_state"
    using drop_decrement [of ?st1 "wz_actor 0" True] by (simp add: counter_current_def wz_actor_def drop_one_def wz_state_def)
  with r1 show ?thesis by (rule lease_more)
qed

theorem unleased_connection_closes_witness:
  "\<exists>k. k \<le> 3 \<and> closed_idle ((quiet_next 0 ^^ k) wz_state)"
proof -
  have "ca_running (le_actor wz_state)" "le_leased wz_state" "counter_current wz_state = 0"
    by (simp_all add: wz_state_def wz_actor_def counter_current_def wc_start_def conn_start_def)
  from unleased_connection_closes [OF wz_reachable this, of 0] obtain k where
    "k \<le> le_notifying wz_state + 2" "closed_idle ((quiet_next 0 ^^ k) wz_state)" by blast
  moreover have "le_notifying wz_state + 2 = 3" by (simp add: wz_state_def)
  ultimately show ?thesis by (metis (no_types))
qed

end
