(* ===== verification/Dht.thy ===== *)
theory Dht
  imports Prelude
begin

text \<open>
  \<^verbatim>\<open>src/swarm/dht/mod.rs\<close>: the key and the salt of a shard bucket, the choice of the shards a node
  publishes into, and the clock in minutes. SHA-256 is third-party code, the parameter \<open>sha\<close>; a
  mainline signing key is named by the 32 bytes it is made from.
\<close>

section \<open>Definitions\<close>

definition DHT_SHARD_COUNT :: u8 where
  "DHT_SHARD_COUNT = 16"

definition DHT_REPLICA_COUNT :: nat where
  "DHT_REPLICA_COUNT = 2"

definition DHT_PUBLISH_RETRIES :: nat where
  "DHT_PUBLISH_RETRIES = 4"

definition DHT_AD_TTL_SECS :: u64 where
  "DHT_AD_TTL_SECS = 120"

definition DHT_QUERY_CONCURRENCY :: nat where
  "DHT_QUERY_CONCURRENCY = 4"

text \<open>\<open>u64::to_le_bytes\<close>: eight bytes, the least significant first.\<close>

definition to_le_bytes :: "u64 \<Rightarrow> bytes" where
  "to_le_bytes w = map (\<lambda>i. ucast (drop_bit (8 * i) w)) [0 ..< 8]"

definition key_preimage :: "bytes \<Rightarrow> u64 \<Rightarrow> u8 \<Rightarrow> bytes" where
  "key_preimage alpn minute shard =
     into_bytes ''tonic-iroh-transport:dht:key:v2:'' @ alpn @ to_le_bytes minute @ [shard]"

definition salt_preimage :: "bytes \<Rightarrow> u64 \<Rightarrow> u8 \<Rightarrow> bytes" where
  "salt_preimage alpn minute shard =
     into_bytes ''tonic-iroh-transport:dht:salt:v2:'' @ alpn @ to_le_bytes minute @ [shard]"

definition derive_signing_key :: "(bytes \<Rightarrow> bytes) \<Rightarrow> bytes \<Rightarrow> u64 \<Rightarrow> u8 \<Rightarrow> bytes" where
  "derive_signing_key sha alpn minute shard = sha (key_preimage alpn minute shard)"

definition derive_salt :: "(bytes \<Rightarrow> bytes) \<Rightarrow> bytes \<Rightarrow> u64 \<Rightarrow> u8 \<Rightarrow> bytes" where
  "derive_salt sha alpn minute shard = sha (salt_preimage alpn minute shard)"

definition shard_rank :: "(bytes \<Rightarrow> bytes) \<Rightarrow> bytes \<Rightarrow> bytes \<Rightarrow> u8 \<Rightarrow> bytes \<times> u8" where
  "shard_rank sha node alpn shard =
     (sha (into_bytes ''tonic-iroh-transport:dht:shards:v3:'' @ node @ alpn @ [shard]), shard)"

text \<open>The range \<open>0..shard_count\<close>, ranked, sorted by hash then shard, cut to the replica count.\<close>

definition replica_shards_with_limits :: "(bytes \<Rightarrow> bytes) \<Rightarrow> bytes \<Rightarrow> bytes \<Rightarrow> u8 \<Rightarrow> nat \<Rightarrow> u8 list" where
  "replica_shards_with_limits sha node alpn shard_count replica_count =
     (let replica_count = min replica_count (unat shard_count);
          ranked_shards = map (\<lambda>n. shard_rank sha node alpn (word_of_nat n)) [0 ..< unat shard_count]
      in map snd (take replica_count (sort ranked_shards)))"

definition replica_shards :: "(bytes \<Rightarrow> bytes) \<Rightarrow> bytes \<Rightarrow> bytes \<Rightarrow> u8 list" where
  "replica_shards sha node alpn =
     replica_shards_with_limits sha node alpn DHT_SHARD_COUNT DHT_REPLICA_COUNT"

text \<open>\<open>i64::unsigned_abs\<close>: the absolute value always fits the unsigned type.\<close>

definition unsigned_abs :: "u64 \<Rightarrow> u64" where
  "unsigned_abs offset = word_of_int \<bar>sint offset\<bar>"

definition apply_minute_offset :: "u64 \<Rightarrow> u64 \<Rightarrow> u64" where
  "apply_minute_offset minute offset =
     (if 0 \<le> sint offset then saturating_add minute (unsigned_abs offset)
      else saturating_sub minute (unsigned_abs offset))"

text \<open>The clock: seconds since the epoch, or \<open>None\<close> before it, where \<open>unix_minute\<close> panics.\<close>

definition unix_minute :: "u64 option \<Rightarrow> u64 \<Rightarrow> u64 option" where
  "unix_minute now offset = map_option (\<lambda>secs. apply_minute_offset (secs div 60) offset) now"

section \<open>Keys and salts\<close>

lemma length_to_le_bytes [simp]: "length (to_le_bytes w) = 8"
  by (simp add: to_le_bytes_def)

lemma to_le_bytes_eq_iff [simp]: "to_le_bytes v = to_le_bytes w \<longleftrightarrow> v = w"
proof
  assume eq: "to_le_bytes v = to_le_bytes w"
  show "v = w"
  proof (rule bit_word_eqI)
    fix n assume n: "n < LENGTH(64)"
    then have "n div 8 < 8" by simp
    then have "(ucast (drop_bit (8 * (n div 8)) v) :: u8) = ucast (drop_bit (8 * (n div 8)) w)"
      using arg_cong [OF eq, of "\<lambda>l. l ! (n div 8)"] by (simp add: to_le_bytes_def)
    then have "bit (ucast (drop_bit (8 * (n div 8)) v) :: u8) (n mod 8) =
        bit (ucast (drop_bit (8 * (n div 8)) w) :: u8) (n mod 8)" by simp
    moreover have "8 * (n div 8) + n mod 8 = n" by simp
    ultimately show "bit v n = bit w n" by (simp add: bit_unsigned_iff bit_drop_bit_eq)
  qed
qed simp

text \<open>The last nine bytes have fixed length, so the service name in front is determined.\<close>

lemma tail_inj:
  "a @ to_le_bytes m @ [s] = a' @ to_le_bytes m' @ [s'] \<longleftrightarrow> a = a' \<and> m = m' \<and> s = s'"
  using append_eq_append_conv [of a a' "to_le_bytes m @ [s]" "to_le_bytes m' @ [s']"]
  by (auto dest: arg_cong [where f = length])

lemma key_preimage_eq_iff:
  "key_preimage a m s = key_preimage a' m' s' \<longleftrightarrow> a = a' \<and> m = m' \<and> s = s'"
  unfolding key_preimage_def same_append_eq by (rule tail_inj)

lemma salt_preimage_eq_iff:
  "salt_preimage a m s = salt_preimage a' m' s' \<longleftrightarrow> a = a' \<and> m = m' \<and> s = s'"
  unfolding salt_preimage_def same_append_eq by (rule tail_inj)

lemma key_not_salt_preimage: "key_preimage a m s \<noteq> salt_preimage a' m' s'"
  by (simp add: key_preimage_def salt_preimage_def into_bytes_def)

section \<open>Choosing by rank\<close>

text \<open>An element is among the first \<open>r\<close> of a sorted list exactly when fewer than \<open>r\<close> precede it.\<close>

lemma sorted_take_iff:
  fixes xs :: "'a::linorder list"
  assumes "sorted xs" and "distinct xs" and "x \<in> set xs"
  shows "x \<in> set (take r xs) \<longleftrightarrow> card {y \<in> set xs. y < x} < r"
proof -
  obtain i where i: "i < length xs" "x = xs ! i" using assms(3) by (auto simp: in_set_conv_nth)
  have less: "xs ! j < xs ! i \<longleftrightarrow> j < i" if "j < length xs" for j
    using assms(1,2) i(1) that
    by (metis le_less linorder_not_le nth_eq_iff_index_eq sorted_nth_mono)
  have "{y \<in> set xs. y < x} = (!) xs ` {..< i}"
    using i less by (auto simp: in_set_conv_nth) (metis order.strict_trans)
  moreover have "inj_on ((!) xs) {..< i}"
    using assms(2) i(1) by (auto simp: inj_on_def nth_eq_iff_index_eq)
  ultimately have c: "card {y \<in> set xs. y < x} = i" by (simp add: card_image)
  have "x \<in> set (take r xs) \<longleftrightarrow> i < r"
    using i assms(2) by (auto simp: in_set_conv_nth nth_eq_iff_index_eq)
  then show ?thesis by (simp add: c)
qed

definition all_ranks :: "(bytes \<Rightarrow> bytes) \<Rightarrow> bytes \<Rightarrow> bytes \<Rightarrow> nat \<Rightarrow> (bytes \<times> u8) set" where
  "all_ranks sha node alpn n = (\<lambda>k. shard_rank sha node alpn (word_of_nat k)) ` {..< n}"

lemma all_ranks_Suc:
  "all_ranks sha node alpn (Suc n) = insert (shard_rank sha node alpn (word_of_nat n)) (all_ranks sha node alpn n)"
  by (auto simp: all_ranks_def lessThan_Suc)

lemma snd_shard_rank [simp]: "snd (shard_rank sha node alpn s) = s"
  by (simp add: shard_rank_def)

lemma shard_rank_eq_iff [simp]: "shard_rank sha node alpn s = shard_rank sha node alpn t \<longleftrightarrow> s = t"
  by (auto simp: shard_rank_def)

lemma word_of_nat_u8_eq: "m < 256 \<Longrightarrow> n < 256 \<Longrightarrow> (word_of_nat m :: u8) = word_of_nat n \<longleftrightarrow> m = n"
  by (simp add: word_of_nat_eq_iff take_bit_eq_mod)

lemma shard_rank_mem: "shard_rank sha node alpn s \<in> all_ranks sha node alpn (unat c) \<longleftrightarrow> s < c"
proof -
  have "shard_rank sha node alpn s \<in> all_ranks sha node alpn (unat c) \<longleftrightarrow>
      (\<exists>k < unat c. s = word_of_nat k)" by (auto simp: all_ranks_def)
  also have "\<dots> \<longleftrightarrow> s < c"
  proof
    assume "\<exists>k < unat c. s = word_of_nat k"
    then show "s < c" using unsigned_less [where 'a = nat, of c]
      by (auto simp: word_less_nat_alt unat_of_nat)
  next
    assume "s < c"
    then show "\<exists>k < unat c. s = word_of_nat k"
      by (intro exI [of _ "unat s"]) (simp add: word_less_nat_alt)
  qed
  finally show ?thesis .
qed

lemma ranked_distinct:
  "distinct (map (\<lambda>k. shard_rank sha node alpn (word_of_nat k)) [0 ..< unat (c :: u8)])"
proof -
  have "unat c < 256" using unsigned_less [where 'a = nat, of c] by simp
  then show ?thesis by (auto simp: distinct_map inj_on_def word_of_nat_u8_eq)
qed

lemma replica_shards_mem:
  "s \<in> set (replica_shards_with_limits sha node alpn c r) \<longleftrightarrow>
     s < c \<and> card {y \<in> all_ranks sha node alpn (unat c). y < shard_rank sha node alpn s} < r"
proof -
  let ?xs = "map (\<lambda>k. shard_rank sha node alpn (word_of_nat k)) [0 ..< unat c]"
  let ?R = "all_ranks sha node alpn (unat c)"
  have set: "set (sort ?xs) = ?R" by (auto simp: all_ranks_def)
  have dist: "distinct (sort ?xs)" unfolding distinct_sort by (rule ranked_distinct)
  have take: "take (min r (unat c)) (sort ?xs) = take r (sort ?xs)" by (simp add: min_def)
  have rank: "x = shard_rank sha node alpn (snd x)" if "x \<in> ?R" for x
    using that by (auto simp: all_ranks_def)
  have "s \<in> set (replica_shards_with_limits sha node alpn c r) \<longleftrightarrow>
      (\<exists>x \<in> set (take r (sort ?xs)). s = snd x)"
    unfolding replica_shards_with_limits_def Let_def take by auto
  also have "\<dots> \<longleftrightarrow> shard_rank sha node alpn s \<in> set (take r (sort ?xs))"
  proof
    assume "\<exists>x \<in> set (take r (sort ?xs)). s = snd x"
    then obtain x where x: "x \<in> set (take r (sort ?xs))" "s = snd x" by blast
    with rank [of x] show "shard_rank sha node alpn s \<in> set (take r (sort ?xs))"
      using in_set_takeD [OF x(1)] set by metis
  qed (auto intro!: bexI [of _ "shard_rank sha node alpn s"])
  also have "\<dots> \<longleftrightarrow> s < c \<and> card {y \<in> ?R. y < shard_rank sha node alpn s} < r"
  proof (cases "shard_rank sha node alpn s \<in> ?R")
    case True
    have "sorted (sort ?xs)" by simp
    from sorted_take_iff [OF this dist, of "shard_rank sha node alpn s" r] True show ?thesis
      unfolding set by (simp add: shard_rank_mem)
  next
    case False
    then have "shard_rank sha node alpn s \<notin> set (take r (sort ?xs))"
      using set in_set_takeD by metis
    with False show ?thesis by (simp add: shard_rank_mem)
  qed
  finally show ?thesis .
qed

section \<open>Minutes\<close>

lemma unat_unsigned_abs: "int (unat (unsigned_abs x)) = \<bar>sint x\<bar>"
proof -
  have "- (2 ^ 63) \<le> sint x" "sint x < 2 ^ 63"
    using sint_ge [of x] sint_lt [of x] by simp_all
  then have "\<bar>sint x\<bar> < 2 ^ 64" by (simp add: abs_less_iff)
  then show ?thesis by (simp add: unsigned_abs_def unsigned_of_int take_bit_int_eq_self)
qed

section \<open>Properties\<close>

text \<open>The hash has no collision between two given messages, as expected of SHA-256.\<close>

definition no_collision :: "(bytes \<Rightarrow> bytes) \<Rightarrow> bytes \<Rightarrow> bytes \<Rightarrow> bool" where
  "no_collision sha x y \<longleftrightarrow> sha x = sha y \<longrightarrow> x = y"

text \<open>Two shard buckets share their signing key exactly when service, minute and shard agree, the
  same holds for the salt, and no key is ever a salt: the three inputs of fixed and free length are
  concatenated without ambiguity.\<close>

lemma bucket_address_unique:
  assumes "no_collision sha (key_preimage a m s) (key_preimage a' m' s')"
    and "no_collision sha (salt_preimage a m s) (salt_preimage a' m' s')"
    and "no_collision sha (key_preimage a m s) (salt_preimage a' m' s')"
  shows "(derive_signing_key sha a m s = derive_signing_key sha a' m' s' \<longleftrightarrow> (a, m, s) = (a', m', s')) \<and>
     (derive_salt sha a m s = derive_salt sha a' m' s' \<longleftrightarrow> (a, m, s) = (a', m', s')) \<and>
     derive_signing_key sha a m s \<noteq> derive_salt sha a' m' s'"
  using assms
  by (auto simp: derive_signing_key_def derive_salt_def no_collision_def key_preimage_eq_iff
      salt_preimage_eq_iff key_not_salt_preimage)

text \<open>(C27) A node publishes into \<open>min replica_count shard_count\<close> different shards below \<open>shard_count\<close>, and
  the ones chosen are those of least rank: no shard left out ranks before a chosen one.\<close>

theorem replica_shards_least_ranked:
  fixes sha node alpn c r
  defines "chosen \<equiv> replica_shards_with_limits sha node alpn c r"
  shows "length chosen = min r (unat c) \<and> distinct chosen \<and> (\<forall>s \<in> set chosen. s < c) \<and>
     (\<forall>s \<in> set chosen. \<forall>t < c. t \<notin> set chosen \<longrightarrow> shard_rank sha node alpn s < shard_rank sha node alpn t)"
proof (intro conjI ballI allI impI)
  let ?xs = "map (\<lambda>k. shard_rank sha node alpn (word_of_nat k)) [0 ..< unat c]"
  show "length chosen = min r (unat c)"
    by (simp add: chosen_def replica_shards_with_limits_def Let_def)
  have "inj_on snd (set (take (min r (unat c)) (sort ?xs)))"
    by (rule inj_on_subset [where A = "set ?xs"]) (auto simp: inj_on_def dest: in_set_takeD)
  then show "distinct chosen"
    using ranked_distinct [of sha node alpn c]
    by (simp add: chosen_def replica_shards_with_limits_def Let_def distinct_map)
  show "s < c" if "s \<in> set chosen" for s using that by (simp add: chosen_def replica_shards_mem)
  fix s t assume s: "s \<in> set chosen" and t: "t < c" "t \<notin> set chosen"
  let ?below = "\<lambda>x. {y \<in> all_ranks sha node alpn (unat c). y < shard_rank sha node alpn x}"
  have "\<not> shard_rank sha node alpn t \<le> shard_rank sha node alpn s"
  proof
    assume "shard_rank sha node alpn t \<le> shard_rank sha node alpn s"
    then have "card (?below t) \<le> card (?below s)"
      by (intro card_mono) (auto simp: all_ranks_def)
    with s t show False by (simp add: chosen_def replica_shards_mem)
  qed
  then show "shard_rank sha node alpn s < shard_rank sha node alpn t" by simp
qed

text \<open>Adding a shard moves a node as little as possible: every shard it publishes into afterwards is
  the new one or one it already used.\<close>

lemma replica_shards_stable:
  assumes "c < 255"
  shows "set (replica_shards_with_limits sha node alpn (c + 1) r) \<subseteq>
     insert c (set (replica_shards_with_limits sha node alpn c r))"
proof
  fix s assume "s \<in> set (replica_shards_with_limits sha node alpn (c + 1) r)"
  then have s: "s < c + 1"
      "card {y \<in> all_ranks sha node alpn (unat (c + 1)). y < shard_rank sha node alpn s} < r"
    by (simp_all add: replica_shards_mem)
  have suc: "unat (c + 1) = Suc (unat c)"
    using assms by (simp add: word_less_nat_alt unat_word_ariths)
  have "card {y \<in> all_ranks sha node alpn (unat c). y < shard_rank sha node alpn s} \<le>
      card {y \<in> all_ranks sha node alpn (unat (c + 1)). y < shard_rank sha node alpn s}"
    unfolding suc all_ranks_Suc by (intro card_mono) (auto simp: all_ranks_def)
  moreover have "s < c \<or> s = c"
    using s(1) suc by (auto simp: word_less_nat_alt word_unat_eq_iff)
  ultimately show "s \<in> insert c (set (replica_shards_with_limits sha node alpn c r))"
    using s(2) by (auto simp: replica_shards_mem)
qed

text \<open>The minute with an offset is the exact sum, clamped to the unsigned 64-bit range, also for the
  least signed offset.\<close>

lemma minute_offset_clamped:
  "int (unat (apply_minute_offset minute offset)) =
     max 0 (min (2 ^ 64 - 1) (int (unat minute) + sint offset))"
proof -
  let ?m = "unat minute" and ?d = "unat (unsigned_abs offset)"
  have "?m < 2 ^ 64" using unsigned_less [where 'a = nat, of minute] by simp
  moreover have "int ?d = \<bar>sint offset\<bar>" by (rule unat_unsigned_abs)
  moreover have "unat (apply_minute_offset minute offset) =
      (if 0 \<le> sint offset then min (?m + ?d) (2 ^ 64 - 1) else ?m - ?d)"
    by (simp add: apply_minute_offset_def unat_saturating_add unat_saturating_sub)
  ultimately show ?thesis by (auto simp del: of_nat_unat)
qed

section \<open>Witnesses\<close>

lemma wd_chosen: "replica_shards_with_limits id [42] [65] 3 2 = [0, 1]"
  by code_simp

theorem replica_shards_least_ranked_witness:
  "length (replica_shards_with_limits id [42] [65] 3 2) = 2 \<and>
   shard_rank id [42] [65] 1 < shard_rank id [42] [65] 2"
  using replica_shards_least_ranked [of id "[42]" "[65]" 3 2] by (simp add: wd_chosen)

end
