(* ===== verification/Publisher.thy ===== *)
theory Publisher
  imports Dht Service_Record Reference_Codec
begin

text \<open>
  \<^verbatim>\<open>src/swarm/dht/publisher.rs\<close>: the loop that writes a node's advertisement into a shard bucket.
  The mainline client is third-party code: what its reads and writes answer in each round is the
  parameter \<open>mainline\<close>, indexed by the round. A run of \<open>publish_shard\<close> gives the writes it made and
  how it ended; an arithmetic overflow ends it with a panic when overflow checks are on.
\<close>

section \<open>Definitions\<close>

type_synonym i64 = int \<comment> \<open>kept in range by the operations below\<close>

definition I64_MAX :: i64 where
  "I64_MAX = 2 ^ 63 - 1"

definition I64_MIN :: i64 where
  "I64_MIN = - (2 ^ 63)"

record mutable_item =
  mi_key :: bytes
  mi_value :: bytes
  mi_seq :: i64
  mi_salt :: bytes

datatype put_result = PutOk | PutConcurrency string | PutQuery string

text \<open>\<open>SigningKey::verifying_key\<close>, \<open>Dht::get_mutable\<close> and \<open>Dht::put_mutable\<close>; \<open>Inl\<close> is a panicked task.\<close>

record mainline =
  ml_verifying_key :: "bytes \<Rightarrow> bytes"
  ml_get :: "nat \<Rightarrow> bytes \<Rightarrow> bytes \<Rightarrow> string + mutable_item list"
  ml_put :: "nat \<Rightarrow> mutable_item \<Rightarrow> i64 option \<Rightarrow> string + put_result"

record publish_env =
  pe_crypto :: crypto
  pe_postcard :: postcard
  pe_sha :: "bytes \<Rightarrow> bytes"
  pe_mainline :: mainline
  pe_clock :: "string + u64"
  pe_overflow_checks :: bool

record dht_publisher_config =
  cfg_tags :: "string list"
  cfg_publish_interval :: nat

definition dht_publisher_config_default :: dht_publisher_config where
  "dht_publisher_config_default = \<lparr>cfg_tags = [], cfg_publish_interval = 30 * 10 ^ 9\<rparr>"

record dht_publisher =
  pub_secret_key :: bytes
  pub_services :: "bytes list"
  pub_config :: dht_publisher_config

definition publisher_new :: "bytes \<Rightarrow> dht_publisher_config \<Rightarrow> dht_publisher" where
  "publisher_new secret_key config = \<lparr>pub_secret_key = secret_key, pub_services = [], pub_config = config\<rparr>"

definition add_service :: "dht_publisher \<Rightarrow> bytes \<Rightarrow> dht_publisher" where
  "add_service p alpn = p\<lparr>pub_services := pub_services p @ [alpn]\<rparr>"

definition unix_timestamp_secs :: "string + u64 \<Rightarrow> string + u64" where
  "unix_timestamp_secs clock =
     (case clock of Inl e \<Rightarrow> Inl (''system clock before unix epoch: '' @ e) | Inr secs \<Rightarrow> Inr secs)"

text \<open>Items whose value does not decode are skipped.\<close>

definition decode_buckets :: "postcard \<Rightarrow> mutable_item list \<Rightarrow> service_bucket list" where
  "decode_buckets pc items =
     List.map_filter (\<lambda>item. case pc_bucket_from pc (mi_value item) of Inr b \<Rightarrow> Some b | Inl _ \<Rightarrow> None) items"

definition read_shard_state :: "publish_env \<Rightarrow> nat \<Rightarrow> bytes \<Rightarrow> u64 \<Rightarrow> u8 \<Rightarrow> u64
    \<Rightarrow> signed_service_ad list \<times> i64 option" where
  "read_shard_state e attempt alpn minute shard now =
     (let signing_key = derive_signing_key (pe_sha e) alpn minute shard;
          public_key = ml_verifying_key (pe_mainline e) signing_key;
          salt = derive_salt (pe_sha e) alpn minute shard
      in case ml_get (pe_mainline e) attempt public_key salt of
           Inl _ \<Rightarrow> ([], None)
         | Inr items \<Rightarrow>
             (merge_valid (pe_crypto e) (pe_postcard e) (decode_buckets (pe_postcard e) items) alpn minute shard now,
              iter_max (map mi_seq items)))"

text \<open>\<open>latest_seq.map_or(1, |seq| seq + 1)\<close> on \<open>i64\<close>: \<open>None\<close> is the overflow panic.\<close>

definition next_seq :: "bool \<Rightarrow> i64 option \<Rightarrow> i64 option" where
  "next_seq overflow_checks latest_seq =
     (case latest_seq of
        None \<Rightarrow> Some 1
      | Some seq \<Rightarrow>
          (if seq = I64_MAX then (if overflow_checks then None else Some I64_MIN) else Some (seq + 1)))"

text \<open>The bucket one round writes, before the write: read, add the local advertisement, trim, encode.\<close>

definition round_bucket :: "publish_env \<Rightarrow> signed_service_ad list \<Rightarrow> signed_service_ad
    \<Rightarrow> string + service_bucket \<times> bytes" where
  "round_bucket e ads local_ad =
     (let bucket = upsert (bucket_new ads) local_ad
      in case trim_to_size (pe_postcard e) bucket (Some (node_id local_ad)) of
           (bucket, Inl err) \<Rightarrow> Inl (''serialize service bucket: '' @ err)
         | (bucket, Inr fits) \<Rightarrow>
             (if \<not> fits then Inl ''local service advertisement exceeds shard bucket size''
              else (case pc_bucket (pe_postcard e) bucket of
                      Inl err \<Rightarrow> Inl (''serialize trimmed service bucket: '' @ err)
                    | Inr value \<Rightarrow> Inr (bucket, value))))"

type_synonym put = "mutable_item \<times> i64 option"

fun publish_attempts :: "publish_env \<Rightarrow> bytes \<Rightarrow> u64 \<Rightarrow> u8 \<Rightarrow> u64 \<Rightarrow> signed_service_ad \<Rightarrow> nat list
    \<Rightarrow> put list \<times> (string + unit) outcome" where
  "publish_attempts e alpn minute shard now local_ad [] =
     ([], Returned (Inl ''DHT shard remained contended after retries''))"
| "publish_attempts e alpn minute shard now local_ad (attempt # rest) =
     (case read_shard_state e attempt alpn minute shard now of
        (ads, latest_seq) \<Rightarrow>
          (case round_bucket e ads local_ad of
             Inl err \<Rightarrow> ([], Returned (Inl err))
           | Inr (bucket, value) \<Rightarrow>
               (case next_seq (pe_overflow_checks e) latest_seq of
                  None \<Rightarrow> ([], Panicked)
                | Some seq \<Rightarrow>
                    (let item = \<lparr>mi_key = derive_signing_key (pe_sha e) alpn minute shard, mi_value = value,
                                 mi_seq = seq, mi_salt = derive_salt (pe_sha e) alpn minute shard\<rparr>
                     in case ml_put (pe_mainline e) attempt item latest_seq of
                          Inl err \<Rightarrow> ([(item, latest_seq)], Returned (Inl (''publish task panicked: '' @ err)))
                        | Inr PutOk \<Rightarrow> ([(item, latest_seq)], Returned (Inr ()))
                        | Inr (PutQuery err) \<Rightarrow> ([(item, latest_seq)], Returned (Inl (''put mutable shard: '' @ err)))
                        | Inr (PutConcurrency err) \<Rightarrow>
                            (case publish_attempts e alpn minute shard now local_ad rest of
                               (puts, result) \<Rightarrow> ((item, latest_seq) # puts, result))))))"

definition publish_shard :: "publish_env \<Rightarrow> bytes \<Rightarrow> bytes \<Rightarrow> u8 \<Rightarrow> string list
    \<Rightarrow> put list \<times> (string + unit) outcome" where
  "publish_shard e secret_key alpn shard tags =
     (case unix_timestamp_secs (pe_clock e) of
        Inl err \<Rightarrow> ([], Returned (Inl err))
      | Inr now \<Rightarrow>
          (let minute = now div 60; expires = saturating_add now DHT_AD_TTL_SECS
           in case sign (pe_crypto e) (pe_postcard e) secret_key alpn minute shard tags now expires of
                Inl err \<Rightarrow> ([], Returned (Inl (''sign service ad: '' @ err)))
              | Inr local_ad \<Rightarrow>
                  publish_attempts e alpn minute shard now local_ad [0 ..< DHT_PUBLISH_RETRIES]))"

text \<open>\<open>publish_all\<close>: every service into every shard of its replicas; errors are logged and skipped, a
  panic ends the task. The surroundings are indexed by the number of the job.\<close>

definition publish_jobs :: "(bytes \<Rightarrow> bytes) \<Rightarrow> bytes \<Rightarrow> bytes list \<Rightarrow> (bytes \<times> u8) list" where
  "publish_jobs sha node services =
     concat (map (\<lambda>alpn. map (\<lambda>shard. (alpn, shard)) (replica_shards sha node alpn)) services)"

fun run_jobs :: "(nat \<Rightarrow> publish_env) \<Rightarrow> bytes \<Rightarrow> string list \<Rightarrow> nat \<Rightarrow> (bytes \<times> u8) list
    \<Rightarrow> (bytes \<times> u8) list outcome" where
  "run_jobs env secret_key tags n [] = Returned []"
| "run_jobs env secret_key tags n ((alpn, shard) # jobs) =
     (case snd (publish_shard (env n) secret_key alpn shard tags) of
        Panicked \<Rightarrow> Panicked
      | Returned result \<Rightarrow>
          (case run_jobs env secret_key tags (Suc n) jobs of
             Panicked \<Rightarrow> Panicked
           | Returned published \<Rightarrow>
               Returned (if result = Inr () then (alpn, shard) # published else published)))"

definition publish_all :: "(nat \<Rightarrow> publish_env) \<Rightarrow> bytes \<Rightarrow> bytes list \<Rightarrow> string list
    \<Rightarrow> (bytes \<times> u8) list outcome" where
  "publish_all env secret_key services tags =
     (let node = key_public (pe_crypto (env 0)) secret_key
      in run_jobs env secret_key tags 0 (publish_jobs (pe_sha (env 0)) node services))"

text \<open>The publisher's loop: publish at once, make the timer, then publish at each tick until the shutdown
  signal. The result lists the rounds made and a panic that ended the task, the surroundings are indexed by
  round and job.\<close>

datatype publisher_event = Tick | ShutdownSignal

fun publisher_loop :: "(nat \<Rightarrow> 'r outcome) \<Rightarrow> nat \<Rightarrow> publisher_event list \<Rightarrow> 'r outcome list" where
  "publisher_loop publish n [] = []"
| "publisher_loop publish n (ShutdownSignal # events) = []"
| "publisher_loop publish n (Tick # events) =
     (case publish n of
        Panicked \<Rightarrow> [Panicked]
      | Returned r \<Rightarrow> Returned r # publisher_loop publish (Suc n) events)"

definition publisher_run :: "(nat \<Rightarrow> nat \<Rightarrow> publish_env) \<Rightarrow> dht_publisher \<Rightarrow> publisher_event list
    \<Rightarrow> (bytes \<times> u8) list outcome list" where
  "publisher_run env p events =
     (let publish = (\<lambda>n. publish_all (env n) (pub_secret_key p) (pub_services p) (cfg_tags (pub_config p)))
      in case publish 0 of
           Panicked \<Rightarrow> [Panicked]
         | Returned r \<Rightarrow>
             Returned r # (case tokio_interval (cfg_publish_interval (pub_config p)) of
                             Panicked \<Rightarrow> [Panicked]
                           | Returned _ \<Rightarrow> publisher_loop publish 1 events))"

section \<open>What a round writes\<close>

text \<open>postcard encodes every bucket, and decodes what it encoded.\<close>

definition bucket_codec_total :: "postcard \<Rightarrow> bool" where
  "bucket_codec_total pc \<longleftrightarrow> (\<forall>b. \<exists>bs. pc_bucket pc b = Inr bs)"

definition bucket_codec_round_trip :: "postcard \<Rightarrow> bool" where
  "bucket_codec_round_trip pc \<longleftrightarrow> (\<forall>b bs. pc_bucket pc b = Inr bs \<longrightarrow> pc_bucket_from pc bs = Inr b)"

text \<open>A bucket a node may write for its own advertisement: it encodes to the given value within the
  limit, holds one advertisement per node, nothing but the local advertisement and ones that were
  read, and one of the local node at least as new as the local one.\<close>

definition publishable :: "postcard \<Rightarrow> signed_service_ad list \<Rightarrow> signed_service_ad \<Rightarrow> service_bucket
    \<Rightarrow> bytes \<Rightarrow> bool" where
  "publishable pc ads local_ad b v \<longleftrightarrow>
     pc_bucket pc b = Inr v \<and> length v \<le> DHT_MAX_BUCKET_BYTES \<and> bk_version b = DHT_BUCKET_VERSION \<and>
     distinct (map node_id (bk_ads b)) \<and> set (bk_ads b) \<subseteq> insert local_ad (set ads) \<and>
     (\<exists>a \<in> set (bk_ads b). node_id a = node_id local_ad \<and> ad_sort_key a \<le> ad_sort_key local_ad)"

lemma upsert_has_local:
  "\<exists>a \<in> set (upsert_ads ad ads). node_id a = node_id ad \<and> ad_sort_key a \<le> ad_sort_key ad"
proof (induction ads)
  case (Cons x ads)
  then show ?case by (auto simp: ad_precedes_def not_less)
qed simp

lemma round_bucket_publishable:
  assumes total: "bucket_codec_total (pe_postcard e)" and dist: "distinct (map node_id ads)"
    and rb: "round_bucket e ads local_ad = Inr (b, v)"
  shows "publishable (pe_postcard e) ads local_ad b v"
proof -
  let ?pc = "pe_postcard e" and ?p = "Some (node_id local_ad)"
  let ?u = "upsert (bucket_new ads) local_ad"
  let ?S = "sort_key (preferred_ad_sort_key ?p) (bk_ads ?u)"
  have len: "\<exists>n. encoded_len ?pc b = Inr n" for b
  proof -
    obtain bs where "pc_bucket ?pc b = Inr bs" using total by (auto simp: bucket_codec_total_def)
    then show ?thesis by (simp add: encoded_len_def)
  qed
  from rb obtain fits where tr: "trim_to_size ?pc ?u ?p = (b, Inr fits)" and fits and v: "pc_bucket ?pc b = Inr v"
    by (auto simp: round_bucket_def Let_def split: prod.splits sum.splits if_splits)
  obtain k where k: "b = ?u\<lparr>bk_ads := take k ?S\<rparr>" "\<forall>a \<in> set (drop k ?S). \<not> preferred ?p a"
      and fit: "bucket_fits ?pc b"
    using trim_to_size_prefix [OF len tr] \<open>fits\<close> by auto
  have u: "bk_ads ?u = upsert_ads local_ad ads" "bk_version ?u = DHT_BUCKET_VERSION"
    by (simp_all add: upsert_def bucket_new_def)
  from upsert_has_local [of local_ad ads] obtain a where
    a: "a \<in> set ?S" "node_id a = node_id local_ad" "ad_sort_key a \<le> ad_sort_key local_ad"
    by (auto simp: u)
  have "a \<notin> set (drop k ?S)" using k(2) a(2) by (auto simp: preferred_def)
  with a(1) have "a \<in> set (take k ?S)" by (metis Un_iff append_take_drop_id set_append)
  with a(2,3) have local: "\<exists>a \<in> set (bk_ads b). node_id a = node_id local_ad \<and> ad_sort_key a \<le> ad_sort_key local_ad"
    by (auto simp: k(1))
  have "distinct (map node_id ?S)"
    by (simp add: distinct_map_sort_key u upsert_ads_distinct dist)
  then have "distinct (map node_id (take k ?S))" by (metis distinct_take take_map)
  moreover have "set (take k ?S) \<subseteq> insert local_ad (set ads)"
    using upsert_ads_subset [of local_ad ads] set_take_subset [of k ?S] by (auto simp: u)
  ultimately show ?thesis
    using fit v local by (simp add: publishable_def k(1) u bucket_fits_def encoded_len_def)
qed

text \<open>Every write of the loop stems from one round: its compare-and-swap value is the sequence number
  read, its item is what the round built.\<close>

lemma publish_attempts_puts:
  assumes "(item, cas) \<in> set (fst (publish_attempts e alpn minute shard now local_ad ns))"
  shows "\<exists>attempt ads b v seq. read_shard_state e attempt alpn minute shard now = (ads, cas) \<and>
     round_bucket e ads local_ad = Inr (b, v) \<and> next_seq (pe_overflow_checks e) cas = Some seq \<and>
     item = \<lparr>mi_key = derive_signing_key (pe_sha e) alpn minute shard, mi_value = v, mi_seq = seq,
             mi_salt = derive_salt (pe_sha e) alpn minute shard\<rparr>"
  using assms
proof (induction ns)
  case (Cons n ns)
  then show ?case
    by (auto simp: Let_def split: prod.splits sum.splits option.splits put_result.splits) blast+
qed simp

lemma read_shard_state_ads:
  assumes "read_shard_state e attempt alpn minute shard now = (ads, seq)"
  shows "distinct (map node_id ads)"
    and "\<forall>a \<in> set ads. verify (pe_crypto e) (pe_postcard e) alpn minute shard now a"
proof -
  from assms consider "ads = []"
    | buckets where "ads = merge_valid (pe_crypto e) (pe_postcard e) buckets alpn minute shard now"
    by (auto simp: read_shard_state_def Let_def split: sum.splits)
  then show "distinct (map node_id ads)"
      "\<forall>a \<in> set ads. verify (pe_crypto e) (pe_postcard e) alpn minute shard now a"
    by (cases; use merge_valid_distinct merge_valid_sound in \<open>fastforce simp: valid_ads_def\<close>)+
qed

text \<open>What attempt \<open>n\<close> found stored under a key and a salt: nothing when the read failed.\<close>

definition items_read :: "publish_env \<Rightarrow> nat \<Rightarrow> bytes \<Rightarrow> bytes \<Rightarrow> mutable_item list" where
  "items_read e n key salt =
     (case ml_get (pe_mainline e) n (ml_verifying_key (pe_mainline e) key) salt of Inl _ \<Rightarrow> [] | Inr items \<Rightarrow> items)"

lemma read_shard_state_items:
  "read_shard_state e n alpn minute shard now =
     (let items = items_read e n (derive_signing_key (pe_sha e) alpn minute shard) (derive_salt (pe_sha e) alpn minute shard)
      in (merge_valid (pe_crypto e) (pe_postcard e) (decode_buckets (pe_postcard e) items) alpn minute shard now,
          if items = [] then None else Some (Max (mi_seq ` set items))))"
  by (simp add: read_shard_state_def items_read_def Let_def iter_max_def decode_buckets_def merge_valid_def
      btree_values_def List.map_filter_def split: sum.split)

text \<open>The write number \<open>i\<close> of the loop stems from its attempt number \<open>i\<close>.\<close>

lemma publish_attempts_nth:
  assumes "i < length (fst (publish_attempts e alpn minute shard now local_ad ns))"
    and "fst (publish_attempts e alpn minute shard now local_ad ns) ! i = (item, cas)"
  shows "i < length ns \<and> (\<exists>ads b v seq. read_shard_state e (ns ! i) alpn minute shard now = (ads, cas) \<and>
     round_bucket e ads local_ad = Inr (b, v) \<and> next_seq (pe_overflow_checks e) cas = Some seq \<and>
     item = \<lparr>mi_key = derive_signing_key (pe_sha e) alpn minute shard, mi_value = v, mi_seq = seq,
             mi_salt = derive_salt (pe_sha e) alpn minute shard\<rparr>)"
  using assms
proof (induction ns arbitrary: i)
  case (Cons n ns)
  show ?case
  proof (cases i)
    case 0
    with Cons.prems show ?thesis
      by (auto simp: Let_def split: prod.splits sum.splits option.splits put_result.splits)
  next
    case (Suc j)
    with Cons.prems have "j < length (fst (publish_attempts e alpn minute shard now local_ad ns))"
        "fst (publish_attempts e alpn minute shard now local_ad ns) ! j = (item, cas)"
      by (auto simp: Let_def split: prod.splits sum.splits option.splits put_result.splits)
    from Cons.IH [OF this] Suc show ?thesis by simp
  qed
qed simp

lemma publish_shard_attempts:
  assumes "fst (publish_shard e sk alpn shard tags) \<noteq> []"
  obtains now local_ad where "pe_clock e = Inr now"
    "sign (pe_crypto e) (pe_postcard e) sk alpn (now div 60) shard tags now (saturating_add now DHT_AD_TTL_SECS) = Inr local_ad"
    "publish_shard e sk alpn shard tags =
       publish_attempts e alpn (now div 60) shard now local_ad [0 ..< DHT_PUBLISH_RETRIES]"
  using assms by (auto simp: publish_shard_def unix_timestamp_secs_def Let_def split: sum.splits)

lemma publish_shard_writes:
  assumes "bucket_codec_total (pe_postcard e)"
    and "(item, cas) \<in> set (fst (publish_shard e sk alpn shard tags))"
  shows "\<exists>now local_ad ads b attempt.
     pe_clock e = Inr now \<and> read_shard_state e attempt alpn (now div 60) shard now = (ads, cas) \<and>
     sign (pe_crypto e) (pe_postcard e) sk alpn (now div 60) shard tags now (saturating_add now DHT_AD_TTL_SECS) = Inr local_ad \<and>
     mi_key item = derive_signing_key (pe_sha e) alpn (now div 60) shard \<and>
     mi_salt item = derive_salt (pe_sha e) alpn (now div 60) shard \<and>
     next_seq (pe_overflow_checks e) cas = Some (mi_seq item) \<and>
     (\<forall>a \<in> set ads. verify (pe_crypto e) (pe_postcard e) alpn (now div 60) shard now a) \<and>
     publishable (pe_postcard e) ads local_ad b (mi_value item)"
proof -
  have "fst (publish_shard e sk alpn shard tags) \<noteq> []" using assms(2) by auto
  then obtain now local_ad where now: "pe_clock e = Inr now"
    "sign (pe_crypto e) (pe_postcard e) sk alpn (now div 60) shard tags now (saturating_add now DHT_AD_TTL_SECS) = Inr local_ad"
    "publish_shard e sk alpn shard tags =
       publish_attempts e alpn (now div 60) shard now local_ad [0 ..< DHT_PUBLISH_RETRIES]"
    by (rule publish_shard_attempts)
  from publish_attempts_puts [OF assms(2) [unfolded now(3)]] obtain attempt ads b v seq where
    r: "read_shard_state e attempt alpn (now div 60) shard now = (ads, cas)"
      "round_bucket e ads local_ad = Inr (b, v)" "next_seq (pe_overflow_checks e) cas = Some seq"
      "item = \<lparr>mi_key = derive_signing_key (pe_sha e) alpn (now div 60) shard, mi_value = v, mi_seq = seq,
             mi_salt = derive_salt (pe_sha e) alpn (now div 60) shard\<rparr>"
    by blast
  note ads = read_shard_state_ads [OF r(1)]
  from round_bucket_publishable [OF assms(1) ads(1) r(2)] have "publishable (pe_postcard e) ads local_ad b v" .
  with now(1,2) r(1,3,4) ads(2) show ?thesis by auto
qed

section \<open>The retry loop\<close>

text \<open>How the rounds of a loop over \<open>[m ..< n]\<close> were answered: all writes but the last lost a race.\<close>

definition put_answer :: "publish_env \<Rightarrow> nat \<Rightarrow> put \<Rightarrow> string + put_result" where
  "put_answer e attempt p = ml_put (pe_mainline e) attempt (fst p) (snd p)"

definition lost_race :: "string + put_result \<Rightarrow> bool" where
  "lost_race r \<longleftrightarrow> (\<exists>err. r = Inr (PutConcurrency err))"

definition retried :: "publish_env \<Rightarrow> nat \<Rightarrow> put list \<times> (string + unit) outcome \<Rightarrow> bool" where
  "retried e m result \<longleftrightarrow> (case result of (puts, res) \<Rightarrow>
     (\<forall>i. Suc i < length puts \<longrightarrow> lost_race (put_answer e (m + i) (puts ! i))) \<and>
     (res = Returned (Inr ()) \<longleftrightarrow>
        puts \<noteq> [] \<and> put_answer e (m + (length puts - 1)) (last puts) = Inr PutOk))"

lemma retried_single:
  "retried e m ([p], Returned r) \<longleftrightarrow> (r = Inr () \<longleftrightarrow> put_answer e m p = Inr PutOk)"
  by (simp add: retried_def)

lemma retried_none: "retried e m ([], res) \<longleftrightarrow> res \<noteq> Returned (Inr ())"
  by (simp add: retried_def)

lemma retried_Cons:
  assumes "lost_race (put_answer e m p)" and "retried e (Suc m) (puts, res)"
  shows "retried e m (p # puts, res)"
proof -
  have "lost_race (put_answer e (m + i) ((p # puts) ! i))" if "Suc i < length (p # puts)" for i
    using that assms by (cases i) (auto simp: retried_def)
  moreover have "put_answer e m p \<noteq> Inr PutOk" using assms(1) by (auto simp: lost_race_def)
  ultimately show ?thesis using assms(2) by (cases puts) (auto simp: retried_def)
qed

lemma publish_attempts_retried:
  "retried e m (publish_attempts e alpn minute shard now local_ad [m ..< n])"
proof (induction "n - m" arbitrary: m)
  case 0
  then show ?case by (simp add: retried_none)
next
  case (Suc d)
  then have "[m ..< n] = m # [Suc m ..< n]" by (simp add: upt_rec)
  moreover have "retried e (Suc m) (publish_attempts e alpn minute shard now local_ad [Suc m ..< n])"
    using Suc by simp
  ultimately show ?case
    by (auto simp: Let_def retried_single retried_none put_answer_def lost_race_def
        intro!: retried_Cons split: prod.splits sum.splits option.splits put_result.splits)
qed

lemma publish_attempts_length: "length (fst (publish_attempts e alpn minute shard now local_ad ns)) \<le> length ns"
  by (induction ns) (auto simp: Let_def split: prod.splits sum.splits option.splits put_result.splits)

section \<open>Properties\<close>

text \<open>(C14) Whatever the DHT answers, write number \<open>i\<close> of \<open>publish_shard\<close> goes under the key and salt of
  the bucket. Its compare-and-swap value is the highest sequence number among the items that read number \<open>i\<close>
  found there, none when it found none, and its own sequence number is the one after, or 1 (past the
  largest number it wraps, or the task has panicked before, by the build profile). Its value encodes, within
  1000 bytes, a bucket with one advertisement per node, made of the merged valid advertisements of the items
  read and the node's own, which is present unless a newer one of the node was read.\<close>

theorem publish_writes_sound:
  assumes "bucket_codec_total (pe_postcard e)"
    and "i < length (fst (publish_shard e sk alpn shard tags))" and "fst (publish_shard e sk alpn shard tags) ! i = (item, cas)"
  shows "\<exists>now local_ad items ads b.
     pe_clock e = Inr now \<and>
     sign (pe_crypto e) (pe_postcard e) sk alpn (now div 60) shard tags now (saturating_add now DHT_AD_TTL_SECS) = Inr local_ad \<and>
     mi_key item = derive_signing_key (pe_sha e) alpn (now div 60) shard \<and>
     mi_salt item = derive_salt (pe_sha e) alpn (now div 60) shard \<and>
     items = items_read e i (mi_key item) (mi_salt item) \<and>
     cas = (if items = [] then None else Some (Max (mi_seq ` set items))) \<and>
     mi_seq item = (case cas of None \<Rightarrow> 1 | Some seq \<Rightarrow> if seq = I64_MAX then I64_MIN else seq + 1) \<and>
     \<not> (pe_overflow_checks e \<and> cas = Some I64_MAX) \<and>
     ads = merge_valid (pe_crypto e) (pe_postcard e) (decode_buckets (pe_postcard e) items) alpn (now div 60) shard now \<and>
     (\<forall>a \<in> set ads. verify (pe_crypto e) (pe_postcard e) alpn (now div 60) shard now a) \<and>
     publishable (pe_postcard e) ads local_ad b (mi_value item)"
proof -
  have "fst (publish_shard e sk alpn shard tags) \<noteq> []" using assms(2) by auto
  then obtain now local_ad where now: "pe_clock e = Inr now"
    "sign (pe_crypto e) (pe_postcard e) sk alpn (now div 60) shard tags now (saturating_add now DHT_AD_TTL_SECS) = Inr local_ad"
    "publish_shard e sk alpn shard tags =
       publish_attempts e alpn (now div 60) shard now local_ad [0 ..< DHT_PUBLISH_RETRIES]"
    by (rule publish_shard_attempts)
  from publish_attempts_nth [OF assms(2,3) [unfolded now(3)]] obtain ads b v seq where
    r: "read_shard_state e i alpn (now div 60) shard now = (ads, cas)"
      "round_bucket e ads local_ad = Inr (b, v)" "next_seq (pe_overflow_checks e) cas = Some seq"
      "item = \<lparr>mi_key = derive_signing_key (pe_sha e) alpn (now div 60) shard, mi_value = v, mi_seq = seq,
             mi_salt = derive_salt (pe_sha e) alpn (now div 60) shard\<rparr>"
    by auto
  note ads = read_shard_state_ads [OF r(1)]
  from round_bucket_publishable [OF assms(1) ads(1) r(2)] have "publishable (pe_postcard e) ads local_ad b v" .
  moreover have "seq = (case cas of None \<Rightarrow> 1 | Some seq \<Rightarrow> if seq = I64_MAX then I64_MIN else seq + 1)"
      "\<not> (pe_overflow_checks e \<and> cas = Some I64_MAX)"
    using r(3) by (auto simp: next_seq_def split: option.splits if_splits)
  moreover have "cas = (if items_read e i (mi_key item) (mi_salt item) = [] then None
      else Some (Max (mi_seq ` set (items_read e i (mi_key item) (mi_salt item)))))"
    "ads = merge_valid (pe_crypto e) (pe_postcard e) (decode_buckets (pe_postcard e)
      (items_read e i (mi_key item) (mi_salt item))) alpn (now div 60) shard now"
    using r(1) unfolding read_shard_state_items Let_def r(4) by (simp_all only: mutable_item.simps prod.inject)
  moreover have "mi_key item = derive_signing_key (pe_sha e) alpn (now div 60) shard"
    "mi_salt item = derive_salt (pe_sha e) alpn (now div 60) shard" "mi_value item = v" "mi_seq item = seq"
    by (simp_all add: r(4))
  ultimately show ?thesis using now(1,2) ads(2) by blast
qed

text \<open>\<open>publish_shard\<close> writes at most four times; it writes again only after losing a race, and it
  reports success exactly when its last write was accepted.\<close>

lemma publish_retry_policy:
  fixes e sk alpn shard tags
  defines "puts \<equiv> fst (publish_shard e sk alpn shard tags)"
  shows "length puts \<le> DHT_PUBLISH_RETRIES \<and>
     (\<forall>i. Suc i < length puts \<longrightarrow> lost_race (put_answer e i (puts ! i))) \<and>
     (snd (publish_shard e sk alpn shard tags) = Returned (Inr ()) \<longleftrightarrow>
        puts \<noteq> [] \<and> put_answer e (length puts - 1) (last puts) = Inr PutOk)"
proof (cases "puts = []")
  case True
  then have "snd (publish_shard e sk alpn shard tags) \<noteq> Returned (Inr ())"
    using publish_attempts_retried [where e = e and m = 0] unfolding puts_def
    by (auto simp: publish_shard_def unix_timestamp_secs_def Let_def retried_none prod_eq_iff split: sum.splits)
       (metis prod.collapse retried_none)
  with True show ?thesis by simp
next
  case False
  then obtain now local_ad where ps: "publish_shard e sk alpn shard tags =
      publish_attempts e alpn (now div 60) shard now local_ad [0 ..< DHT_PUBLISH_RETRIES]"
    unfolding puts_def by (rule publish_shard_attempts)
  show ?thesis
    using publish_attempts_retried [of e 0 alpn "now div 60" shard now local_ad DHT_PUBLISH_RETRIES]
      publish_attempts_length [of e alpn "now div 60" shard now local_ad "[0 ..< DHT_PUBLISH_RETRIES]"]
    by (simp add: puts_def ps retried_def split_beta)
qed

text \<open>The sequence number read from the DHT is not bounded: a bucket stored with the largest \<open>i64\<close>
  makes the increment overflow, which panics the publisher when overflow checks are on and otherwise
  writes the least sequence number.\<close>

lemma publish_seq_overflow:
  assumes "read_shard_state e n alpn minute shard now = (ads, Some I64_MAX)"
    and "round_bucket e ads local_ad = Inr (b, v)"
  shows "if pe_overflow_checks e
     then publish_attempts e alpn minute shard now local_ad (n # ns) = ([], Panicked)
     else \<exists>item puts. fst (publish_attempts e alpn minute shard now local_ad (n # ns)) = (item, Some I64_MAX) # puts \<and>
       mi_seq item = I64_MIN"
  using assms
  by (auto simp: next_seq_def Let_def split: sum.splits put_result.splits prod.splits)

end
