(* ===== verification/Resolver.thy ===== *)
theory Resolver
  imports Publisher Errors
begin

text \<open>
  \<^verbatim>\<open>src/swarm/dht/resolver.rs\<close>: a shard bucket read back, and the round trip with the publisher.
  The items the mainline client yields for a public key and a salt are a parameter.
\<close>

section \<open>Definitions\<close>

record dht_resolver =
  rs_crypto :: crypto
  rs_postcard :: postcard
  rs_sha :: "bytes \<Rightarrow> bytes"
  rs_verifying_key :: "bytes \<Rightarrow> bytes"
  rs_get :: "bytes \<Rightarrow> bytes \<Rightarrow> mutable_item list"
  rs_clock :: "string + u64"

text \<open>A clock before the epoch counts as second zero.\<close>

definition query_shard :: "dht_resolver \<Rightarrow> bytes \<Rightarrow> u64 \<Rightarrow> u8 \<Rightarrow> error + signed_service_ad list" where
  "query_shard re alpn minute shard =
     (let signing_key = derive_signing_key (rs_sha re) alpn minute shard;
          pk_bytes = rs_verifying_key re signing_key;
          salt = derive_salt (rs_sha re) alpn minute shard;
          result = rs_get re pk_bytes salt;
          now = (case rs_clock re of Inl _ \<Rightarrow> 0 | Inr secs \<Rightarrow> secs);
          buckets = decode_buckets (rs_postcard re) result
      in Inr (merge_valid (rs_crypto re) (rs_postcard re) buckets alpn minute shard now))"

section \<open>Properties\<close>

lemma decode_buckets_mem:
  "item \<in> set items \<Longrightarrow> pc_bucket_from pc (mi_value item) = Inr b \<Longrightarrow> b \<in> set (decode_buckets pc items)"
  by (force simp: decode_buckets_def List.map_filter_def)

lemma ad_sort_key_le_published: "ad_sort_key a \<le> ad_sort_key b \<Longrightarrow> published_at b \<le> published_at a"
  by (auto simp: ad_sort_key_def)

text \<open>A written advertisement is found by a resolver whose clock reads \<open>t\<close>, as long as it is alive then and
  every advertisement of that node the publisher had found in the shard is older or alive then too.\<close>

lemma published_resolved:
  assumes codec: "bucket_codec_total (pe_postcard e)" "bucket_codec_round_trip (pe_postcard e)"
    and key: "sign_correct (pe_crypto e) sk"
    and put: "(item, cas) \<in> set (fst (publish_shard e sk alpn shard tags))"
    and clock: "pe_clock e = Inr now"
    and alive: "t < saturating_add now DHT_AD_TTL_SECS" "unat now \<le> unat t + 300"
    and own: "\<And>n a. a \<in> set (fst (read_shard_state e n alpn (now div 60) shard now)) \<Longrightarrow>
      node_id a = key_public (pe_crypto e) sk \<Longrightarrow>
      published_at a < now \<or> t < expires_at a \<and> unat (published_at a) \<le> unat t + 300"
    and re: "rs_crypto re = pe_crypto e" "rs_postcard re = pe_postcard e" "rs_sha re = pe_sha e"
      "rs_clock re = Inr t" "item \<in> set (rs_get re (rs_verifying_key re (mi_key item)) (mi_salt item))"
  shows "\<exists>ads a. query_shard re alpn (now div 60) shard = Inr ads \<and> a \<in> set ads \<and>
     node_id a = key_public (pe_crypto e) sk \<and> now \<le> published_at a"
proof -
  let ?cr = "pe_crypto e" and ?pc = "pe_postcard e" and ?m = "now div 60"
  let ?v = "verify ?cr ?pc alpn ?m shard"
  from publish_shard_writes [OF codec(1) put] clock obtain local_ad ads b attempt where
    sign: "sign ?cr ?pc sk alpn ?m shard tags now (saturating_add now DHT_AD_TTL_SECS) = Inr local_ad"
    and read: "read_shard_state e attempt alpn ?m shard now = (ads, cas)"
    and addr: "mi_key item = derive_signing_key (pe_sha e) alpn ?m shard"
      "mi_salt item = derive_salt (pe_sha e) alpn ?m shard"
    and valid: "\<forall>a \<in> set ads. ?v now a"
    and pub: "publishable ?pc ads local_ad b (mi_value item)"
    by auto
  have ad: "node_id local_ad = key_public ?cr sk" "published_at local_ad = now"
    using sign_cases [OF sign] by (simp_all add: node_id_def published_at_def)
  have "now \<le> saturating_add now DHT_AD_TTL_SECS"
    using unsigned_less [of now, where 'a = nat] by (simp add: word_le_nat_alt unat_saturating_add DHT_AD_TTL_SECS_def)
  note local_valid = sign_then_verify [OF key sign alive(1) this alive(2)]
  from pub obtain a where a: "a \<in> set (bk_ads b)" "a = local_ad \<or> a \<in> set ads" "node_id a = node_id local_ad"
      "ad_sort_key a \<le> ad_sort_key local_ad" by (auto simp: publishable_def)
  have "?v t a"
  proof (cases "a = local_ad")
    case False
    with a(2) have "a \<in> set ads" by simp
    moreover have "\<not> published_at a < now" using ad_sort_key_le_published [OF a(4)] ad(2) by simp
    ultimately show ?thesis using own [of a attempt] valid read a(3) ad(1) by (auto simp: verify_iff)
  qed (simp add: local_valid)
  let ?items = "rs_get re (rs_verifying_key re (mi_key item)) (mi_salt item)"
  let ?bs = "decode_buckets ?pc ?items"
  have "b \<in> set ?bs"
    using pub codec(2) re(5) by (auto simp: publishable_def bucket_codec_round_trip_def intro: decode_buckets_mem)
  with a(1) \<open>?v t a\<close> pub have "a \<in> set (valid_ads (?v t) ?bs)"
    by (auto simp: valid_ads_def publishable_def)
  from merge_valid_complete [OF this] obtain c where
    c: "c \<in> set (merge_valid ?cr ?pc ?bs alpn ?m shard t)" "node_id c = node_id a" "ad_sort_key c \<le> ad_sort_key a"
    by blast
  have "now \<le> published_at c" using ad_sort_key_le_published [of c local_ad] c(3) a(4) ad(2) by simp
  moreover have "node_id c = key_public ?cr sk" using c(2) a(3) ad(1) by simp
  moreover have "query_shard re alpn ?m shard = Inr (merge_valid ?cr ?pc ?bs alpn ?m shard t)"
    using re addr by (simp add: query_shard_def)
  ultimately show ?thesis using c(1) by blast
qed

text \<open>(C13) What a node writes is found while it is alive: a resolver that gets the written item for the
  bucket's address, whatever other items come with it, and whose clock is less than the two minutes of an
  advertisement's life ahead of the publisher's and at most five minutes behind it, returns an advertisement
  of that node at least as new as the one it published. The publisher may have found an advertisement of
  its own in the shard; unless the clocks agree, one at least as new has to be alive for the resolver too.\<close>

theorem publish_then_resolve:
  assumes codec: "bucket_codec_total (pe_postcard e)" "bucket_codec_round_trip (pe_postcard e)"
    and key: "sign_correct (pe_crypto e) sk"
    and put: "(item, cas) \<in> set (fst (publish_shard e sk alpn shard tags))"
    and clock: "pe_clock e = Inr now"
    and re: "rs_crypto re = pe_crypto e" "rs_postcard re = pe_postcard e" "rs_sha re = pe_sha e"
      "rs_clock re = Inr t" "item \<in> set (rs_get re (rs_verifying_key re (mi_key item)) (mi_salt item))"
    and alive: "t < saturating_add now DHT_AD_TTL_SECS" "unat now \<le> unat t + 300"
    and own: "t = now \<or> (\<forall>n. \<forall>a \<in> set (fst (read_shard_state e n alpn (now div 60) shard now)).
      node_id a = key_public (pe_crypto e) sk \<longrightarrow>
        published_at a < now \<or> t < expires_at a \<and> unat (published_at a) \<le> unat t + 300)"
  shows "\<exists>ads a. query_shard re alpn (now div 60) shard = Inr ads \<and> a \<in> set ads \<and>
     node_id a = key_public (pe_crypto e) sk \<and> now \<le> published_at a"
proof (rule published_resolved [OF codec key put clock alive _ re])
  show "published_at a < now \<or> t < expires_at a \<and> unat (published_at a) \<le> unat t + 300"
    if "a \<in> set (fst (read_shard_state e n alpn (now div 60) shard now))" "node_id a = key_public (pe_crypto e) sk" for n a
    using that own read_shard_state_ads(2) [of e n alpn "now div 60" shard now] by (auto simp: verify_iff prod_eq_iff)
qed

section \<open>Witnesses\<close>

text \<open>The node with key \<open>[7]\<close> publishes the service \<open>[65]\<close> into an empty shard 4 at second 0.\<close>

definition ws_env :: "bool \<Rightarrow> mutable_item list \<Rightarrow> publish_env" where
  "ws_env checks items = \<lparr>pe_crypto = ref_crypto, pe_postcard = ref_postcard, pe_sha = id,
     pe_mainline = \<lparr>ml_verifying_key = id, ml_get = (\<lambda>_ _ _. Inr items), ml_put = (\<lambda>_ _ _. Inr PutOk)\<rparr>,
     pe_clock = Inr 0, pe_overflow_checks = checks\<rparr>"

definition ws_ad_at :: "bytes \<Rightarrow> u8 \<Rightarrow> signed_service_ad" where
  "ws_ad_at alpn shard = ref_ad [7] alpn 0 shard [] 0 120"

definition ws_item_at :: "bytes \<Rightarrow> u8 \<Rightarrow> mutable_item" where
  "ws_item_at alpn shard = \<lparr>mi_key = key_preimage alpn 0 shard, mi_value = 2 # enc_list enc_ad [ws_ad_at alpn shard],
     mi_seq = 1, mi_salt = salt_preimage alpn 0 shard\<rparr>"

definition ws_resolver_at :: "bytes \<Rightarrow> u8 \<Rightarrow> dht_resolver" where
  "ws_resolver_at alpn shard = \<lparr>rs_crypto = ref_crypto, rs_postcard = ref_postcard, rs_sha = id, rs_verifying_key = id,
     rs_get = (\<lambda>_ _. [ws_item_at alpn shard]), rs_clock = Inr 0\<rparr>"

abbreviation ws_ad :: signed_service_ad where
  "ws_ad \<equiv> ws_ad_at [65] 4"

abbreviation ws_item :: mutable_item where
  "ws_item \<equiv> ws_item_at [65] 4"

abbreviation ws_resolver :: dht_resolver where
  "ws_resolver \<equiv> ws_resolver_at [65] 4"

lemma length_enc_seq: "length (enc_seq bs) = 2 * length bs + 1"
  by (induction bs) simp_all

lemma ws_ad_eq:
  "ws_ad_at alpn shard = \<lparr>sa_ad = \<lparr>ad_node_id = [7], ad_tags = [], ad_published_at = 0, ad_expires_at = 120\<rparr>,
     sa_signature = 7 # 2 # shard # enc_seq alpn @ enc_u64 0 @ enc_seq [7] @ [0] @ enc_u64 0 @ enc_u64 120\<rparr>"
  by (simp add: ws_ad_at_def ref_ad_def sign_def signing_message_def ref_postcard_def ref_envelope_def
      ref_crypto_def DHT_BUCKET_VERSION_def)

lemma ws_len: "encoded_len ref_postcard \<lparr>bk_version = 2, bk_ads = [ws_ad_at alpn shard]\<rparr> = Inr (752 + 4 * length alpn)"
  by (simp add: encoded_len_def ref_postcard_def ref_bucket_def ws_ad_eq enc_ad_def enc_u64_def length_enc_seq)

lemma ws_round:
  assumes "length alpn \<le> 62"
  shows "round_bucket (ws_env c items) [] (ws_ad_at alpn shard) =
     Inr (\<lparr>bk_version = 2, bk_ads = [ws_ad_at alpn shard]\<rparr>, 2 # enc_list enc_ad [ws_ad_at alpn shard])"
  using assms
  by (simp add: round_bucket_def ws_env_def upsert_def bucket_new_def trim_to_size_def Let_def
      DHT_BUCKET_VERSION_def ws_len DHT_MAX_BUCKET_BYTES_def trim_loop.simps)
     (simp add: ref_postcard_def ref_bucket_def)

lemma ws_read: "read_shard_state (ws_env c []) n alpn minute shard now = ([], None)"
  by (simp add: read_shard_state_def ws_env_def Let_def decode_buckets_def merge_valid_def iter_max_def
      List.map_filter_def btree_values_def)

lemma ws_sign:
  "sign ref_crypto ref_postcard [7] alpn 0 shard [] 0 (saturating_add 0 DHT_AD_TTL_SECS) = Inr (ws_ad_at alpn shard)"
  by (simp add: saturating_add_def DHT_AD_TTL_SECS_def ref_sign ws_ad_at_def)

lemma ws_publish_at:
  assumes "length alpn \<le> 62"
  shows "publish_shard (ws_env c []) [7] alpn shard [] = ([(ws_item_at alpn shard, None)], Returned (Inr ()))"
proof -
  have "[0 ..< DHT_PUBLISH_RETRIES] = 0 # [1 ..< 4]" by (simp add: DHT_PUBLISH_RETRIES_def upt_rec)
  then have "publish_attempts (ws_env c []) alpn 0 shard 0 (ws_ad_at alpn shard) [0 ..< DHT_PUBLISH_RETRIES] =
      ([(ws_item_at alpn shard, None)], Returned (Inr ()))"
    by (simp add: ws_read ws_round [OF assms] next_seq_def Let_def)
       (simp add: ws_env_def ws_item_at_def derive_signing_key_def derive_salt_def)
  with ws_sign show ?thesis
    by (simp add: publish_shard_def unix_timestamp_secs_def ws_env_def)
qed

lemma ws_publish: "publish_shard (ws_env c []) [7] [65] 4 [] = ([(ws_item, None)], Returned (Inr ()))"
  by (rule ws_publish_at) simp

lemma ref_codec_total: "bucket_codec_total ref_postcard"
  by (simp add: bucket_codec_total_def ref_postcard_def ref_bucket_def)

lemma ref_codec_round_trip: "bucket_codec_round_trip ref_postcard"
  by (simp add: bucket_codec_round_trip_def ref_postcard_def ref_bucket_round_trip)

text \<open>A resolver whose clock is 100 seconds ahead.\<close>

theorem publish_then_resolve_witness:
  "\<exists>ads a. query_shard (ws_resolver\<lparr>rs_clock := Inr 100\<rparr>) [65] 0 4 = Inr ads \<and> a \<in> set ads \<and> node_id a = [7]"
proof -
  let ?re = "ws_resolver\<lparr>rs_clock := Inr 100\<rparr>"
  have e: "pe_crypto (ws_env True []) = ref_crypto" "pe_postcard (ws_env True []) = ref_postcard" "pe_sha (ws_env True []) = id"
      "pe_clock (ws_env True []) = Inr 0" "key_public ref_crypto [7] = [7]"
    by (simp_all add: ws_env_def ref_crypto_def)
  have "\<exists>ads a. query_shard ?re [65] (0 div 60) 4 = Inr ads \<and> a \<in> set ads \<and>
      node_id a = key_public (pe_crypto (ws_env True [])) [7] \<and> 0 \<le> published_at a"
    by (rule publish_then_resolve [where item = ws_item and cas = None and tags = "[]" and t = 100])
       (simp_all add: e ws_publish ref_codec_total ref_codec_round_trip ref_sign_correct ws_read saturating_add_def
          DHT_AD_TTL_SECS_def word_gt_0, simp_all add: ws_resolver_at_def)
  then show ?thesis by (auto simp: e)
qed

theorem publish_writes_sound_witness:
  "fst (publish_shard (ws_env True []) [7] [65] 4 []) = [(ws_item, None)] \<and>
   mi_seq ws_item = 1 \<and> length (mi_value ws_item) \<le> DHT_MAX_BUCKET_BYTES"
proof -
  have "bucket_codec_total (pe_postcard (ws_env True []))" by (simp add: ws_env_def ref_codec_total)
  from publish_writes_sound [OF this, of 0 "[7]" "[65]" 4 "[]" ws_item None] show ?thesis
    unfolding ws_publish by (auto simp: publishable_def ws_env_def)
qed

end
