(* ===== verification/Publisher_Race.thy ===== *)
theory Publisher_Race
  imports Resolver
begin

text \<open>
  Several publishers of one bucket (\<^verbatim>\<open>src/swarm/dht/publisher.rs\<close>): the same service, minute and shard, so the same
  address in the DHT. The DHT holds at most one item there. A publisher reads the item, and later writes
  what one round of \<open>publish_shard\<close> (\<open>publish_attempts\<close> on a single attempt) builds from what it read; reads and
  writes of different publishers interleave. Of the DHT only the rules of mutable items are used, as
  \<open>mutable_store\<close> states them; whether it accepts a write that it may accept is open.
\<close>

section \<open>Definitions\<close>

text \<open>The publishers' common surroundings, and what differs: the clock reading and the advertisement of
  each round. A publisher that publishes again is another number.\<close>

record race =
  rc_env :: publish_env
  rc_alpn :: bytes
  rc_minute :: u64
  rc_shard :: u8
  rc_key :: "nat \<Rightarrow> bytes"
  rc_tags :: "nat \<Rightarrow> string list"
  rc_now :: "nat \<Rightarrow> u64"
  rc_ad :: "nat \<Rightarrow> signed_service_ad"

record race_state =
  rg_item :: "mutable_item option"
  rg_read :: "nat \<Rightarrow> mutable_item option option"
  rg_done :: "nat set"
  rg_blind :: bool

definition race_new :: race_state where
  "race_new = \<lparr>rg_item = None, rg_read = (\<lambda>_. None), rg_done = {}, rg_blind = False\<rparr>"

text \<open>The rules of mutable items: a read gives what was stored or fails; a write is accepted only if its
  sequence number is not lower than the stored one and its compare-and-swap value, if it has one, is the
  stored one. A write without such a value is not compared.\<close>

definition mutable_store :: "mutable_item option \<Rightarrow> mutable_item option \<Rightarrow> mainline \<Rightarrow> bool" where
  "mutable_store snapshot stored ml \<longleftrightarrow>
     (\<forall>n key salt. ml_get ml n key salt = Inr (case snapshot of None \<Rightarrow> [] | Some item \<Rightarrow> [item]) \<or>
        (\<exists>err. ml_get ml n key salt = Inl err)) \<and>
     (\<forall>n item cas. ml_put ml n item cas = Inr PutOk \<longrightarrow>
        (\<forall>old. stored = Some old \<longrightarrow> mi_seq old \<le> mi_seq item \<and> (\<forall>seq. cas = Some seq \<longrightarrow> seq = mi_seq old)))"

definition race_attempt :: "race \<Rightarrow> nat \<Rightarrow> mainline \<Rightarrow> nat \<Rightarrow> put list \<times> (string + unit) outcome" where
  "race_attempt rc p ml n =
     publish_attempts ((rc_env rc)\<lparr>pe_mainline := ml\<rparr>) (rc_alpn rc) (rc_minute rc) (rc_shard rc) (rc_now rc p) (rc_ad rc p) [n]"

text \<open>\<open>rg_done\<close> has the publishers whose write was accepted; \<open>rg_blind\<close> notes that a write without a
  compare-and-swap value replaced an item.\<close>

inductive race_step :: "race \<Rightarrow> race_state \<Rightarrow> race_state \<Rightarrow> bool" for rc where
  read: "race_step rc st (st\<lparr>rg_read := (rg_read st)(p \<mapsto> rg_item st)\<rparr>)"
| accepted: "rg_read st p = Some snapshot \<Longrightarrow> mutable_store snapshot (rg_item st) ml \<Longrightarrow>
     race_attempt rc p ml n = ([(item, cas)], Returned (Inr ())) \<Longrightarrow>
     race_step rc st (st\<lparr>rg_item := Some item, rg_read := (rg_read st)(p := None), rg_done := insert p (rg_done st),
       rg_blind := rg_blind st \<or> (cas = None \<and> rg_item st \<noteq> None)\<rparr>)"
| refused: "rg_read st p = Some snapshot \<Longrightarrow> mutable_store snapshot (rg_item st) ml \<Longrightarrow>
     snd (race_attempt rc p ml n) \<noteq> Returned (Inr ()) \<Longrightarrow>
     race_step rc st (st\<lparr>rg_read := (rg_read st)(p := None)\<rparr>)"

inductive race_reachable :: "race \<Rightarrow> race_state \<Rightarrow> bool" for rc where
  start: "race_reachable rc race_new"
| step: "race_reachable rc st \<Longrightarrow> race_step rc st st' \<Longrightarrow> race_reachable rc st'"

text \<open>All publishers are in the minute of the bucket and signed for it, and their advertisements fit into
  one bucket together.\<close>

definition race_ok :: "race \<Rightarrow> bool" where
  "race_ok rc \<longleftrightarrow>
     bucket_codec_total (pe_postcard (rc_env rc)) \<and> bucket_codec_round_trip (pe_postcard (rc_env rc)) \<and>
     (\<forall>p. rc_now rc p div 60 = rc_minute rc \<and> rc_now rc p < - 1 \<and> sign_correct (pe_crypto (rc_env rc)) (rc_key rc p) \<and>
        sign (pe_crypto (rc_env rc)) (pe_postcard (rc_env rc)) (rc_key rc p) (rc_alpn rc) (rc_minute rc) (rc_shard rc)
          (rc_tags rc p) (rc_now rc p) (saturating_add (rc_now rc p) DHT_AD_TTL_SECS) = Inr (rc_ad rc p))"

definition race_fits :: "race \<Rightarrow> bool" where
  "race_fits rc \<longleftrightarrow>
     (\<forall>ads. set ads \<subseteq> range (rc_ad rc) \<and> distinct (map node_id ads) \<longrightarrow>
        bucket_fits (pe_postcard (rc_env rc)) (bucket_new ads))"

section \<open>Advertisements of one minute accept each other\<close>

lemma same_minute:
  fixes a b :: u64
  assumes "a div 60 = b div 60"
  shows "unat a < unat b + 60"
proof -
  have "unat a div 60 = unat b div 60" using arg_cong [OF assms, of unat] by (simp add: unat_div)
  moreover have "unat a = unat a div 60 * 60 + unat a mod 60" "unat b = unat b div 60 * 60 + unat b mod 60"
    by (rule div_mult_mod_eq [symmetric])+
  moreover have "unat a mod 60 < 60" by simp
  ultimately show ?thesis by linarith
qed

lemma race_ad_fields:
  assumes "race_ok rc"
  shows "published_at (rc_ad rc p) = rc_now rc p"
    and "expires_at (rc_ad rc p) = saturating_add (rc_now rc p) DHT_AD_TTL_SECS"
    and "node_id (rc_ad rc p) = key_public (pe_crypto (rc_env rc)) (rc_key rc p)"
proof -
  have "sign (pe_crypto (rc_env rc)) (pe_postcard (rc_env rc)) (rc_key rc p) (rc_alpn rc) (rc_minute rc) (rc_shard rc)
      (rc_tags rc p) (rc_now rc p) (saturating_add (rc_now rc p) DHT_AD_TTL_SECS) = Inr (rc_ad rc p)"
    using assms by (simp add: race_ok_def)
  note ad = conjunct1 [OF sign_cases [OF this]]
  show "published_at (rc_ad rc p) = rc_now rc p" "expires_at (rc_ad rc p) = saturating_add (rc_now rc p) DHT_AD_TTL_SECS"
    "node_id (rc_ad rc p) = key_public (pe_crypto (rc_env rc)) (rc_key rc p)"
    by (simp_all add: published_at_def expires_at_def node_id_def ad)
qed

lemma race_ad_verifies:
  assumes "race_ok rc"
  shows "verify (pe_crypto (rc_env rc)) (pe_postcard (rc_env rc)) (rc_alpn rc) (rc_minute rc) (rc_shard rc) (rc_now rc q) (rc_ad rc p)"
proof (rule sign_then_verify)
  show "sign_correct (pe_crypto (rc_env rc)) (rc_key rc p)"
    "sign (pe_crypto (rc_env rc)) (pe_postcard (rc_env rc)) (rc_key rc p) (rc_alpn rc) (rc_minute rc) (rc_shard rc)
      (rc_tags rc p) (rc_now rc p) (saturating_add (rc_now rc p) DHT_AD_TTL_SECS) = Inr (rc_ad rc p)"
    using assms by (simp_all add: race_ok_def)
  have "rc_now rc p div 60 = rc_now rc q div 60" "rc_now rc q < - 1" using assms by (simp_all add: race_ok_def)
  note near = same_minute [OF this(1)] same_minute [OF this(1) [symmetric]] and top = this(2)
  show "rc_now rc q < saturating_add (rc_now rc p) DHT_AD_TTL_SECS"
    using near top by (simp add: word_less_nat_alt unat_saturating_add DHT_AD_TTL_SECS_def
        unsigned_minus_1_eq_mask mask_eq_exp_minus_1)
  show "rc_now rc p \<le> saturating_add (rc_now rc p) DHT_AD_TTL_SECS"
    using unsigned_less [of "rc_now rc p", where 'a = nat]
    by (simp add: word_le_nat_alt unat_saturating_add DHT_AD_TTL_SECS_def)
  show "unat (rc_now rc p) \<le> unat (rc_now rc q) + 300" using near by simp
qed

section \<open>What an accepted write keeps\<close>

definition newer_of :: "signed_service_ad list \<Rightarrow> signed_service_ad \<Rightarrow> bool" where
  "newer_of ads x \<longleftrightarrow> (\<exists>a \<in> set ads. node_id a = node_id x \<and> ad_sort_key a \<le> ad_sort_key x)"

lemma newer_of_trans:
  assumes "newer_of ads x" and "\<And>a. a \<in> set ads \<Longrightarrow> newer_of ads' a"
  shows "newer_of ads' x"
proof -
  from assms(1) obtain a where a: "a \<in> set ads" "node_id a = node_id x" "ad_sort_key a \<le> ad_sort_key x"
    by (auto simp: newer_of_def)
  from assms(2) [OF a(1)] obtain a' where "a' \<in> set ads'" "node_id a' = node_id a" "ad_sort_key a' \<le> ad_sort_key a"
    by (auto simp: newer_of_def)
  with a show ?thesis unfolding newer_of_def by (auto intro!: bexI [of _ a'])
qed

lemma upsert_ads_keeps: "x \<in> set ads \<Longrightarrow> newer_of (upsert_ads ad ads) x"
  unfolding newer_of_def by (induction ads) (auto simp: ad_precedes_def intro: less_imp_le)

text \<open>A stored bucket that the publishers made.\<close>

definition holds :: "race \<Rightarrow> mutable_item \<Rightarrow> service_bucket \<Rightarrow> bool" where
  "holds rc it b \<longleftrightarrow> pc_bucket_from (pe_postcard (rc_env rc)) (mi_value it) = Inr b \<and> bk_version b = DHT_BUCKET_VERSION \<and>
     set (bk_ads b) \<subseteq> range (rc_ad rc) \<and> distinct (map node_id (bk_ads b))"

lemma trim_fitting:
  assumes "\<And>b. \<exists>n. encoded_len pc b = Inr n" and "trim_to_size pc b p = (b', r)"
    and "bucket_fits pc (b\<lparr>bk_ads := sort_key (preferred_ad_sort_key p) (bk_ads b)\<rparr>)"
  shows "set (bk_ads b') = set (bk_ads b)"
proof -
  let ?S = "sort_key (preferred_ad_sort_key p) (bk_ads b)"
  obtain k where k: "k \<le> length ?S" "b' = b\<lparr>bk_ads := take k ?S\<rparr>"
      "\<forall>j. k < j \<and> j \<le> length ?S \<longrightarrow> \<not> bucket_fits pc (b\<lparr>bk_ads := take j ?S\<rparr>)"
    using trim_to_size_prefix [OF assms(1,2)] by metis
  then have "k = length ?S" using assms(3) by (metis le_neq_implies_less order_refl take_all)
  with k(2) show ?thesis by simp
qed

lemma round_bucket_keeps:
  assumes ok: "race_ok rc" and fits: "race_fits rc" and ads: "set ads \<subseteq> range (rc_ad rc)" "distinct (map node_id ads)"
    and rb: "round_bucket ((rc_env rc)\<lparr>pe_mainline := ml\<rparr>) ads (rc_ad rc p) = Inr (b, v)"
  shows "pc_bucket (pe_postcard (rc_env rc)) b = Inr v" and "bk_version b = DHT_BUCKET_VERSION"
    and "set (bk_ads b) \<subseteq> range (rc_ad rc)" and "distinct (map node_id (bk_ads b))"
    and "newer_of (bk_ads b) (rc_ad rc p)" and "x \<in> set ads \<Longrightarrow> newer_of (bk_ads b) x"
proof -
  let ?e = "(rc_env rc)\<lparr>pe_mainline := ml\<rparr>" and ?pc = "pe_postcard (rc_env rc)"
  have total: "bucket_codec_total (pe_postcard ?e)" using ok by (simp add: race_ok_def)
  note pub = round_bucket_publishable [OF total ads(2) rb]
  show "pc_bucket ?pc b = Inr v" "bk_version b = DHT_BUCKET_VERSION" "distinct (map node_id (bk_ads b))"
      "set (bk_ads b) \<subseteq> range (rc_ad rc)" "newer_of (bk_ads b) (rc_ad rc p)"
    using pub ads(1) by (auto simp: publishable_def newer_of_def)
  let ?p = "Some (node_id (rc_ad rc p))" and ?u = "upsert (bucket_new ads) (rc_ad rc p)"
  from rb obtain r where tr: "trim_to_size ?pc ?u ?p = (b, r)"
    by (auto simp: round_bucket_def Let_def split: prod.splits sum.splits if_splits)
  have len: "\<exists>n. encoded_len ?pc b = Inr n" for b
  proof -
    obtain bs where "pc_bucket ?pc b = Inr bs" using ok by (auto simp: race_ok_def bucket_codec_total_def)
    then show ?thesis by (simp add: encoded_len_def)
  qed
  have u: "bk_ads ?u = upsert_ads (rc_ad rc p) ads" "\<And>S. ?u\<lparr>bk_ads := S\<rparr> = bucket_new S"
    by (simp_all add: upsert_def bucket_new_def)
  have "distinct (map node_id (sort_key (preferred_ad_sort_key ?p) (bk_ads ?u)))"
    by (simp add: distinct_map_sort_key u upsert_ads_distinct ads(2))
  moreover have "set (bk_ads ?u) \<subseteq> range (rc_ad rc)" using upsert_ads_subset [of "rc_ad rc p" ads] ads(1) by (auto simp: u)
  ultimately have "bucket_fits ?pc (?u\<lparr>bk_ads := sort_key (preferred_ad_sort_key ?p) (bk_ads ?u)\<rparr>)"
    using fits unfolding u(2) race_fits_def by simp
  from trim_fitting [OF len tr this] have "set (bk_ads b) = set (upsert_ads (rc_ad rc p) ads)" by (simp add: u)
  then show "x \<in> set ads \<Longrightarrow> newer_of (bk_ads b) x" using upsert_ads_keeps [of x ads] by (simp add: newer_of_def)
qed

text \<open>The read of a round, when the DHT follows the rules.\<close>

lemma race_read:
  assumes ok: "race_ok rc" and store: "mutable_store snapshot stored ml"
    and snap: "\<And>it. snapshot = Some it \<Longrightarrow> \<exists>b. holds rc it b"
    and rd: "read_shard_state ((rc_env rc)\<lparr>pe_mainline := ml\<rparr>) n (rc_alpn rc) (rc_minute rc) (rc_shard rc) (rc_now rc p) = (ads, cas)"
  shows "set ads \<subseteq> range (rc_ad rc)" and "distinct (map node_id ads)"
    and "cas = None \<or> (\<exists>it b. snapshot = Some it \<and> cas = Some (mi_seq it) \<and> holds rc it b \<and> (\<forall>x \<in> set (bk_ads b). newer_of ads x))"
proof -
  let ?pc = "pe_postcard (rc_env rc)"
  let ?v = "verify (pe_crypto (rc_env rc)) ?pc (rc_alpn rc) (rc_minute rc) (rc_shard rc) (rc_now rc p)"
  let ?merge = "\<lambda>bs. merge_valid (pe_crypto (rc_env rc)) ?pc bs (rc_alpn rc) (rc_minute rc) (rc_shard rc) (rc_now rc p)"
  show dist: "distinct (map node_id ads)" using read_shard_state_ads(1) [OF rd] .
  let ?key = "ml_verifying_key ml (derive_signing_key (pe_sha (rc_env rc)) (rc_alpn rc) (rc_minute rc) (rc_shard rc))"
    and ?salt = "derive_salt (pe_sha (rc_env rc)) (rc_alpn rc) (rc_minute rc) (rc_shard rc)"
  have "ml_get ml n ?key ?salt = Inr (case snapshot of None \<Rightarrow> [] | Some item \<Rightarrow> [item]) \<or>
      (\<exists>err. ml_get ml n ?key ?salt = Inl err)" using store unfolding mutable_store_def by blast
  then consider "\<exists>err. ml_get ml n ?key ?salt = Inl err" | "snapshot = None" "ml_get ml n ?key ?salt = Inr []"
    | it where "snapshot = Some it" "ml_get ml n ?key ?salt = Inr [it]"
    by (cases snapshot) auto
  then consider "ads = []" "cas = None" | "ads = ?merge []" "cas = None"
    | it where "snapshot = Some it" "ads = ?merge (decode_buckets ?pc [it])" "cas = Some (mi_seq it)"
    using rd by cases (auto simp: read_shard_state_def Let_def iter_max_def decode_buckets_def List.map_filter_def)
  then have "set ads \<subseteq> range (rc_ad rc) \<and>
      (cas = None \<or> (\<exists>it b. snapshot = Some it \<and> cas = Some (mi_seq it) \<and> holds rc it b \<and> (\<forall>x \<in> set (bk_ads b). newer_of ads x)))"
  proof cases
    case 2
    have "ads = []" unfolding 2 by (simp add: merge_valid_def btree_values_def)
    with 2 show ?thesis by simp
  next
    case (3 it)
    from snap [OF 3(1)] obtain b where b: "holds rc it b" by blast
    then have dec: "decode_buckets ?pc [it] = [b]" by (simp add: decode_buckets_def List.map_filter_def holds_def)
    have all: "?v a" if "a \<in> set (bk_ads b)" for a using that b race_ad_verifies [OF ok] by (auto simp: holds_def)
    have valid: "set (valid_ads ?v [b]) = set (bk_ads b)" using all b by (auto simp: valid_ads_def holds_def)
    have "newer_of ads x" if "x \<in> set (bk_ads b)" for x
      using merge_valid_complete [of x _ _ _ _ _ _ "[b]"] that valid unfolding 3(2) dec newer_of_def by blast
    moreover have "set ads \<subseteq> range (rc_ad rc)"
      using merge_valid_sound [of _ _ "[b]"] valid b unfolding 3(2) dec holds_def by blast
    ultimately show ?thesis using 3 b by blast
  qed simp
  then show "set ads \<subseteq> range (rc_ad rc)"
    "cas = None \<or> (\<exists>it b. snapshot = Some it \<and> cas = Some (mi_seq it) \<and> holds rc it b \<and> (\<forall>x \<in> set (bk_ads b). newer_of ads x))"
    by blast+
qed

lemma race_attempt_accepted:
  assumes "race_attempt rc p ml n = ([(item, cas)], Returned (Inr ()))"
  obtains ads b v where
    "read_shard_state ((rc_env rc)\<lparr>pe_mainline := ml\<rparr>) n (rc_alpn rc) (rc_minute rc) (rc_shard rc) (rc_now rc p) = (ads, cas)"
    "round_bucket ((rc_env rc)\<lparr>pe_mainline := ml\<rparr>) ads (rc_ad rc p) = Inr (b, v)" "mi_value item = v"
    "next_seq (pe_overflow_checks (rc_env rc)) cas = Some (mi_seq item)" "ml_put ml n item cas = Inr PutOk"
  using assms by (auto simp: race_attempt_def Let_def split: prod.splits sum.splits option.splits put_result.splits)

text \<open>An accepted write stores the writer's advertisement, and everything it read; what it read carried
  the compare-and-swap value.\<close>

lemma accepted_write:
  assumes ok: "race_ok rc" and fits: "race_fits rc" and store: "mutable_store snapshot stored ml"
    and snap: "\<And>it. snapshot = Some it \<Longrightarrow> \<exists>b. holds rc it b"
    and acc: "race_attempt rc p ml n = ([(item, cas)], Returned (Inr ()))"
  shows "\<exists>b'. holds rc item b' \<and> newer_of (bk_ads b') (rc_ad rc p) \<and>
     (cas = None \<or> (\<exists>it b. snapshot = Some it \<and> cas = Some (mi_seq it) \<and> holds rc it b \<and>
        (\<forall>x \<in> set (bk_ads b). newer_of (bk_ads b') x)))"
    and "next_seq (pe_overflow_checks (rc_env rc)) cas = Some (mi_seq item)" and "ml_put ml n item cas = Inr PutOk"
proof -
  from acc obtain ads b' v where r:
    "read_shard_state ((rc_env rc)\<lparr>pe_mainline := ml\<rparr>) n (rc_alpn rc) (rc_minute rc) (rc_shard rc) (rc_now rc p) = (ads, cas)"
    "round_bucket ((rc_env rc)\<lparr>pe_mainline := ml\<rparr>) ads (rc_ad rc p) = Inr (b', v)" "mi_value item = v"
    and n: "next_seq (pe_overflow_checks (rc_env rc)) cas = Some (mi_seq item)" "ml_put ml n item cas = Inr PutOk"
    by (rule race_attempt_accepted)
  note rd = race_read [OF ok store snap r(1)] and keeps = round_bucket_keeps [OF ok fits rd(1,2) r(2)]
  have "holds rc item b'" using keeps(1-4) r(3) ok by (simp add: holds_def race_ok_def bucket_codec_round_trip_def)
  moreover have "newer_of (bk_ads b') x" if "newer_of ads x" for x using that keeps(6) by (rule newer_of_trans)
  ultimately show "\<exists>b'. holds rc item b' \<and> newer_of (bk_ads b') (rc_ad rc p) \<and>
     (cas = None \<or> (\<exists>it b. snapshot = Some it \<and> cas = Some (mi_seq it) \<and> holds rc it b \<and>
        (\<forall>x \<in> set (bk_ads b). newer_of (bk_ads b') x)))"
    using keeps(5) rd(3) by blast
  show "next_seq (pe_overflow_checks (rc_env rc)) cas = Some (mi_seq item)" "ml_put ml n item cas = Inr PutOk" by (fact n)+
qed

section \<open>The invariant\<close>

definition stored_ok :: "race \<Rightarrow> race_state \<Rightarrow> bool" where
  "stored_ok rc st \<longleftrightarrow> (\<forall>it. rg_item st = Some it \<or> (\<exists>p. rg_read st p = Some (Some it)) \<longrightarrow> (\<exists>b. holds rc it b))"

definition reads_ok :: "race_state \<Rightarrow> bool" where
  "reads_ok st \<longleftrightarrow> (\<forall>p it. rg_read st p = Some (Some it) \<longrightarrow>
     (\<exists>cur. rg_item st = Some cur \<and> mi_seq it \<le> mi_seq cur \<and> (mi_seq it = mi_seq cur \<longrightarrow> it = cur)))"

definition done_ok :: "race \<Rightarrow> race_state \<Rightarrow> bool" where
  "done_ok rc st \<longleftrightarrow> (\<forall>p \<in> rg_done st. \<exists>it b. rg_item st = Some it \<and> holds rc it b \<and> newer_of (bk_ads b) (rc_ad rc p))"

definition race_inv :: "race \<Rightarrow> race_state \<Rightarrow> bool" where
  "race_inv rc st \<longleftrightarrow> stored_ok rc st \<and> (\<not> rg_blind st \<longrightarrow> reads_ok st \<and> done_ok rc st)"

lemma holds_unique: "holds rc it b \<Longrightarrow> holds rc it b' \<Longrightarrow> b = b'"
  by (simp add: holds_def)

lemma compared_write_grows:
  assumes "mutable_store snapshot (Some cur) ml" and "ml_put ml n item (Some (mi_seq it)) = Inr PutOk"
    and "next_seq checks (Some (mi_seq it)) = Some (mi_seq item)"
  shows "mi_seq it = mi_seq cur \<and> mi_seq cur < mi_seq item"
proof -
  have seq: "mi_seq it = mi_seq cur" "mi_seq cur \<le> mi_seq item"
    using assms(1,2) unfolding mutable_store_def by blast+
  with assms(3) show ?thesis by (auto simp: next_seq_def I64_MAX_def I64_MIN_def split: if_splits)
qed

lemma accepted_inv:
  assumes ok: "race_ok rc" and fits: "race_fits rc" and inv: "race_inv rc st" and rd: "rg_read st p = Some snapshot"
    and store: "mutable_store snapshot (rg_item st) ml" and acc: "race_attempt rc p ml n = ([(item, cas)], Returned (Inr ()))"
  shows "race_inv rc (st\<lparr>rg_item := Some item, rg_read := (rg_read st)(p := None), rg_done := insert p (rg_done st),
       rg_blind := rg_blind st \<or> (cas = None \<and> rg_item st \<noteq> None)\<rparr>)" (is "race_inv rc ?st")
proof -
  have stored: "\<exists>b. holds rc it b" if "rg_item st = Some it \<or> rg_read st q = Some (Some it)" for it q
    using inv that by (auto simp: race_inv_def stored_ok_def)
  note aw = accepted_write [OF ok fits store _ acc]
  obtain b' where b': "holds rc item b'" "newer_of (bk_ads b') (rc_ad rc p)"
      "cas = None \<or> (\<exists>it b. snapshot = Some it \<and> cas = Some (mi_seq it) \<and> holds rc it b \<and>
        (\<forall>x \<in> set (bk_ads b). newer_of (bk_ads b') x))"
    using aw(1) stored rd by blast
  have put: "next_seq (pe_overflow_checks (rc_env rc)) cas = Some (mi_seq item)" "ml_put ml n item cas = Inr PutOk"
    using aw(2,3) stored rd by blast+
  have "reads_ok ?st \<and> done_ok rc ?st" if "\<not> rg_blind ?st"
  proof (cases cas)
    case None
    with that have "rg_item st = None" "\<not> rg_blind st" by auto
    then have "rg_done st = {}" "\<And>q it. rg_read st q \<noteq> Some (Some it)"
      using inv by (auto simp: race_inv_def reads_ok_def done_ok_def)
    then show ?thesis using b' by (auto simp: reads_ok_def done_ok_def)
  next
    case (Some seq)
    with b'(3) obtain it b where it: "snapshot = Some it" "cas = Some (mi_seq it)" "holds rc it b"
        "\<forall>x \<in> set (bk_ads b). newer_of (bk_ads b') x" by auto
    from that have nb: "reads_ok st" "done_ok rc st" using inv by (auto simp: race_inv_def)
    from nb(1) rd it(1) obtain cur where cur: "rg_item st = Some cur" "mi_seq it = mi_seq cur \<longrightarrow> it = cur"
      by (auto simp: reads_ok_def)
    from compared_write_grows [OF store [unfolded cur(1)] put(2,1) [unfolded it(2)]]
    have grows: "mi_seq it = mi_seq cur" "mi_seq cur < mi_seq item" by blast+
    then have "it = cur" using cur(2) by simp
    have "newer_of (bk_ads b') (rc_ad rc q)" if "q \<in> rg_done st" for q
    proof -
      from nb(2) that cur(1) it(3) \<open>it = cur\<close> have "newer_of (bk_ads b) (rc_ad rc q)"
        by (auto simp: done_ok_def dest: holds_unique)
      then show ?thesis using it(4) newer_of_trans by blast
    qed
    moreover have "reads_ok ?st" using nb(1) cur(1) grows(2) by (fastforce simp: reads_ok_def)
    ultimately show ?thesis using b'(1,2) by (auto simp: done_ok_def)
  qed
  moreover have "stored_ok rc ?st" using stored b'(1) by (auto simp: stored_ok_def)
  ultimately show ?thesis by (simp add: race_inv_def)
qed

lemma race_step_inv:
  assumes "race_step rc st st'" and "race_ok rc" and "race_fits rc" and "race_inv rc st"
  shows "race_inv rc st'"
  using assms
proof cases
  case (accepted p snapshot ml n item cas)
  with accepted_inv [OF assms(2-4)] show ?thesis by simp
qed (auto simp: race_inv_def stored_ok_def reads_ok_def done_ok_def)

lemma race_reachable_inv: "race_reachable rc st \<Longrightarrow> race_ok rc \<Longrightarrow> race_fits rc \<Longrightarrow> race_inv rc st"
proof (induction rule: race_reachable.induct)
  case start
  show ?case by (simp add: race_inv_def stored_ok_def reads_ok_def done_ok_def race_new_def)
qed (rule race_step_inv)

section \<open>Properties\<close>

text \<open>(C15) Publishers of one bucket do not lose each other's advertisements: whatever the order of their
  reads and writes, once the write of a publisher was accepted the stored bucket has an advertisement
  of its node at least as new, which every publisher of that minute accepts; provided that no write
  without a compare-and-swap value replaced an item, and that the advertisements fit into one bucket.\<close>

theorem publishers_keep_each_other:
  assumes "race_ok rc" and "race_fits rc" and "race_reachable rc st" and "\<not> rg_blind st" and "p \<in> rg_done st"
  shows "\<exists>item b a. rg_item st = Some item \<and> pc_bucket_from (pe_postcard (rc_env rc)) (mi_value item) = Inr b \<and>
    a \<in> set (bk_ads b) \<and> node_id a = key_public (pe_crypto (rc_env rc)) (rc_key rc p) \<and> rc_now rc p \<le> published_at a \<and>
    (\<forall>q. verify (pe_crypto (rc_env rc)) (pe_postcard (rc_env rc)) (rc_alpn rc) (rc_minute rc) (rc_shard rc) (rc_now rc q) a)"
proof -
  from race_reachable_inv [OF assms(3,1,2)] assms(4,5) obtain item b where
    b: "rg_item st = Some item" "holds rc item b" "newer_of (bk_ads b) (rc_ad rc p)"
    by (auto simp: race_inv_def done_ok_def)
  then obtain a where a: "a \<in> set (bk_ads b)" "node_id a = node_id (rc_ad rc p)" "ad_sort_key a \<le> ad_sort_key (rc_ad rc p)"
    by (auto simp: newer_of_def)
  from a(1) b(2) obtain r where "a = rc_ad rc r" by (auto simp: holds_def)
  then have "verify (pe_crypto (rc_env rc)) (pe_postcard (rc_env rc)) (rc_alpn rc) (rc_minute rc) (rc_shard rc) (rc_now rc q) a" for q
    using race_ad_verifies [OF assms(1)] by simp
  moreover have "rc_now rc p \<le> published_at a"
    using ad_sort_key_le_published [OF a(3)] race_ad_fields(1) [OF assms(1)] by simp
  ultimately show ?thesis using a(1,2) b(1,2) race_ad_fields(3) [OF assms(1), of p] by (auto simp: holds_def)
qed

section \<open>Witnesses\<close>

text \<open>Two nodes, \<open>[7]\<close> and \<open>[9]\<close>, publish the service \<open>[65]\<close> into shard 4 at second 0, under a scheme of short
  signatures.\<close>

definition wx_crypto :: crypto where
  "wx_crypto = ref_crypto\<lparr>key_sign := (\<lambda>sk m. sk), id_verify := (\<lambda>eid m s. s = eid)\<rparr>"

definition wx_ad :: "u8 \<Rightarrow> signed_service_ad" where
  "wx_ad k = \<lparr>sa_ad = \<lparr>ad_node_id = [k], ad_tags = [], ad_published_at = 0, ad_expires_at = 120\<rparr>, sa_signature = [k]\<rparr>"

definition wx_env :: publish_env where
  "wx_env = (ws_env True [])\<lparr>pe_crypto := wx_crypto\<rparr>"

definition wx_node :: "nat \<Rightarrow> u8" where
  "wx_node p = (if p = 0 then 7 else 9)"

definition wx_race :: race where
  "wx_race = \<lparr>rc_env = wx_env, rc_alpn = [65], rc_minute = 0, rc_shard = 4, rc_key = (\<lambda>p. [wx_node p]), rc_tags = (\<lambda>_. []),
     rc_now = (\<lambda>_. 0), rc_ad = (\<lambda>p. wx_ad (wx_node p))\<rparr>"

definition wx_mainline :: "mutable_item option \<Rightarrow> mutable_item option \<Rightarrow> mainline" where
  "wx_mainline snapshot stored =
     \<lparr>ml_verifying_key = id, ml_get = (\<lambda>_ _ _. Inr (case snapshot of None \<Rightarrow> [] | Some item \<Rightarrow> [item])),
      ml_put = (\<lambda>_ item cas. case stored of
        None \<Rightarrow> Inr PutOk
      | Some old \<Rightarrow> if mi_seq old \<le> mi_seq item \<and> cas \<in> {None, Some (mi_seq old)} then Inr PutOk
          else Inr (PutConcurrency ''stale''))\<rparr>"

lemma wx_store: "mutable_store snapshot stored (wx_mainline snapshot stored)"
  by (auto simp: mutable_store_def wx_mainline_def split: option.splits if_splits)

lemma wx_fields [simp]:
  "rc_env wx_race = wx_env" "rc_alpn wx_race = [65]" "rc_minute wx_race = 0" "rc_shard wx_race = 4"
  "rc_key wx_race p = [wx_node p]" "rc_tags wx_race p = []" "rc_now wx_race p = 0" "rc_ad wx_race p = wx_ad (wx_node p)" "pe_postcard wx_env = ref_postcard"
  "pe_crypto wx_env = wx_crypto" "pe_sha wx_env = id" "pe_overflow_checks wx_env = True" "node_id (wx_ad k) = [k]"
  by (simp_all add: wx_race_def wx_env_def ws_env_def wx_ad_def node_id_def)

lemma wx_sign:
  "sign wx_crypto ref_postcard [k] [65] 0 4 [] 0 (saturating_add 0 DHT_AD_TTL_SECS) = Inr (wx_ad k)"
  by (simp add: wx_crypto_def ref_crypto_def sign_def signing_message_def ref_postcard_def ref_envelope_def wx_ad_def
      saturating_add_def DHT_AD_TTL_SECS_def)

lemma wx_ok: "race_ok wx_race"
proof -
  have "sign_correct wx_crypto [k]" for k by (simp add: sign_correct_def wx_crypto_def ref_crypto_def)
  then show ?thesis by (simp add: race_ok_def ref_codec_total ref_codec_round_trip word_gt_0 wx_sign)
qed

lemma wx_len: "set ads \<subseteq> range wx_ad \<Longrightarrow> encoded_len ref_postcard (bucket_new ads) = Inr (2 + 250 * length ads)"
proof -
  have "length (enc_ad (wx_ad k)) = 249" for k by (simp add: enc_ad_def wx_ad_def enc_u64_def length_enc_seq)
  then have "set ads \<subseteq> range wx_ad \<Longrightarrow> length (enc_list enc_ad ads) = 1 + 250 * length ads"
    by (induction ads) auto
  then show "set ads \<subseteq> range wx_ad \<Longrightarrow> encoded_len ref_postcard (bucket_new ads) = Inr (2 + 250 * length ads)"
    by (simp add: encoded_len_def ref_postcard_def ref_bucket_def bucket_new_def)
qed

lemma wx_fits: "race_fits wx_race"
proof -
  have "length ads \<le> 2" if "set ads \<subseteq> {wx_ad 7, wx_ad 9}" "distinct (map node_id ads)" for ads
    using that card_mono [OF _ that(1)] distinct_card [of ads] card_insert_le_m1 [of 2 "{wx_ad 9}" "wx_ad 7"]
    by (auto simp: distinct_map)
  moreover have "range (rc_ad wx_race) = {wx_ad 7, wx_ad 9}" by (auto simp: wx_node_def)
  ultimately have "length ads \<le> 2 \<and> set ads \<subseteq> range wx_ad"
    if "set ads \<subseteq> range (rc_ad wx_race)" "distinct (map node_id ads)" for ads
    using that by auto
  note small = this
  show ?thesis unfolding race_fits_def
  proof (intro allI impI)
    fix ads
    assume "set ads \<subseteq> range (rc_ad wx_race) \<and> distinct (map node_id ads)"
    with small have "length ads \<le> 2" "set ads \<subseteq> range wx_ad" by blast+
    then show "bucket_fits (pe_postcard (rc_env wx_race)) (bucket_new ads)"
      by (simp add: bucket_fits_def wx_len DHT_MAX_BUCKET_BYTES_def)
  qed
qed

definition wx_item :: "i64 \<Rightarrow> signed_service_ad list \<Rightarrow> mutable_item" where
  "wx_item seq ads = \<lparr>mi_key = key_preimage [65] 0 4, mi_value = 2 # enc_list enc_ad ads, mi_seq = seq, mi_salt = salt_preimage [65] 0 4\<rparr>"

lemma wx_read_none:
  "read_shard_state (wx_env\<lparr>pe_mainline := wx_mainline None stored\<rparr>) n [65] 0 4 0 = ([], None)"
  by (simp add: read_shard_state_def wx_mainline_def Let_def decode_buckets_def merge_valid_def iter_max_def
      List.map_filter_def btree_values_def)

lemma wx_read_one:
  "read_shard_state (wx_env\<lparr>pe_mainline := wx_mainline (Some (wx_item 1 [wx_ad 7])) stored\<rparr>) n [65] 0 4 0 = ([wx_ad 7], Some 1)"
proof -
  have "pc_bucket_from ref_postcard (2 # enc_list enc_ad [wx_ad 7]) = Inr (bucket_new [wx_ad 7])"
    using ref_bucket_round_trip [of "bucket_new [wx_ad 7]"]
    by (simp add: bucket_new_def ref_postcard_def ref_bucket_def DHT_BUCKET_VERSION_def)
  moreover have "verify wx_crypto ref_postcard [65] 0 4 0 (wx_ad 7)"
    using race_ad_verifies [OF wx_ok, of 0 0] by (simp add: wx_node_def)
  ultimately show ?thesis
    by (simp add: read_shard_state_def wx_mainline_def Let_def decode_buckets_def List.map_filter_def wx_item_def iter_max_def
        merge_valid_def merge_bucket_def merge_ad_def bucket_new_def btree_get_def btree_values_def DHT_BUCKET_VERSION_def)
qed

lemma wx_round:
  assumes "ads = [] \<or> ads = [wx_ad 7] \<and> k = 9"
  shows "round_bucket (wx_env\<lparr>pe_mainline := ml\<rparr>) ads (wx_ad k) =
    Inr (bucket_new (wx_ad k # ads), 2 # enc_list enc_ad (wx_ad k # ads))"
proof -
  let ?p = "Some [k]"
  have "sort_key (preferred_ad_sort_key ?p) (upsert_ads (wx_ad k) ads) = wx_ad k # ads"
    using assms by (auto simp: preferred_ad_sort_key_def)
  then have "trim_to_size ref_postcard (upsert (bucket_new ads) (wx_ad k)) ?p = (bucket_new (wx_ad k # ads), Inr True)"
    using assms wx_len [of "wx_ad k # ads"]
    by (auto simp: trim_to_size_def Let_def upsert_def bucket_new_def trim_loop.simps DHT_MAX_BUCKET_BYTES_def)
  then show ?thesis by (simp add: round_bucket_def ref_postcard_def ref_bucket_def) (simp add: bucket_new_def DHT_BUCKET_VERSION_def)
qed

lemma wx_attempt:
  assumes "read_shard_state (wx_env\<lparr>pe_mainline := ml\<rparr>) n [65] 0 4 0 = (ads, cas)" and "ads = [] \<or> ads = [wx_ad 7] \<and> wx_node p = 9"
    and "next_seq True cas = Some seq" and "ml_put ml n (wx_item seq (wx_ad (wx_node p) # ads)) cas = Inr PutOk"
  shows "race_attempt wx_race p ml n = ([(wx_item seq (wx_ad (wx_node p) # ads), cas)], Returned (Inr ()))"
  using assms wx_round [OF assms(2)]
  by (simp add: race_attempt_def Let_def) (simp add: wx_item_def derive_signing_key_def derive_salt_def)

text \<open>One after the other: the second publisher reads what the first one wrote.\<close>

definition wx_first :: race_state where
  "wx_first = \<lparr>rg_item = Some (wx_item 1 [wx_ad 7]), rg_read = (\<lambda>_. None), rg_done = {0}, rg_blind = False\<rparr>"

definition wx_second :: race_state where
  "wx_second = \<lparr>rg_item = Some (wx_item 2 [wx_ad 9, wx_ad 7]), rg_read = (\<lambda>_. None), rg_done = {0, 1}, rg_blind = False\<rparr>"

lemma wx_first_reachable: "race_reachable wx_race wx_first"
proof -
  let ?st = "race_new\<lparr>rg_read := (rg_read race_new)(0 \<mapsto> rg_item race_new)\<rparr>" and ?ml = "wx_mainline None None"
  have "race_reachable wx_race ?st" by (rule race_reachable.step [OF race_reachable.start race_step.read])
  moreover have "race_attempt wx_race 0 ?ml 0 = ([(wx_item 1 [wx_ad 7], None)], Returned (Inr ()))"
    using wx_attempt [OF wx_read_none, of 0 1 None 0] by (simp add: wx_node_def next_seq_def wx_mainline_def)
  ultimately show ?thesis
    using race_reachable.step [OF _ race_step.accepted [of ?st 0 None ?ml wx_race 0]] wx_store [of None None]
    by (simp add: race_new_def wx_first_def)
qed

lemma wx_second_reachable: "race_reachable wx_race wx_second"
proof -
  let ?i = "Some (wx_item 1 [wx_ad 7])"
  let ?st = "wx_first\<lparr>rg_read := (rg_read wx_first)(1 \<mapsto> rg_item wx_first)\<rparr>" and ?ml = "wx_mainline ?i ?i"
  have "race_reachable wx_race ?st" by (rule race_reachable.step [OF wx_first_reachable race_step.read])
  moreover have "race_attempt wx_race 1 ?ml 0 = ([(wx_item 2 [wx_ad 9, wx_ad 7], Some 1)], Returned (Inr ()))"
    using wx_attempt [OF wx_read_one, of 1 2 ?i 0] by (simp add: wx_node_def next_seq_def wx_mainline_def I64_MAX_def wx_item_def)
  ultimately show ?thesis
    using race_reachable.step [OF _ race_step.accepted [of ?st 1 ?i ?ml wx_race 0]] wx_store [of ?i ?i]
    by (simp add: wx_first_def wx_second_def insert_commute)
qed

theorem publishers_keep_each_other_witness:
  "\<exists>b a. pc_bucket_from ref_postcard (mi_value (wx_item 2 [wx_ad 9, wx_ad 7])) = Inr b \<and> a \<in> set (bk_ads b) \<and> node_id a = [7]"
  using publishers_keep_each_other [OF wx_ok wx_fits wx_second_reachable, of 0]
  by (auto simp: wx_second_def wx_node_def wx_crypto_def ref_crypto_def)

text \<open>The first writes of a bucket carry no compare-and-swap value: two publishers that both found it empty
  can both be told that they published, with one advertisement lost.\<close>

lemma first_writes_race:
  "\<exists>st. race_reachable wx_race st \<and> rg_done st = {0, 1} \<and> rg_item st = Some (wx_item 1 [wx_ad 9])"
proof -
  let ?a = "race_new\<lparr>rg_read := (rg_read race_new)(0 \<mapsto> rg_item race_new)\<rparr>"
  let ?b = "?a\<lparr>rg_read := (rg_read ?a)(1 \<mapsto> rg_item ?a)\<rparr>" and ?i = "Some (wx_item 1 [wx_ad 7])"
  let ?c = "?b\<lparr>rg_item := ?i, rg_read := (rg_read ?b)(0 := None), rg_done := insert 0 (rg_done ?b),
      rg_blind := rg_blind ?b \<or> (None = (None :: i64 option) \<and> rg_item ?b \<noteq> None)\<rparr>"
  have "race_reachable wx_race ?b" by (intro race_reachable.step [OF _ race_step.read] race_reachable.start)
  moreover have "race_attempt wx_race 0 (wx_mainline None None) 0 = ([(wx_item 1 [wx_ad 7], None)], Returned (Inr ()))"
    using wx_attempt [OF wx_read_none, of 0 1 None 0] by (simp add: wx_node_def next_seq_def wx_mainline_def)
  ultimately have "race_reachable wx_race ?c"
    using race_reachable.step [OF _ race_step.accepted [of ?b 0 None "wx_mainline None None" wx_race 0]] wx_store [of None None]
    by (simp add: race_new_def)
  moreover have "race_attempt wx_race 1 (wx_mainline None ?i) 0 = ([(wx_item 1 [wx_ad 9], None)], Returned (Inr ()))"
    using wx_attempt [OF wx_read_none, of 1 1 ?i 0] by (simp add: wx_node_def next_seq_def wx_mainline_def wx_item_def)
  ultimately show ?thesis
    using race_reachable.step [OF _ race_step.accepted [of ?c 1 None "wx_mainline None ?i" wx_race 0]] wx_store [of None ?i]
    by (fastforce simp: race_new_def)
qed

end
