(* ===== verification/User_Data.thy ===== *)
theory User_Data
  imports Errors Alpn Reference_Codec
begin

text \<open>
  \<^verbatim>\<open>src/user_data.rs\<close>: the list of protocol names a server announces in its address-lookup record, and
  how a client matches it. The postcard, base64 and \<open>UserData\<close> calls are third-party code, the
  parameter \<open>ud_codec\<close>.
\<close>

section \<open>Definitions\<close>

type_synonym user_data = string

record ud_codec =
  uc_to_allocvec :: "bytes list \<Rightarrow> string + bytes"
  uc_from_bytes :: "bytes \<Rightarrow> string + bytes list"
  uc_b64_encode :: "bytes \<Rightarrow> string"
  uc_b64_decode :: "bytes \<Rightarrow> bytes option"
  uc_parse :: "string \<Rightarrow> user_data option"
  uc_as_ref :: "user_data \<Rightarrow> string"
  uc_max_length :: nat

datatype user_data_alpn_match = Match | Mismatch | Missing

definition encode_alpns :: "ud_codec \<Rightarrow> bytes list \<Rightarrow> error + user_data" where
  "encode_alpns uc alpns =
     (case uc_to_allocvec uc alpns of
        Inl e \<Rightarrow> Inl (address_lookup_metadata (''failed to serialize ALPN metadata: '' @ e))
      | Inr v \<Rightarrow>
          (case uc_parse uc (uc_b64_encode uc v) of
             None \<Rightarrow> Inl (address_lookup_metadata
               (''encoded ALPN metadata exceeds '' @ nat_display (uc_max_length uc) @ '' bytes''))
           | Some ud \<Rightarrow> Inr ud))"

text \<open>Anything that does not decode counts as no protocol at all.\<close>

definition decode_alpns :: "ud_codec \<Rightarrow> user_data \<Rightarrow> bytes list" where
  "decode_alpns uc ud =
     (case uc_b64_decode uc (into_bytes (uc_as_ref uc ud)) of
        None \<Rightarrow> []
      | Some v \<Rightarrow> (case uc_from_bytes uc v of Inl _ \<Rightarrow> [] | Inr alpns \<Rightarrow> alpns))"

definition user_data_has_alpn :: "ud_codec \<Rightarrow> user_data \<Rightarrow> bytes \<Rightarrow> bool" where
  "user_data_has_alpn uc ud alpn = list_ex (\<lambda>a. a = alpn) (decode_alpns uc ud)"

definition user_data_has_service :: "ud_codec \<Rightarrow> string \<Rightarrow> user_data \<Rightarrow> bool" where
  "user_data_has_service uc service ud =
     (let target = service_to_alpn service in list_ex (\<lambda>alpn. alpn = target) (decode_alpns uc ud))"

definition user_data_alpns :: "ud_codec \<Rightarrow> user_data \<Rightarrow> bytes list" where
  "user_data_alpns uc ud = decode_alpns uc ud"

definition classify_user_data_alpn :: "ud_codec \<Rightarrow> user_data option \<Rightarrow> bytes \<Rightarrow> user_data_alpn_match" where
  "classify_user_data_alpn uc user_data alpn =
     (case user_data of
        Some ud \<Rightarrow> (if user_data_has_alpn uc ud alpn then Match else Mismatch)
      | None \<Rightarrow> Missing)"

text \<open>Documented behaviour of the codecs: what was encoded is decoded, and a parsed record shows its text.\<close>

definition ud_codec_round_trip :: "ud_codec \<Rightarrow> bool" where
  "ud_codec_round_trip uc \<longleftrightarrow>
     (\<forall>l v. uc_to_allocvec uc l = Inr v \<longrightarrow> uc_from_bytes uc v = Inr l) \<and>
     (\<forall>v. uc_b64_decode uc (into_bytes (uc_b64_encode uc v)) = Some v) \<and>
     (\<forall>s ud. uc_parse uc s = Some ud \<longrightarrow> uc_as_ref uc ud = s)"

section \<open>Properties\<close>

text \<open>Exactly the announced protocols are matched: what a server encodes is read back as the same
  list, and a client sees \<open>Match\<close> for a protocol or service in it and \<open>Mismatch\<close> for every other.\<close>

lemma user_data_round_trip:
  assumes "ud_codec_round_trip uc" and "encode_alpns uc alpns = Inr ud"
  shows "user_data_alpns uc ud = alpns \<and>
     (\<forall>alpn. classify_user_data_alpn uc (Some ud) alpn = (if alpn \<in> set alpns then Match else Mismatch)) \<and>
     (\<forall>service. user_data_has_service uc service ud \<longleftrightarrow> service_to_alpn service \<in> set alpns)"
proof -
  from assms have "decode_alpns uc ud = alpns"
    by (auto simp: ud_codec_round_trip_def encode_alpns_def decode_alpns_def split: sum.splits option.splits)
  then show ?thesis
    by (auto simp: user_data_alpns_def classify_user_data_alpn_def user_data_has_alpn_def
        user_data_has_service_def list_ex_iff)
qed

section \<open>Witnesses\<close>

definition wu_codec :: ud_codec where
  "wu_codec = \<lparr>uc_to_allocvec = (\<lambda>l. Inr (enc_list enc_seq l)),
     uc_from_bytes = (\<lambda>v. case dec_list (length v) dec_seq v of Some (l, []) \<Rightarrow> Inr l | _ \<Rightarrow> Inl ''bad''),
     uc_b64_encode = map (\<lambda>b. char_of (unat b)), uc_b64_decode = Some,
     uc_parse = (\<lambda>s. if length s \<le> 245 then Some s else None), uc_as_ref = id, uc_max_length = 245\<rparr>"

lemma wu_codec_round_trip: "ud_codec_round_trip wu_codec"
proof -
  have "dec_list (length (enc_list enc_seq l)) dec_seq (enc_list enc_seq l @ []) = Some (l, [])" for l
    by (intro dec_list_enc dec_seq_enc length_enc_list)
  then have "dec_list (length (enc_list enc_seq l)) dec_seq (enc_list enc_seq l) = Some (l, [])" for l
    by simp
  moreover have "byte_of_char (char_of (unat (b :: u8))) = b" for b
    using unsigned_less [where 'a = nat, of b] by (simp add: byte_of_char_def)
  ultimately show ?thesis
    by (auto simp: ud_codec_round_trip_def wu_codec_def into_bytes_def comp_def map_idI)
qed

end
