(* ===== verification/Discovery.thy ===== *)
theory Discovery
  imports Resolver User_Data
begin

text \<open>
  \<^verbatim>\<open>src/swarm/discovery.rs\<close>, \<^verbatim>\<open>src/swarm/peers.rs\<close> and \<^verbatim>\<open>src/swarm/dht/backend.rs\<close>: peers with their trust,
  the feeds of the four sources, and the backends that make them. A feed's stream is the sequence of
  items it yields. What mDNS, the broadcast channel, the clock and the resolver answer over time are
  parameters of the feed that reads them.
\<close>

section \<open>Definitions: peers\<close>

record discovered_peer =
  dp_id :: endpoint_id
  dp_trust :: u8

record peer =
  peer_id :: endpoint_id
  peer_source :: string
  peer_remote_trust :: u8
  peer_source_trust :: u8

definition peer_new :: "discovered_peer \<Rightarrow> string \<Rightarrow> u8 \<Rightarrow> peer" where
  "peer_new discovered source source_trust =
     \<lparr>peer_id = dp_id discovered, peer_source = source, peer_remote_trust = dp_trust discovered,
      peer_source_trust = source_trust\<rparr>"

definition peer_trust :: "peer \<Rightarrow> u8" where
  "peer_trust p = min (peer_remote_trust p) (peer_source_trust p)"

section \<open>Definitions: feeds\<close>

datatype scope = Any | Service bytes

definition scope_matches :: "scope \<Rightarrow> bytes \<Rightarrow> bool" where
  "scope_matches scope alpn = (case scope of Any \<Rightarrow> True | Service s \<Rightarrow> s = alpn)"

type_synonym 'a items = "(error + 'a) list"

record peer_feed_spec =
  fs_name :: string
  fs_priority :: u8
  fs_trust :: u8
  fs_scope :: scope
  fs_stream :: "discovered_peer items"

definition static_feed :: "endpoint_id list \<Rightarrow> u8 \<Rightarrow> u8 \<Rightarrow> scope \<Rightarrow> peer_feed_spec" where
  "static_feed peers priority trust scope =
     \<lparr>fs_name = ''static'', fs_priority = priority, fs_trust = trust, fs_scope = scope,
      fs_stream = map (\<lambda>i. Inr \<lparr>dp_id = i, dp_trust = trust\<rparr>) peers\<rparr>"

datatype mdns_event = MdnsDiscovered endpoint_id "user_data option" | MdnsOther

text \<open>The events the subscription has yielded so far, kept when the announced data names the protocol.\<close>

definition mdns_stream :: "ud_codec \<Rightarrow> mdns_event list \<Rightarrow> bytes \<Rightarrow> u8 \<Rightarrow> discovered_peer items" where
  "mdns_stream uc events alpn trust =
     concat (map (\<lambda>event. case event of
        MdnsDiscovered i ud \<Rightarrow>
          (case classify_user_data_alpn uc ud alpn of
             Match \<Rightarrow> [Inr \<lparr>dp_id = i, dp_trust = trust\<rparr>]
           | Mismatch \<Rightarrow> []
           | Missing \<Rightarrow> [])
      | MdnsOther \<Rightarrow> []) events)"

definition mdns_feed :: "ud_codec \<Rightarrow> mdns_event list \<Rightarrow> bytes \<Rightarrow> u8 \<Rightarrow> u8 \<Rightarrow> peer_feed_spec" where
  "mdns_feed uc events alpn priority trust =
     \<lparr>fs_name = ''mdns'', fs_priority = priority, fs_trust = trust, fs_scope = Service alpn,
      fs_stream = mdns_stream uc events alpn trust\<rparr>"

text \<open>One sweep over the shards: the clock, what each query answers, and the order in which the
  \<open>buffer_unordered\<close> queries finish.\<close>

record dht_sweep =
  sw_clock :: "u64 option"
  sw_query :: "bytes \<Rightarrow> u64 \<Rightarrow> u8 \<Rightarrow> error + signed_service_ad list"
  sw_order :: "u8 list"

definition dht_ad_items :: "crypto \<Rightarrow> string list \<Rightarrow> u8 \<Rightarrow> signed_service_ad \<Rightarrow> discovered_peer items" where
  "dht_ad_items cr required trust ad =
     (if required \<noteq> [] \<and> \<not> has_tags ad required then []
      else (case ad_endpoint_id cr ad of
              None \<Rightarrow> []
            | Some i \<Rightarrow> [Inr \<lparr>dp_id = i, dp_trust = trust\<rparr>]))"

text \<open>How an asynchronous stream stands after some items: it goes on, it ended on an error, or its task
  panicked. An error is yielded and ends the stream.\<close>

datatype stream_state = Going | EndedByError | StreamPanicked

fun dht_queries :: "crypto \<Rightarrow> string list \<Rightarrow> u8 \<Rightarrow> (error + signed_service_ad list) list
    \<Rightarrow> discovered_peer items \<times> stream_state" where
  "dht_queries cr required trust [] = ([], Going)"
| "dht_queries cr required trust (Inl e # _) = ([Inl e], EndedByError)"
| "dht_queries cr required trust (Inr ads # rest) =
     (case dht_queries cr required trust rest of
        (items, st) \<Rightarrow> (concat (map (dht_ad_items cr required trust) ads) @ items, st))"

definition sweep_items :: "crypto \<Rightarrow> bytes \<Rightarrow> string list \<Rightarrow> u8 \<Rightarrow> u64 \<Rightarrow> dht_sweep
    \<Rightarrow> discovered_peer items \<times> stream_state" where
  "sweep_items cr alpn required trust offset sweep =
     (case unix_minute (sw_clock sweep) offset of
        None \<Rightarrow> ([], StreamPanicked)
      | Some minute \<Rightarrow>
          dht_queries cr required trust (map (sw_query sweep alpn minute) (sw_order sweep)))"

fun sweeps :: "crypto \<Rightarrow> bytes \<Rightarrow> string list \<Rightarrow> u8 \<Rightarrow> (u64 \<times> dht_sweep) list
    \<Rightarrow> discovered_peer items \<times> stream_state" where
  "sweeps cr alpn required trust [] = ([], Going)"
| "sweeps cr alpn required trust ((offset, sweep) # rest) =
     (case sweep_items cr alpn required trust offset sweep of
        (items, Going) \<Rightarrow>
          (case sweeps cr alpn required trust rest of (items', st) \<Rightarrow> (items @ items', st))
      | (items, st) \<Rightarrow> (items, st))"

text \<open>The burst queries the current and the previous minute; the poll stream, chained after it whether
  the burst ran through or ended on an error, queries the current minute at every later tick. The timer never
  stops: \<open>de_ticks\<close> are the ticks that have come so far, \<open>dht_stream\<close> is what the feed has yielded by then, and a
  consumer that has taken all of it waits.\<close>

record dht_env =
  de_burst :: "dht_sweep \<times> dht_sweep"
  de_ticks :: "dht_sweep list"

definition dht_stream :: "crypto \<Rightarrow> dht_env \<Rightarrow> bytes \<Rightarrow> string list \<Rightarrow> u8 \<Rightarrow> discovered_peer items" where
  "dht_stream cr de alpn required trust =
     (case sweeps cr alpn required trust [(0, fst (de_burst de)), (- 1, snd (de_burst de))] of
        (burst, StreamPanicked) \<Rightarrow> burst
      | (burst, _) \<Rightarrow> burst @ fst (sweeps cr alpn required trust (map (\<lambda>sw. (0, sw)) (de_ticks de))))"

definition dht_feed :: "crypto \<Rightarrow> dht_env \<Rightarrow> bytes \<Rightarrow> string list \<Rightarrow> u8 \<Rightarrow> u8 \<Rightarrow> peer_feed_spec" where
  "dht_feed cr de alpn required_tags priority trust =
     \<lparr>fs_name = ''dht'', fs_priority = priority, fs_trust = trust, fs_scope = Service alpn,
      fs_stream = dht_stream cr de alpn required_tags trust\<rparr>"

text \<open>What a broadcast receiver yields: a peer, or the notice that it lagged behind, which is skipped.\<close>

definition peer_exchange_feed :: "endpoint_id option list \<Rightarrow> u8 \<Rightarrow> u8 \<Rightarrow> peer_feed_spec" where
  "peer_exchange_feed rx priority trust =
     \<lparr>fs_name = ''peer-exchange'', fs_priority = priority, fs_trust = trust, fs_scope = Any,
      fs_stream = map (\<lambda>i. Inr \<lparr>dp_id = i, dp_trust = trust\<rparr>) (List.map_filter id rx)\<rparr>"

section \<open>Definitions: backends\<close>

record mdns_backend =
  mb_priority :: u8
  mb_trust :: u8

definition mdns_backend_new :: mdns_backend where
  "mdns_backend_new = \<lparr>mb_priority = 50, mb_trust = 200\<rparr>"

definition mdns_set_priority :: "mdns_backend \<Rightarrow> u8 \<Rightarrow> mdns_backend" where
  "mdns_set_priority b x = b\<lparr>mb_priority := x\<rparr>"

definition mdns_set_trust :: "mdns_backend \<Rightarrow> u8 \<Rightarrow> mdns_backend" where
  "mdns_set_trust b x = b\<lparr>mb_trust := x\<rparr>"

definition mdns_backend_feeds :: "ud_codec \<Rightarrow> mdns_event list \<Rightarrow> mdns_backend \<Rightarrow> bytes \<Rightarrow> peer_feed_spec list" where
  "mdns_backend_feeds uc events b alpn = [mdns_feed uc events alpn (mb_priority b) (mb_trust b)]"

record static_spec =
  ss_peers :: "endpoint_id list"
  ss_priority :: u8
  ss_trust :: u8
  ss_scope :: scope

type_synonym static_backend = "static_spec list"

definition static_backend_new :: static_backend where
  "static_backend_new = []"

definition add_peers :: "static_backend \<Rightarrow> scope \<Rightarrow> u8 \<Rightarrow> u8 \<Rightarrow> endpoint_id list \<Rightarrow> static_backend" where
  "add_peers specs scope priority trust peers =
     specs @ [\<lparr>ss_peers = peers, ss_priority = priority, ss_trust = trust, ss_scope = scope\<rparr>]"

definition static_backend_feeds :: "static_backend \<Rightarrow> bytes \<Rightarrow> peer_feed_spec list" where
  "static_backend_feeds specs alpn =
     map (\<lambda>spec. static_feed (ss_peers spec) (ss_priority spec) (ss_trust spec) (ss_scope spec)) specs"

text \<open>\<open>px_sent\<close> is what was sent on the broadcast channel so far.\<close>

record peer_exchange_backend =
  px_priority :: u8
  px_trust :: u8
  px_sent :: "endpoint_id list"

definition peer_exchange_new :: peer_exchange_backend where
  "peer_exchange_new = \<lparr>px_priority = 110, px_trust = 100, px_sent = []\<rparr>"

definition px_set_priority :: "peer_exchange_backend \<Rightarrow> u8 \<Rightarrow> peer_exchange_backend" where
  "px_set_priority b x = b\<lparr>px_priority := x\<rparr>"

definition px_set_trust :: "peer_exchange_backend \<Rightarrow> u8 \<Rightarrow> peer_exchange_backend" where
  "px_set_trust b x = b\<lparr>px_trust := x\<rparr>"

definition ingest_peers :: "peer_exchange_backend \<Rightarrow> endpoint_id list \<Rightarrow> peer_exchange_backend" where
  "ingest_peers b peers = foldl (\<lambda>b p. b\<lparr>px_sent := px_sent b @ [p]\<rparr>) b peers"

definition peer_exchange_feeds :: "endpoint_id option list \<Rightarrow> peer_exchange_backend \<Rightarrow> bytes \<Rightarrow> peer_feed_spec list" where
  "peer_exchange_feeds rx b alpn = [peer_exchange_feed rx (px_priority b) (px_trust b)]"

record dht_backend =
  db_priority :: u8
  db_trust :: u8
  db_poll_interval :: duration
  db_required_tags :: "string list"

definition dht_backend_with_dht :: dht_backend where
  "dht_backend_with_dht =
     \<lparr>db_priority = 100, db_trust = 50, db_poll_interval = from_secs 60, db_required_tags = []\<rparr>"

text \<open>\<open>DhtBackend::new\<close> starts the client first, which may fail to bind.\<close>

definition dht_backend_new :: "string option \<Rightarrow> io_error + dht_backend" where
  "dht_backend_new client_error =
     (case client_error of
        Some e \<Rightarrow> Inl (io_other (SrcMessage (''DHT client: '' @ e)))
      | None \<Rightarrow> Inr dht_backend_with_dht)"

definition dht_set_priority :: "dht_backend \<Rightarrow> u8 \<Rightarrow> dht_backend" where
  "dht_set_priority b x = b\<lparr>db_priority := x\<rparr>"

definition dht_set_trust :: "dht_backend \<Rightarrow> u8 \<Rightarrow> dht_backend" where
  "dht_set_trust b x = b\<lparr>db_trust := x\<rparr>"

definition dht_set_poll_interval :: "dht_backend \<Rightarrow> duration \<Rightarrow> dht_backend" where
  "dht_set_poll_interval b x = b\<lparr>db_poll_interval := x\<rparr>"

definition dht_set_required_tags :: "dht_backend \<Rightarrow> string list \<Rightarrow> dht_backend" where
  "dht_set_required_tags b x = b\<lparr>db_required_tags := x\<rparr>"

definition dht_backend_feeds :: "crypto \<Rightarrow> dht_env \<Rightarrow> dht_backend \<Rightarrow> bytes \<Rightarrow> peer_feed_spec list" where
  "dht_backend_feeds cr de b alpn =
     [dht_feed cr de alpn (db_required_tags b) (db_priority b) (db_trust b)]"

text \<open>\<open>dht_feed\<close> makes its timer when it is called, not when the stream is polled: with an interval of zero the
  caller of \<open>feeds\<close> panics. With any other one the feed is \<open>dht_feed\<close>, whose ticks are part of its surroundings.\<close>

definition dht_feed_checked :: "crypto \<Rightarrow> dht_env \<Rightarrow> bytes \<Rightarrow> duration \<Rightarrow> string list \<Rightarrow> u8 \<Rightarrow> u8 \<Rightarrow> peer_feed_spec outcome" where
  "dht_feed_checked cr de alpn poll_interval required_tags priority trust =
     (case tokio_interval poll_interval of
        Panicked \<Rightarrow> Panicked
      | Returned _ \<Rightarrow> Returned (dht_feed cr de alpn required_tags priority trust))"

definition dht_backend_feeds_checked :: "crypto \<Rightarrow> dht_env \<Rightarrow> dht_backend \<Rightarrow> bytes \<Rightarrow> peer_feed_spec list outcome" where
  "dht_backend_feeds_checked cr de b alpn =
     (case dht_feed_checked cr de alpn (db_poll_interval b) (db_required_tags b) (db_priority b) (db_trust b) of
        Panicked \<Rightarrow> Panicked
      | Returned feed \<Rightarrow> Returned [feed])"

definition create_publisher :: "dht_backend \<Rightarrow> bytes \<Rightarrow> dht_publisher_config \<Rightarrow> dht_publisher" where
  "create_publisher b endpoint_secret_key config = publisher_new endpoint_secret_key config"

section \<open>The trait\<close>

text \<open>
  The trait \<open>Discovery\<close>: a name and the feeds for a protocol. Every backend of the repository names
  its feeds by its own name, gives its peers the trust of the feed, and never yields an error that
  its source did not.
\<close>

locale discovery_trait =
  fixes name :: string
    and feeds :: "bytes \<Rightarrow> peer_feed_spec list"
  assumes feed_name: "f \<in> set (feeds alpn) \<Longrightarrow> fs_name f = name"
    and feed_trust: "f \<in> set (feeds alpn) \<Longrightarrow> Inr p \<in> set (fs_stream f) \<Longrightarrow> dp_trust p = fs_trust f"
begin

text \<open>So a peer made from an item of a feed names the backend and has exactly the trust of the feed.\<close>

lemma peer_of_feed:
  assumes "f \<in> set (feeds alpn)" and "Inr p \<in> set (fs_stream f)"
  shows "peer_source (peer_new p (fs_name f) (fs_trust f)) = name \<and>
     peer_trust (peer_new p (fs_name f) (fs_trust f)) = fs_trust f"
  using feed_name [OF assms(1)] feed_trust [OF assms] by (simp add: peer_new_def peer_trust_def)

end

lemma mdns_stream_items:
  "Inr p \<in> set (mdns_stream uc events alpn trust) \<longleftrightarrow>
     (\<exists>ud. MdnsDiscovered (dp_id p) (Some ud) \<in> set events \<and> user_data_has_alpn uc ud alpn \<and> dp_trust p = trust)"
  by (cases p) (force simp: mdns_stream_def classify_user_data_alpn_def
      split: mdns_event.splits option.splits if_splits)

text \<open>A peer of a sweep has an advertisement with the required tags in one of the answers.\<close>

lemma dht_ad_items_mem:
  "Inr p \<in> set (dht_ad_items cr required trust ad) \<longleftrightarrow>
     ad_endpoint_id cr ad = Some (dp_id p) \<and> has_tags ad required \<and> dp_trust p = trust"
  by (cases p) (auto simp: dht_ad_items_def has_tags_def split: option.splits)

lemma dht_queries_mem:
  "Inr p \<in> set (fst (dht_queries cr required trust rs)) \<Longrightarrow>
     \<exists>ads ad. Inr ads \<in> set rs \<and> ad \<in> set ads \<and> Inr p \<in> set (dht_ad_items cr required trust ad)"
proof (induction cr required trust rs rule: dht_queries.induct)
  case (3 cr required trust ads rest)
  then show ?case by (fastforce split: prod.splits)
qed simp_all

lemma sweep_items_mem:
  assumes "Inr p \<in> set (fst (sweep_items cr alpn required trust offset sweep))"
  shows "\<exists>minute shard ads ad. unix_minute (sw_clock sweep) offset = Some minute \<and> shard \<in> set (sw_order sweep) \<and>
     sw_query sweep alpn minute shard = Inr ads \<and> ad \<in> set ads \<and>
     ad_endpoint_id cr ad = Some (dp_id p) \<and> has_tags ad required \<and> dp_trust p = trust"
proof -
  from assms obtain minute where minute: "unix_minute (sw_clock sweep) offset = Some minute"
    "Inr p \<in> set (fst (dht_queries cr required trust (map (sw_query sweep alpn minute) (sw_order sweep))))"
    by (auto simp: sweep_items_def split: option.splits)
  from dht_queries_mem [OF this(2)] obtain ads ad where
    "Inr ads \<in> set (map (sw_query sweep alpn minute) (sw_order sweep))" "ad \<in> set ads"
    "Inr p \<in> set (dht_ad_items cr required trust ad)" by blast
  with minute(1) show ?thesis by (simp add: dht_ad_items_mem) (metis imageE)
qed

lemma sweeps_mem:
  "Inr p \<in> set (fst (sweeps cr alpn required trust sws)) \<Longrightarrow>
     \<exists>(offset, sweep) \<in> set sws. Inr p \<in> set (fst (sweep_items cr alpn required trust offset sweep))"
proof (induction sws rule: sweeps.induct [case_names Nil Cons])
  case (Cons cr alpn required trust offset sweep rest)
  then show ?case by (fastforce split: prod.splits stream_state.splits)
qed simp

definition dht_sweeps :: "dht_env \<Rightarrow> dht_sweep set" where
  "dht_sweeps de = {fst (de_burst de), snd (de_burst de)} \<union> set (de_ticks de)"

lemma dht_stream_mem:
  assumes "Inr p \<in> set (dht_stream cr de alpn required trust)"
  shows "\<exists>sweep \<in> dht_sweeps de. \<exists>offset minute shard ads ad. (offset = 0 \<or> offset = - 1) \<and>
     unix_minute (sw_clock sweep) offset = Some minute \<and> shard \<in> set (sw_order sweep) \<and>
     sw_query sweep alpn minute shard = Inr ads \<and> ad \<in> set ads \<and>
     ad_endpoint_id cr ad = Some (dp_id p) \<and> has_tags ad required \<and> dp_trust p = trust"
proof -
  from assms consider
      "Inr p \<in> set (fst (sweeps cr alpn required trust [(0, fst (de_burst de)), (- 1, snd (de_burst de))]))"
    | "Inr p \<in> set (fst (sweeps cr alpn required trust (map (\<lambda>sw. (0, sw)) (de_ticks de))))"
    unfolding dht_stream_def by (auto split: prod.splits stream_state.splits)
  then have "\<exists>sweep \<in> dht_sweeps de. \<exists>offset. (offset = 0 \<or> offset = - 1) \<and>
      Inr p \<in> set (fst (sweep_items cr alpn required trust offset sweep))"
  proof cases
    case 1
    from sweeps_mem [OF this] show ?thesis by (auto simp: dht_sweeps_def)
  next
    case 2
    from sweeps_mem [OF this] show ?thesis by (auto simp: dht_sweeps_def)
  qed
  then show ?thesis using sweep_items_mem by meson
qed

interpretation static_backend: discovery_trait "''static''" "static_backend_feeds specs" for specs
  by unfold_locales (auto simp: static_backend_feeds_def static_feed_def)

interpretation peer_exchange_backend: discovery_trait "''peer-exchange''" "peer_exchange_feeds rx b" for rx b
  by unfold_locales (auto simp: peer_exchange_feeds_def peer_exchange_feed_def)

interpretation mdns_backend: discovery_trait "''mdns''" "mdns_backend_feeds uc events b" for uc events b
  by unfold_locales (auto simp: mdns_backend_feeds_def mdns_feed_def mdns_stream_items)

interpretation dht_backend: discovery_trait "''dht''" "dht_backend_feeds cr de b" for cr de b
  by unfold_locales (auto simp: dht_backend_feeds_def dht_feed_def dest!: dht_stream_mem)

section \<open>Properties\<close>

text \<open>The resolver's clock at the time of a query.\<close>

definition resolver_now :: "dht_resolver \<Rightarrow> u64" where
  "resolver_now re = (case rs_clock re of Inl _ \<Rightarrow> 0 | Inr secs \<Rightarrow> secs)"

lemma query_shard_verified:
  assumes "query_shard re alpn minute shard = Inr ads" and "ad \<in> set ads"
  shows "verify (rs_crypto re) (rs_postcard re) alpn minute shard (resolver_now re) ad"
  using assms merge_valid_sound
  by (fastforce simp: query_shard_def Let_def valid_ads_def resolver_now_def)

text \<open>(C23) Every peer the DHT feed yields advertised itself: whatever is stored in the shards, one of the
  queries of one of its sweeps, for a shard of the sweep's order and for the minute of the sweep's clock or
  the one before, found an advertisement with the required tags, signed under that very peer id for this
  service, that minute and that shard, which had not expired by the clock of that query.\<close>

theorem dht_feed_authentic:
  assumes "\<forall>sweep \<in> dht_sweeps de. \<forall>minute shard. sw_query sweep alpn minute shard = query_shard (re sweep shard) alpn minute shard \<and>
      rs_crypto (re sweep shard) = cr \<and> rs_postcard (re sweep shard) = pc \<and> rs_clock (re sweep shard) = Inr (now sweep shard)"
    and "Inr p \<in> set (fs_stream (dht_feed cr de alpn required_tags priority trust))"
  shows "\<exists>sweep \<in> dht_sweeps de. \<exists>shard \<in> set (sw_order sweep). \<exists>offset minute ad.
     (offset = 0 \<or> offset = - 1) \<and> unix_minute (sw_clock sweep) offset = Some minute \<and>
     verify cr pc alpn minute shard (now sweep shard) ad \<and> now sweep shard < expires_at ad \<and>
     ad_endpoint_id cr ad = Some (dp_id p) \<and> has_tags ad required_tags"
proof -
  from assms(2) have "Inr p \<in> set (dht_stream cr de alpn required_tags trust)" by (simp add: dht_feed_def)
  from dht_stream_mem [OF this] obtain sweep offset minute shard ads ad where
    ad: "sweep \<in> dht_sweeps de" "offset = 0 \<or> offset = - 1" "unix_minute (sw_clock sweep) offset = Some minute"
      "shard \<in> set (sw_order sweep)" "sw_query sweep alpn minute shard = Inr ads" "ad \<in> set ads"
      "ad_endpoint_id cr ad = Some (dp_id p)" "has_tags ad required_tags" by blast
  with assms(1) have re: "query_shard (re sweep shard) alpn minute shard = Inr ads" "rs_crypto (re sweep shard) = cr"
      "rs_postcard (re sweep shard) = pc" "rs_clock (re sweep shard) = Inr (now sweep shard)" by metis+
  from query_shard_verified [OF re(1) ad(6)] re have "verify cr pc alpn minute shard (now sweep shard) ad"
    by (simp add: resolver_now_def)
  moreover from this have "now sweep shard < expires_at ad" by (simp add: verify_iff)
  ultimately show ?thesis using ad by blast
qed

text \<open>The two timers of the DHT side: an interval of zero, which no builder refuses, panics the caller that
  asks for the feeds and ends the publisher after its first round; any other gives the feeds above.\<close>

lemma dht_feeds_checked:
  "dht_backend_feeds_checked cr de b alpn =
     (if db_poll_interval b = 0 then Panicked else Returned (dht_backend_feeds cr de b alpn))"
  by (simp add: dht_backend_feeds_checked_def dht_feed_checked_def dht_backend_feeds_def tokio_interval_def)

lemma publisher_zero_interval:
  assumes "cfg_publish_interval (pub_config p) = 0"
  shows "length (publisher_run env p events) \<le> 2 \<and> Panicked \<in> set (publisher_run env p events)"
  using assms by (simp add: publisher_run_def Let_def tokio_interval_def split: outcome.split)

text \<open>Every peer the mDNS feed yields announced this very protocol, and every announced one is
  yielded.\<close>

lemma mdns_feed_exact:
  "Inr p \<in> set (fs_stream (mdns_feed uc events alpn priority trust)) \<longleftrightarrow>
     (\<exists>ud. MdnsDiscovered (dp_id p) (Some ud) \<in> set events \<and> alpn \<in> set (user_data_alpns uc ud) \<and>
        dp_trust p = trust)"
  by (simp add: mdns_feed_def mdns_stream_items user_data_has_alpn_def user_data_alpns_def list_ex_iff)

section \<open>Witnesses\<close>

text \<open>Shard 4 holds the advertisement of node \<open>[7]\<close> for the service \<open>[65]\<close>.\<close>

definition wd_sweep :: dht_sweep where
  "wd_sweep = \<lparr>sw_clock = Some 0, sw_query = query_shard ws_resolver, sw_order = [4]\<rparr>"

definition wd_env :: dht_env where
  "wd_env = \<lparr>de_burst = (wd_sweep, wd_sweep), de_ticks = []\<rparr>"

lemma wd_query: "\<exists>ads a. query_shard ws_resolver [65] 0 4 = Inr ads \<and> a \<in> set ads \<and> node_id a = [7]"
proof -
  have "pc_bucket_from ref_postcard (mi_value ws_item) = Inr \<lparr>bk_version = 2, bk_ads = [ws_ad]\<rparr>"
    using ref_bucket_round_trip [of "\<lparr>bk_version = 2, bk_ads = [ws_ad]\<rparr>"]
    by (simp add: ref_bucket_def ref_postcard_def ws_item_at_def)
  moreover have "verify ref_crypto ref_postcard [65] 0 4 0 ws_ad"
    unfolding ws_ad_at_def by (rule ref_ad_verifies) simp_all
  ultimately have "ws_ad \<in> set (valid_ads (verify ref_crypto ref_postcard [65] 0 4 0) (decode_buckets ref_postcard [ws_item]))"
    by (simp add: decode_buckets_def List.map_filter_def valid_ads_def DHT_BUCKET_VERSION_def)
  from merge_valid_complete [OF this] show ?thesis
    by (auto simp: query_shard_def ws_resolver_at_def ws_ad_at_def)
qed

theorem dht_feed_authentic_witness:
  "\<exists>shard \<in> set (sw_order wd_sweep). \<exists>offset minute ad. (offset = 0 \<or> offset = - 1) \<and>
     unix_minute (Some 0) offset = Some minute \<and> verify ref_crypto ref_postcard [65] minute shard 0 ad \<and>
     0 < expires_at ad \<and> ad_endpoint_id ref_crypto ad = Some [7] \<and> has_tags ad []"
proof -
  obtain ads a where q: "query_shard ws_resolver [65] 0 4 = Inr ads" "a \<in> set ads" "node_id a = [7]"
    using wd_query by blast
  let ?p = "\<lparr>dp_id = [7], dp_trust = 50\<rparr>"
  have "Inr ?p \<in> set (dht_ad_items ref_crypto [] 50 a)"
    using q(3) by (simp add: dht_ad_items_def ad_endpoint_id_def ref_crypto_def node_id_def)
  then have "Inr ?p \<in> set (fst (sweep_items ref_crypto [65] [] 50 0 wd_sweep))"
    using q(1,2) by (auto simp: sweep_items_def wd_sweep_def unix_minute_def apply_minute_offset_def
        saturating_add_def unsigned_abs_def)
  then have "Inr ?p \<in> set (fs_stream (dht_feed ref_crypto wd_env [65] [] 100 50))"
    by (auto simp: dht_feed_def dht_stream_def wd_env_def split: prod.splits stream_state.splits)
  moreover have "\<forall>sweep \<in> dht_sweeps wd_env. \<forall>minute shard. sw_query sweep [65] minute shard = query_shard ws_resolver [65] minute shard \<and>
      rs_crypto ws_resolver = ref_crypto \<and> rs_postcard ws_resolver = ref_postcard \<and> rs_clock ws_resolver = Inr 0"
    by (simp add: dht_sweeps_def wd_env_def wd_sweep_def ws_resolver_at_def)
  ultimately have "\<exists>sweep \<in> dht_sweeps wd_env. \<exists>shard \<in> set (sw_order sweep). \<exists>offset minute ad.
      (offset = 0 \<or> offset = - 1) \<and> unix_minute (sw_clock sweep) offset = Some minute \<and>
      verify ref_crypto ref_postcard [65] minute shard 0 ad \<and> 0 < expires_at ad \<and>
      ad_endpoint_id ref_crypto ad = Some [7] \<and> has_tags ad []"
    using dht_feed_authentic [where re = "\<lambda>_ _. ws_resolver" and now = "\<lambda>_ _. 0" and p = ?p] by fastforce
  moreover have "sweep = wd_sweep \<and> sw_clock wd_sweep = Some 0" if "sweep \<in> dht_sweeps wd_env" for sweep
    using that by (simp add: dht_sweeps_def wd_env_def wd_sweep_def)
  ultimately show ?thesis by metis
qed

end
