(* ===== verification/Engine.thy ===== *)
theory Engine
  imports Discovery "HOL-Library.Sublist"
begin

text \<open>
  \<^verbatim>\<open>src/swarm/engine.rs\<close>: the merged and deduplicated stream of peers. The order in which \<open>SelectAll\<close>
  polls its streams is third-party code: what it answers to the successive polls is the argument
  \<open>script\<close>, and the law a property needs of it (nothing is lost or made up) is the hypothesis
  \<open>select_all_merges\<close>.
\<close>

section \<open>Definitions\<close>

record tagged_feed =
  tf_name :: string
  tf_trust :: u8
  tf_inner :: "discovered_peer items"

text \<open>\<open>TaggedFeed::poll_next\<close> on what its inner stream answers.\<close>

definition tagged_poll :: "tagged_feed \<Rightarrow> (error + discovered_peer) option poll \<Rightarrow> (error + peer) option poll" where
  "tagged_poll tf answer =
     (case answer of
        Ready (Some (Inr discovered)) \<Rightarrow> Ready (Some (Inr (peer_new discovered (tf_name tf) (tf_trust tf))))
      | Ready (Some (Inl e)) \<Rightarrow> Ready (Some (Inl e))
      | Ready None \<Rightarrow> Ready None
      | Pending \<Rightarrow> Pending)"

record swarm_engine =
  en_inner :: "tagged_feed list"
  en_seen :: "endpoint_id set"
  en_local_id :: endpoint_id

text \<open>The feeds are sorted by priority (a stable sort), those out of scope are left out.\<close>

fun push_feeds :: "bytes \<Rightarrow> peer_feed_spec list \<Rightarrow> tagged_feed list" where
  "push_feeds alpn [] = []"
| "push_feeds alpn (spec # feeds) =
     (if \<not> scope_matches (fs_scope spec) alpn then push_feeds alpn feeds
      else \<lparr>tf_name = fs_name spec, tf_trust = fs_trust spec, tf_inner = fs_stream spec\<rparr> # push_feeds alpn feeds)"

definition engine_new :: "endpoint_id \<Rightarrow> bytes \<Rightarrow> peer_feed_spec list \<Rightarrow> swarm_engine" where
  "engine_new local_id alpn feeds =
     \<lparr>en_inner = push_feeds alpn (sort_key fs_priority feeds), en_seen = {}, en_local_id = local_id\<rparr>"

text \<open>\<open>poll_next\<close>: the loop skips the local peer and peers seen before. It consumes the answers of the
  inner stream one by one; an inner stream with no further answer is pending.\<close>

type_synonym script = "(error + peer) option poll list"

fun engine_poll :: "endpoint_id \<Rightarrow> endpoint_id set \<Rightarrow> script \<Rightarrow> (error + peer) option poll \<times> endpoint_id set \<times> script" where
  "engine_poll local_id seen [] = (Pending, seen, [])"
| "engine_poll local_id seen (answer # rest) =
     (case answer of
        Ready (Some res) \<Rightarrow>
          (case res of
             Inr p \<Rightarrow>
               (if peer_id p = local_id then engine_poll local_id seen rest
                else if peer_id p \<notin> seen then (Ready (Some (Inr p)), insert (peer_id p) seen, rest)
                else engine_poll local_id seen rest)
           | Inl e \<Rightarrow> (Ready (Some (Inl e)), seen, rest))
      | Ready None \<Rightarrow> (Ready None, seen, rest)
      | Pending \<Rightarrow> (Pending, seen, rest))"

lemma engine_poll_shorter:
  "engine_poll local_id seen script = (answer, seen', rest) \<Longrightarrow> script \<noteq> [] \<Longrightarrow> length rest < length script"
proof (induction local_id seen script arbitrary: answer seen' rest rule: engine_poll.induct)
  case (2 local_id seen a r)
  show ?case
  proof (cases "r = []")
    case True
    with 2 show ?thesis by (auto split: poll.splits option.splits sum.splits if_splits)
  next
    case False
    with 2 show ?thesis by (fastforce split: poll.splits option.splits sum.splits if_splits)
  qed
qed simp

text \<open>A consumer that polls until the inner answers are used up gets these items.\<close>

function engine_run :: "endpoint_id \<Rightarrow> endpoint_id set \<Rightarrow> script \<Rightarrow> peer items" where
  "engine_run local_id seen script =
     (if script = [] then []
      else (case engine_poll local_id seen script of
              (Ready (Some x), seen', rest) \<Rightarrow> x # engine_run local_id seen' rest
            | (_, seen', rest) \<Rightarrow> engine_run local_id seen' rest))"
  by pat_completeness auto
termination
  by (relation "measure (\<lambda>(l, seen, script). length script)") (auto dest: engine_poll_shorter sym)

declare engine_run.simps [simp del]

section \<open>What the stream yields\<close>

definition script_items :: "script \<Rightarrow> peer items" where
  "script_items script = List.map_filter (\<lambda>a. case a of Ready x \<Rightarrow> x | Pending \<Rightarrow> None) script"

definition oks :: "'a items \<Rightarrow> 'a list" where
  "oks items = List.map_filter (\<lambda>x. case x of Inr p \<Rightarrow> Some p | Inl _ \<Rightarrow> None) items"

text \<open>The reference: errors pass, a peer passes when it is neither local nor seen.\<close>

fun remote_once :: "endpoint_id \<Rightarrow> endpoint_id set \<Rightarrow> peer items \<Rightarrow> peer items" where
  "remote_once l seen [] = []"
| "remote_once l seen (Inl e # xs) = Inl e # remote_once l seen xs"
| "remote_once l seen (Inr p # xs) =
     (if peer_id p = l \<or> peer_id p \<in> seen then remote_once l seen xs
      else Inr p # remote_once l (insert (peer_id p) seen) xs)"

lemma script_items_simps [simp]:
  "script_items [] = []"
  "script_items (Pending # s) = script_items s"
  "script_items (Ready None # s) = script_items s"
  "script_items (Ready (Some x) # s) = x # script_items s"
  by (simp_all add: script_items_def List.map_filter_def)

lemma oks_simps [simp]:
  "oks [] = []" "oks (Inl e # xs) = oks xs" "oks (Inr p # xs) = p # oks xs"
  by (simp_all add: oks_def List.map_filter_def)

lemma oks_mem: "p \<in> set (oks xs) \<longleftrightarrow> Inr p \<in> set xs"
  by (induction xs) (auto simp: oks_def List.map_filter_def split: sum.splits)

lemma engine_poll_items:
  "engine_poll l seen script = (a, seen', rest) \<Longrightarrow>
     remote_once l seen (script_items script) =
       (case a of Ready (Some x) \<Rightarrow> [x] | _ \<Rightarrow> []) @ remote_once l seen' (script_items rest)"
proof (induction l seen script arbitrary: a seen' rest rule: engine_poll.induct)
  case (2 l seen x r)
  then show ?case
    by (auto split: poll.splits option.splits sum.splits if_splits)
qed simp

lemma engine_run_reference: "engine_run l seen script = remote_once l seen (script_items script)"
proof (induction l seen script rule: engine_run.induct)
  case (1 l seen script)
  show ?case
  proof (cases "script = []")
    case True
    then show ?thesis by (simp add: engine_run.simps)
  next
    case False
    obtain a seen' rest where p: "engine_poll l seen script = (a, seen', rest)" by (metis prod_cases3)
    from engine_poll_items [OF this] show ?thesis
      using 1 False p by (subst engine_run.simps) (auto split: poll.splits option.splits)
  qed
qed

lemma remote_once_subseq: "subseq (remote_once l seen xs) xs"
  by (induction l seen xs rule: remote_once.induct) auto

lemma remote_once_oks: "set (oks (remote_once l seen xs)) \<subseteq> set (oks xs)"
  by (induction l seen xs rule: remote_once.induct) auto

lemma remote_once_errors: "filter isl (remote_once l seen xs) = filter isl xs"
  by (induction l seen xs rule: remote_once.induct) auto

lemma remote_once_ids:
  "peer_id ` set (oks (remote_once l seen xs)) = peer_id ` set (oks xs) - insert l seen"
  by (induction l seen xs rule: remote_once.induct) auto

lemma remote_once_distinct: "distinct (map peer_id (oks (remote_once l seen xs)))"
proof (induction l seen xs rule: remote_once.induct)
  case (3 l seen p xs)
  then show ?case using remote_once_ids [of l "insert (peer_id p) seen" xs] by auto
qed simp_all

lemma remote_once_first:
  "p \<in> set (oks (remote_once l seen xs)) \<Longrightarrow> find (\<lambda>q. peer_id q = peer_id p) (oks xs) = Some p"
proof (induction l seen xs rule: remote_once.induct)
  case (3 l seen q xs)
  have "peer_id p \<noteq> l" "peer_id p \<notin> seen" using 3(3) remote_once_ids [of l seen "Inr q # xs"] by auto
  moreover have "peer_id p \<noteq> peer_id q" if "p \<in> set (oks (remote_once l (insert (peer_id q) seen) xs))"
    using that remote_once_ids [of l "insert (peer_id q) seen" xs] by auto
  ultimately show ?case using 3 by (auto split: if_splits)
qed simp_all

section \<open>Which feeds are merged\<close>

lemma push_feeds_filter:
  "push_feeds alpn feeds =
     map (\<lambda>spec. \<lparr>tf_name = fs_name spec, tf_trust = fs_trust spec, tf_inner = fs_stream spec\<rparr>)
       (filter (\<lambda>spec. scope_matches (fs_scope spec) alpn) feeds)"
  by (induction feeds) simp_all

definition tagged_items :: "tagged_feed \<Rightarrow> peer items" where
  "tagged_items tf = map (map_sum id (\<lambda>p. peer_new p (tf_name tf) (tf_trust tf))) (tf_inner tf)"

text \<open>\<open>SelectAll\<close> yields exactly the items of its streams, in some order.\<close>

definition select_all_merges :: "script \<Rightarrow> tagged_feed list \<Rightarrow> bool" where
  "select_all_merges script tfs \<longleftrightarrow> mset (script_items script) = mset (concat (map tagged_items tfs))"

lemma tagged_items_ok:
  "Inr p \<in> set (tagged_items tf) \<longleftrightarrow> (\<exists>d. Inr d \<in> set (tf_inner tf) \<and> p = peer_new d (tf_name tf) (tf_trust tf))"
  by (force simp: tagged_items_def map_sum_def split: sum.splits)

lemma engine_in_scope:
  fixes feeds alpn
  defines "matching \<equiv> filter (\<lambda>spec. scope_matches (fs_scope spec) alpn) feeds"
  assumes "select_all_merges script (en_inner (engine_new local_id alpn feeds))"
  shows "peer_id ` set (oks (engine_run local_id {} script)) =
       (\<Union>f \<in> set matching. dp_id ` {d. Inr d \<in> set (fs_stream f)}) - {local_id} \<and>
     (\<forall>p \<in> set (oks (engine_run local_id {} script)).
        \<exists>f \<in> set matching. \<exists>d. Inr d \<in> set (fs_stream f) \<and> p = peer_new d (fs_name f) (fs_trust f))"
proof -
  let ?tfs = "push_feeds alpn (sort_key fs_priority feeds)"
  have "set (script_items script) = set (concat (map tagged_items ?tfs))"
    using assms(2) by (metis engine_new_def select_all_merges_def set_mset_mset swarm_engine.select_convs(1))
  then have "Inr p \<in> set (script_items script) \<longleftrightarrow>
      (\<exists>f \<in> set matching. \<exists>d. Inr d \<in> set (fs_stream f) \<and> p = peer_new d (fs_name f) (fs_trust f))" for p
    by (force simp: push_feeds_filter tagged_items_ok matching_def)
  then have items: "p \<in> set (oks (script_items script)) \<longleftrightarrow>
      (\<exists>f \<in> set matching. \<exists>d. Inr d \<in> set (fs_stream f) \<and> p = peer_new d (fs_name f) (fs_trust f))" for p
    by (simp add: oks_mem)
  have "peer_id ` set (oks (script_items script)) = (\<Union>f \<in> set matching. dp_id ` {d. Inr d \<in> set (fs_stream f)})"
  proof (intro set_eqI iffI)
    fix i assume "i \<in> peer_id ` set (oks (script_items script))"
    then obtain p where "p \<in> set (oks (script_items script))" "i = peer_id p" by blast
    then obtain f d where "f \<in> set matching" "Inr d \<in> set (fs_stream f)" "i = dp_id d"
      unfolding items by (auto simp: peer_new_def)
    then show "i \<in> (\<Union>f \<in> set matching. dp_id ` {d. Inr d \<in> set (fs_stream f)})" by blast
  next
    fix i assume "i \<in> (\<Union>f \<in> set matching. dp_id ` {d. Inr d \<in> set (fs_stream f)})"
    then obtain f d where "f \<in> set matching" "Inr d \<in> set (fs_stream f)" "i = dp_id d" by auto
    then have "peer_new d (fs_name f) (fs_trust f) \<in> set (oks (script_items script))"
        and "i = peer_id (peer_new d (fs_name f) (fs_trust f))"
      unfolding items by (auto simp: peer_new_def)
    then show "i \<in> peer_id ` set (oks (script_items script))" by blast
  qed
  moreover have "set (oks (engine_run local_id {} script)) \<subseteq> set (oks (script_items script))"
    unfolding engine_run_reference by (rule remote_once_oks)
  then have "\<exists>f \<in> set matching. \<exists>d. Inr d \<in> set (fs_stream f) \<and> p = peer_new d (fs_name f) (fs_trust f)"
    if "p \<in> set (oks (engine_run local_id {} script))" for p
    using that items [of p] by auto
  ultimately show ?thesis
    unfolding engine_run_reference remote_once_ids by simp
qed

section \<open>Properties\<close>

text \<open>(C22) Whatever the merged stream answers, the engine yields a subsequence of it with every error kept,
  never the local peer, no peer twice, every remote peer, and each as it was first seen.\<close>

theorem engine_yields_remote_once:
  fixes l script
  defines "items \<equiv> script_items script" and "out \<equiv> engine_run l {} script"
  shows "subseq out items \<and> filter isl out = filter isl items \<and> distinct (map peer_id (oks out)) \<and>
     peer_id ` set (oks out) = peer_id ` set (oks items) - {l} \<and>
     (\<forall>p \<in> set (oks out). find (\<lambda>q. peer_id q = peer_id p) (oks items) = Some p)"
  unfolding out_def items_def engine_run_reference
  by (simp add: remote_once_subseq remote_once_errors remote_once_distinct remote_once_ids remote_once_first)

text \<open>The engine finds exactly the remote peers of the feeds in scope: when \<open>SelectAll\<close> merges its
  streams, the ids yielded are those of all feeds whose scope matches the protocol, less the local
  one, and every peer's trust is at most that of a feed in scope it came from.\<close>

lemma engine_complete_in_scope:
  fixes feeds alpn
  defines "matching \<equiv> filter (\<lambda>spec. scope_matches (fs_scope spec) alpn) feeds"
  assumes "select_all_merges script (en_inner (engine_new local_id alpn feeds))"
  shows "peer_id ` set (oks (engine_run local_id {} script)) =
       (\<Union>f \<in> set matching. dp_id ` {d. Inr d \<in> set (fs_stream f)}) - {local_id} \<and>
     (\<forall>p \<in> set (oks (engine_run local_id {} script)).
        \<exists>f \<in> set matching. peer_source p = fs_name f \<and> peer_trust p \<le> fs_trust f)"
proof
  note scope = engine_in_scope [OF assms(2), folded matching_def]
  show "peer_id ` set (oks (engine_run local_id {} script)) =
      (\<Union>f \<in> set matching. dp_id ` {d. Inr d \<in> set (fs_stream f)}) - {local_id}"
    by (rule conjunct1 [OF scope])
  show "\<forall>p \<in> set (oks (engine_run local_id {} script)).
      \<exists>f \<in> set matching. peer_source p = fs_name f \<and> peer_trust p \<le> fs_trust f"
  proof
    fix p assume "p \<in> set (oks (engine_run local_id {} script))"
    with conjunct2 [OF scope] obtain f d where "f \<in> set matching" "p = peer_new d (fs_name f) (fs_trust f)"
      by blast
    then show "\<exists>f \<in> set matching. peer_source p = fs_name f \<and> peer_trust p \<le> fs_trust f"
      by (intro bexI [of _ f]) (simp_all add: peer_new_def peer_trust_def)
  qed
qed

section \<open>Witnesses\<close>

text \<open>The local node 1 and node 2 with trust 100, and node 2 again with trust 90.\<close>

definition wg_peer :: "u8 \<Rightarrow> u8 \<Rightarrow> peer" where
  "wg_peer b t = \<lparr>peer_id = [b], peer_source = ''static'', peer_remote_trust = t, peer_source_trust = t\<rparr>"

definition wg_script :: script where
  "wg_script = [Ready (Some (Inr (wg_peer 1 100))), Pending, Ready (Some (Inr (wg_peer 2 100))),
     Ready (Some (Inr (wg_peer 2 90))), Ready None]"

theorem engine_yields_remote_once_witness:
  "engine_run [1] {} wg_script = [Inr (wg_peer 2 100)] \<and>
   find (\<lambda>q. peer_id q = [2]) (oks (script_items wg_script)) = Some (wg_peer 2 100)"
proof -
  have "engine_run [1] {} wg_script = [Inr (wg_peer 2 100)]"
    by (simp add: engine_run_reference wg_script_def wg_peer_def)
  with engine_yields_remote_once [of "[1]" wg_script] show ?thesis by (simp add: wg_peer_def)
qed

end
