(* ===== verification/Locator.thy ===== *)
theory Locator
  imports Engine Pool_Handle
begin

text \<open>
  \<^verbatim>\<open>src/swarm/locator.rs\<close> and \<^verbatim>\<open>src/swarm/registry.rs\<close>: the loop that races connection attempts to the
  discovered peers, and the registry that builds it. What becomes ready in a round (an attempt, the
  next peer, the overall timeout) and whether the receiver is still there is the event of the round;
  what the loop does with it is the code's.
\<close>

section \<open>Definitions: the locator\<close>

record locator_config =
  lc_max_inflight :: nat
  lc_timeout_each :: duration
  lc_timeout :: "duration option"
  lc_limit :: nat

definition locator_config_default :: locator_config where
  "locator_config_default = \<lparr>lc_max_inflight = 8, lc_timeout_each = from_secs 2, lc_timeout = None, lc_limit = 4\<rparr>"

text \<open>\<open>Locator::first\<close> on the results its channel gives until the task is gone.\<close>

fun first_loop :: "error option \<Rightarrow> (error + 'c) list \<Rightarrow> error + 'c" where
  "first_loop last_error [] =
     Inl (case last_error of Some e \<Rightarrow> e | None \<Rightarrow> connection ''no peers reachable'')"
| "first_loop last_error (res # rest) =
     (case res of Inr channel \<Rightarrow> Inr channel | Inl err \<Rightarrow> first_loop (Some err) rest)"

definition locator_first :: "(error + 'c) list \<Rightarrow> error + 'c" where
  "locator_first received = first_loop None received"

text \<open>\<open>push_attempt\<close>: what an attempt gives, \<open>None\<close> standing for the elapsed timeout.\<close>

definition attempt_result :: "duration \<Rightarrow> (error + 'c) option \<Rightarrow> error + 'c" where
  "attempt_result timeout channel =
     (case channel of
        None \<Rightarrow> Inl (connection (''connection timed out after '' @ duration_debug timeout))
      | Some res \<Rightarrow> res)"

text \<open>\<open>ls_inflight\<close> are the peers with an attempt under way, \<open>ls_sent\<close> what went into the channel;
  \<open>ls_attempted\<close> records every attempt ever pushed.\<close>

record 'c locator_state =
  ls_inflight :: "endpoint_id list"
  ls_stream_exhausted :: bool
  ls_opts :: locator_config
  ls_sent :: "(error + 'c) list"
  ls_attempted :: "endpoint_id list"

definition locator_state_new :: "locator_config \<Rightarrow> 'c locator_state" where
  "locator_state_new opts =
     \<lparr>ls_inflight = [], ls_stream_exhausted = False, ls_opts = opts, ls_sent = [], ls_attempted = []\<rparr>"

text \<open>\<open>spawn_with_pool\<close> makes the channel first; \<open>mpsc_ok n\<close> says whether tokio makes one of capacity \<open>n\<close>
  or panics.\<close>

definition spawn_with_pool :: "(nat \<Rightarrow> bool) \<Rightarrow> locator_config \<Rightarrow> 'c locator_state outcome" where
  "spawn_with_pool mpsc_ok opts =
     (if \<not> mpsc_ok (lc_limit opts) then Panicked else Returned (locator_state_new opts))"

definition spawn_pool_options :: "locator_config \<Rightarrow> pool_options" where
  "spawn_pool_options opts = pool_options_default\<lparr>connect_timeout := lc_timeout_each opts\<rparr>"

definition can_discover :: "'c locator_state \<Rightarrow> bool" where
  "can_discover s \<longleftrightarrow> \<not> ls_stream_exhausted s \<and> length (ls_inflight s) < lc_max_inflight (ls_opts s)"

definition has_inflight :: "'c locator_state \<Rightarrow> bool" where
  "has_inflight s \<longleftrightarrow> ls_inflight s \<noteq> []"

definition push_attempt :: "'c locator_state \<Rightarrow> peer \<Rightarrow> 'c locator_state" where
  "push_attempt s p = s\<lparr>ls_inflight := ls_inflight s @ [peer_id p], ls_attempted := ls_attempted s @ [peer_id p]\<rparr>"

datatype 'c locator_event =
    AttemptDone endpoint_id "(error + 'c) option" bool
  | NextPeer "(error + peer) option" bool
  | OverallTimeout

datatype locator_status = Racing | Exhausted | ReceiverGone | TimedOutOverall

text \<open>The head of the loop: it is left when nothing can be discovered and nothing is under way.\<close>

definition loop_head :: "'c locator_state \<Rightarrow> locator_status" where
  "loop_head s = (if \<not> can_discover s \<and> \<not> has_inflight s then Exhausted else Racing)"

text \<open>One round of the biased \<open>select!\<close>. The flag of an event says that the channel took what was sent.
  A branch that is not enabled cannot be the one that fired: such an event changes nothing.\<close>

fun locator_step :: "locator_status \<times> 'c locator_state \<Rightarrow> 'c locator_event \<Rightarrow> locator_status \<times> 'c locator_state" where
  "locator_step (Racing, s) (AttemptDone i channel sent) =
     (if i \<in> set (ls_inflight s)
      then (let s' = s\<lparr>ls_inflight := remove1 i (ls_inflight s)\<rparr>
            in if sent
               then (let s'' = s'\<lparr>ls_sent := ls_sent s' @ [attempt_result (lc_timeout_each (ls_opts s)) channel]\<rparr>
                     in (loop_head s'', s''))
               else (ReceiverGone, s'))
      else (Racing, s))"
| "locator_step (Racing, s) (NextPeer item sent) =
     (if \<not> can_discover s then (Racing, s)
      else (let s' = (case item of
                 Some (Inr p) \<Rightarrow> push_attempt s p
               | Some (Inl err) \<Rightarrow> (if sent then s\<lparr>ls_sent := ls_sent s @ [Inl err]\<rparr> else s)
               | None \<Rightarrow> s\<lparr>ls_stream_exhausted := True\<rparr>)
            in (loop_head s', s')))"
| "locator_step (Racing, s) OverallTimeout =
     (case lc_timeout (ls_opts s) of None \<Rightarrow> (Racing, s) | Some _ \<Rightarrow> (TimedOutOverall, s))"
| "locator_step (status, s) _ = (status, s)"

definition locator_run :: "'c locator_state \<Rightarrow> 'c locator_event list \<Rightarrow> locator_status \<times> 'c locator_state" where
  "locator_run s events = foldl locator_step (loop_head s, s) events"

text \<open>The future of \<open>push_attempt\<close>: the pool's channel to the peer within the timeout. \<open>dial i\<close> is what the pool
  meets on the way to peer \<open>i\<close>, \<open>None\<close> when the timeout elapses first.\<close>

definition pool_attempt :: "(endpoint_id \<Rightarrow> (open_env \<times> (conn_ref \<Rightarrow> error + 'c)) option) \<Rightarrow> endpoint_id
    \<Rightarrow> (error + 'c) option" where
  "pool_attempt dial i = map_option (\<lambda>(env, handshake). pool_channel env handshake) (dial i)"

section \<open>Definitions: the registry\<close>

text \<open>A backend is the function that makes its feeds; a pool is named by its number in order of
  creation. The cache is shared by the clones of a registry.\<close>

record service_registry =
  rg_local_id :: endpoint_id
  rg_backends :: "(bytes \<Rightarrow> peer_feed_spec list) list"
  rg_pool_options :: pool_options
  rg_pools :: "bytes \<times> pool_options \<rightharpoonup> nat"
  rg_created :: nat

definition registry_new :: "endpoint_id \<Rightarrow> service_registry" where
  "registry_new local_id =
     \<lparr>rg_local_id = local_id, rg_backends = [], rg_pool_options = pool_options_default, rg_pools = Map.empty,
      rg_created = 0\<rparr>"

definition add_backend :: "service_registry \<Rightarrow> (bytes \<Rightarrow> peer_feed_spec list) \<Rightarrow> service_registry" where
  "add_backend r backend = r\<lparr>rg_backends := rg_backends r @ [backend]\<rparr>"

definition with_pool_options :: "service_registry \<Rightarrow> pool_options \<Rightarrow> service_registry" where
  "with_pool_options r options = r\<lparr>rg_pool_options := options\<rparr>"

definition build_feeds :: "service_registry \<Rightarrow> bytes \<Rightarrow> peer_feed_spec list" where
  "build_feeds r alpn = concat (map (\<lambda>b. b alpn) (rg_backends r))"

definition discover :: "service_registry \<Rightarrow> string \<Rightarrow> swarm_engine" where
  "discover r service =
     (let alpn = service_to_alpn service in engine_new (rg_local_id r) alpn (build_feeds r alpn))"

definition pool_for_alpn :: "service_registry \<Rightarrow> bytes \<times> pool_options \<Rightarrow> nat \<times> service_registry" where
  "pool_for_alpn r key =
     (case rg_pools r key of
        Some pool \<Rightarrow> (pool, r)
      | None \<Rightarrow> (rg_created r, r\<lparr>rg_pools := (rg_pools r)(key \<mapsto> rg_created r), rg_created := Suc (rg_created r)\<rparr>))"

definition registry_pool :: "service_registry \<Rightarrow> string \<Rightarrow> nat \<times> service_registry" where
  "registry_pool r service = pool_for_alpn r (service_to_alpn service, rg_pool_options r)"

record locator_builder =
  lb_cfg :: locator_config
  lb_pool_options :: pool_options

definition builder_new :: "service_registry \<Rightarrow> locator_builder" where
  "builder_new r = \<lparr>lb_cfg = locator_config_default, lb_pool_options = rg_pool_options r\<rparr>"

definition builder_max_inflight :: "locator_builder \<Rightarrow> nat \<Rightarrow> locator_builder" where
  "builder_max_inflight b n = b\<lparr>lb_cfg := (lb_cfg b)\<lparr>lc_max_inflight := n\<rparr>\<rparr>"

definition builder_timeout_each :: "locator_builder \<Rightarrow> duration \<Rightarrow> locator_builder" where
  "builder_timeout_each b d =
     b\<lparr>lb_cfg := (lb_cfg b)\<lparr>lc_timeout_each := d\<rparr>, lb_pool_options := (lb_pool_options b)\<lparr>connect_timeout := d\<rparr>\<rparr>"

definition builder_timeout :: "locator_builder \<Rightarrow> duration \<Rightarrow> locator_builder" where
  "builder_timeout b d = b\<lparr>lb_cfg := (lb_cfg b)\<lparr>lc_timeout := Some d\<rparr>\<rparr>"

definition builder_limit :: "locator_builder \<Rightarrow> nat \<Rightarrow> locator_builder" where
  "builder_limit b n = b\<lparr>lb_cfg := (lb_cfg b)\<lparr>lc_limit := n\<rparr>\<rparr>"

definition builder_pool_options :: "locator_builder \<Rightarrow> pool_options \<Rightarrow> locator_builder" where
  "builder_pool_options b options =
     b\<lparr>lb_cfg := (lb_cfg b)\<lparr>lc_timeout_each := connect_timeout options\<rparr>, lb_pool_options := options\<rparr>"

text \<open>\<open>start\<close>: the peers to race, the pool to use, and the task (or the panic of its channel).\<close>

definition builder_start :: "(nat \<Rightarrow> bool) \<Rightarrow> service_registry \<Rightarrow> string \<Rightarrow> locator_builder
    \<Rightarrow> service_registry \<times> swarm_engine \<times> nat \<times> 'c locator_state outcome" where
  "builder_start mpsc_ok r service b =
     (let alpn = service_to_alpn service;
          stream = engine_new (rg_local_id r) alpn (build_feeds r alpn)
      in case pool_for_alpn r (alpn, lb_pool_options b) of
           (pool, r') \<Rightarrow> (r', stream, pool, spawn_with_pool mpsc_ok (lb_cfg b)))"

definition registry_find :: "service_registry \<Rightarrow> locator_builder" where
  "registry_find r = builder_new r"

text \<open>\<open>LocatorBuilder::first\<close>: start, then wait for the first channel. The events are the rounds the task makes
  until the locator is dropped.\<close>

definition builder_first :: "(nat \<Rightarrow> bool) \<Rightarrow> service_registry \<Rightarrow> string \<Rightarrow> locator_builder \<Rightarrow> 'c locator_event list
    \<Rightarrow> service_registry \<times> (error + 'c) outcome" where
  "builder_first mpsc_ok r service b events =
     (case builder_start mpsc_ok r service b of
        (r', stream, pool, Panicked) \<Rightarrow> (r', Panicked)
      | (r', stream, pool, Returned s) \<Rightarrow> (r', Returned (locator_first (ls_sent (snd (locator_run s events))))))"

section \<open>The invariant\<close>

definition locator_inv :: "locator_config \<Rightarrow> locator_status \<times> 'c locator_state \<Rightarrow> bool" where
  "locator_inv opts ss \<longleftrightarrow> (case ss of (status, s) \<Rightarrow>
     ls_opts s = opts \<and> length (ls_inflight s) \<le> lc_max_inflight opts \<and>
     mset (ls_inflight s) \<subseteq># mset (ls_attempted s) \<and>
     (status = Exhausted \<longrightarrow> ls_inflight s = [] \<and> (ls_stream_exhausted s \<or> lc_max_inflight opts = 0)) \<and>
     (status = Racing \<longrightarrow> can_discover s \<or> has_inflight s))"

lemma loop_head_inv:
  "ls_opts s = opts \<Longrightarrow> length (ls_inflight s) \<le> lc_max_inflight opts \<Longrightarrow>
     mset (ls_inflight s) \<subseteq># mset (ls_attempted s) \<Longrightarrow> locator_inv opts (loop_head s, s)"
  by (auto simp: locator_inv_def loop_head_def can_discover_def has_inflight_def)

lemma remove1_inflight:
  "i \<in> set xs \<Longrightarrow> length xs \<le> n \<Longrightarrow> mset xs \<subseteq># M \<Longrightarrow>
     length (remove1 i xs) \<le> n \<and> mset (remove1 i xs) \<subseteq># M"
  by (auto simp: length_remove1 intro: subset_mset.order_trans [OF diff_subset_eq_self])

lemma locator_step_inv:
  assumes "locator_inv opts ss"
  shows "locator_inv opts (locator_step ss e)"
proof (cases "(ss, e)" rule: locator_step.cases)
  case (1 s i channel sent)
  then show ?thesis
    using assms remove1_inflight [of i "ls_inflight s" "lc_max_inflight opts" "mset (ls_attempted s)"]
    by (auto simp: Let_def intro!: loop_head_inv) (auto simp: locator_inv_def)
next
  case (2 s item sent)
  then show ?thesis
    using assms
    by (auto simp: Let_def push_attempt_def can_discover_def locator_inv_def [of _ "(Racing, s)"]
        intro!: loop_head_inv split: option.splits sum.splits)
qed (use assms in \<open>auto simp: locator_inv_def split: option.splits\<close>)

interpretation locator: machine locator_step "locator_inv opts" for opts
  by unfold_locales (rule locator_step_inv)

lemma locator_run_inv: "locator_inv opts (locator_run (locator_state_new opts) events)"
  unfolding locator_run_def
  by (rule locator.run_inv) (auto simp: locator_state_new_def intro!: loop_head_inv)

lemma first_loop_spec:
  "first_loop last_error received =
     (case oks received of
        c # _ \<Rightarrow> Inr c
      | [] \<Rightarrow> Inl (if received = [] then (case last_error of Some e \<Rightarrow> e | None \<Rightarrow> connection ''no peers reachable'')
                 else projl (last received)))"
  by (induction received arbitrary: last_error) (auto split: sum.split list.split)

section \<open>Termination\<close>

text \<open>A run of the loop on a stream of peers: every round fires a branch that is enabled, the stream gives
  its items in order and then ends, and the receiver stays. \<open>drive\<close> gives the state reached and the
  items left, or \<open>None\<close> when a round is not one of these.\<close>

fun drive :: "locator_status \<times> 'c locator_state \<Rightarrow> (error + peer) list \<Rightarrow> 'c locator_event list
    \<Rightarrow> ((locator_status \<times> 'c locator_state) \<times> (error + peer) list) option" where
  "drive ss stream [] = Some (ss, stream)"
| "drive (Racing, s) stream (AttemptDone i channel True # es) =
     (if i \<in> set (ls_inflight s) then drive (locator_step (Racing, s) (AttemptDone i channel True)) stream es else None)"
| "drive (Racing, s) stream (NextPeer item True # es) =
     (if can_discover s
      then (case stream of
              [] \<Rightarrow> if item = None then drive (locator_step (Racing, s) (NextPeer None True)) [] es else None
            | x # rest \<Rightarrow> if item = Some x then drive (locator_step (Racing, s) (NextPeer (Some x) True)) rest es else None)
      else None)"
| "drive ss stream (e # es) = None"

definition locator_start :: "locator_config \<Rightarrow> locator_status \<times> 'c locator_state" where
  "locator_start opts = (loop_head (locator_state_new opts :: 'c locator_state), locator_state_new opts)"

text \<open>Each round lowers this bound on the rounds to come.\<close>

definition rounds_left :: "'c locator_state \<Rightarrow> (error + peer) list \<Rightarrow> nat" where
  "rounds_left s stream = 2 * length stream + length (ls_inflight s) + (if ls_stream_exhausted s then 0 else 1)"

definition accounted :: "'c locator_state \<Rightarrow> (error + peer) list \<Rightarrow> nat" where
  "accounted s stream = length (ls_sent s) + length (ls_inflight s) + length stream"

lemma drive_progress:
  assumes "drive (status, s) stream es = Some ((status', s'), rest)" and "ls_stream_exhausted s \<longrightarrow> stream = []"
  shows "length es + rounds_left s' rest \<le> rounds_left s stream \<and> accounted s' rest = accounted s stream \<and>
    ls_attempted s' @ map peer_id (oks rest) = ls_attempted s @ map peer_id (oks stream) \<and>
    (ls_stream_exhausted s' \<longrightarrow> rest = [])"
  using assms
proof (induction "(status, s)" stream es arbitrary: status s rule: drive.induct)
  case (2 s stream i channel es)
  then have i: "i \<in> set (ls_inflight s)" by (simp split: if_splits)
  then have "length (remove1 i (ls_inflight s)) = length (ls_inflight s) - 1" "ls_inflight s \<noteq> []"
    by (auto simp: length_remove1)
  then obtain n where n: "length (ls_inflight s) = Suc n" "length (remove1 i (ls_inflight s)) = n"
    by (cases "length (ls_inflight s)") auto
  let ?s = "s\<lparr>ls_inflight := remove1 i (ls_inflight s),
      ls_sent := ls_sent s @ [attempt_result (lc_timeout_each (ls_opts s)) channel]\<rparr>"
  have step: "locator_step (Racing, s) (AttemptDone i channel True) = (loop_head ?s, ?s)" using i by (simp add: Let_def)
  from 2(1) [OF i step] 2(2,3) i
  have "length es + rounds_left s' rest \<le> rounds_left ?s stream \<and> accounted s' rest = accounted ?s stream \<and>
      ls_attempted s' @ map peer_id (oks rest) = ls_attempted s @ map peer_id (oks stream) \<and>
      (ls_stream_exhausted s' \<longrightarrow> rest = [])"
    by (simp add: step del: locator_step.simps)
  then show ?case by (simp add: rounds_left_def accounted_def n)
next
  case (3 s stream item es)
  show ?case
  proof (cases stream)
    case Nil
    with 3 show ?thesis
      by (auto simp: Let_def rounds_left_def accounted_def can_discover_def split: if_splits)
  next
    case (Cons x xs)
    let ?s = "case x of Inr p \<Rightarrow> push_attempt s p | Inl err \<Rightarrow> s\<lparr>ls_sent := ls_sent s @ [Inl err]\<rparr>"
    from 3(3) Cons have can: "can_discover s" and item: "item = Some x"
      and run: "drive (locator_step (Racing, s) (NextPeer (Some x) True)) xs es = Some ((status', s'), rest)"
      by (auto split: if_splits)
    have step: "locator_step (Racing, s) (NextPeer (Some x) True) = (loop_head ?s, ?s)"
      using can by (cases x) (simp_all add: Let_def)
    from can have open_stream: "\<not> ls_stream_exhausted s" by (simp add: can_discover_def)
    then have "ls_stream_exhausted ?s \<longrightarrow> xs = []" by (simp add: push_attempt_def split: sum.split)
    from 3(2) [OF can Cons item step run [unfolded step] this]
    show ?thesis using Cons open_stream
      by (cases x) (auto simp: rounds_left_def accounted_def push_attempt_def)
  qed
qed auto

lemma drive_append:
  "drive ss stream es = Some (ss', rest) \<Longrightarrow> drive ss stream (es @ es') = drive ss' rest es'"
  by (induction ss stream es rule: drive.induct) (auto split: if_splits list.splits)

lemma drive_inv: "drive ss stream es = Some (ss', rest) \<Longrightarrow> locator_inv opts ss \<Longrightarrow> locator_inv opts ss'"
  by (induction ss stream es rule: drive.induct)
     (auto split: if_splits list.splits simp del: locator_step.simps intro: locator_step_inv)

lemma locator_start_inv: "locator_inv opts (locator_start opts :: locator_status \<times> 'c locator_state)"
  unfolding locator_start_def by (rule loop_head_inv) (simp_all add: locator_state_new_def)

lemma start_progress:
  assumes "drive (locator_start opts) stream es = Some ((status, s), rest)"
  shows "length es + rounds_left s rest \<le> 2 * length stream + 1"
    and "length (ls_sent s) + length (ls_inflight s) + length rest = length stream"
    and "ls_attempted s @ map peer_id (oks rest) = map peer_id (oks stream)"
    and "ls_stream_exhausted s \<longrightarrow> rest = []"
  using drive_progress [OF assms [unfolded locator_start_def]]
  by (simp_all add: locator_state_new_def rounds_left_def accounted_def)

text \<open>The outcome of every attempt depends on its peer only.\<close>

definition answered_by :: "(endpoint_id \<Rightarrow> (error + 'c) option) \<Rightarrow> 'c locator_event list \<Rightarrow> bool" where
  "answered_by reach es \<longleftrightarrow> list_all (\<lambda>e. case e of AttemptDone i channel _ \<Rightarrow> channel = reach i | _ \<Rightarrow> True) es"

text \<open>A round can always be made while the loop races, and every run can be continued to its end, whatever the
  attempts give.\<close>

lemma racing_can_fire:
  assumes "locator_inv opts (Racing, s)"
  shows "\<exists>e. drive (Racing, s) stream [e] \<noteq> None \<and> answered_by reach [e]"
proof (cases "has_inflight s")
  case True
  then have "hd (ls_inflight s) \<in> set (ls_inflight s)" by (simp add: has_inflight_def)
  then show ?thesis
    by (intro exI [of _ "AttemptDone (hd (ls_inflight s)) (reach (hd (ls_inflight s))) True"])
       (simp add: answered_by_def del: locator_step.simps)
next
  case False
  with assms have "can_discover s" by (simp add: locator_inv_def)
  then show ?thesis
    by (intro exI [of _ "NextPeer (case stream of [] \<Rightarrow> None | x # _ \<Rightarrow> Some x) True"])
       (simp add: answered_by_def del: locator_step.simps split: list.split)
qed

lemma drive_status:
  assumes "drive (Racing, s) stream [e] = Some ((status, s'), rest)"
  shows "status = Racing \<or> status = Exhausted"
  using assms by (cases "((Racing, s), stream, [e])" rule: drive.cases)
    (auto simp: Let_def loop_head_def split: if_splits list.splits option.splits sum.splits)

lemma drive_exhausts:
  assumes "locator_inv opts (status, s)" and "status = Racing \<or> status = Exhausted"
    and "0 < lc_max_inflight opts" and "ls_stream_exhausted s \<longrightarrow> stream = []"
  shows "\<exists>es s'. drive (status, s) stream es = Some ((Exhausted, s'), []) \<and> answered_by reach es"
  using assms
proof (induction "rounds_left s stream" arbitrary: status s stream rule: less_induct)
  case less
  show ?case
  proof (cases "status = Racing")
    case True
    with less(2) obtain e status1 s1 rest where e: "drive (Racing, s) stream [e] = Some ((status1, s1), rest)"
        and by_reach: "answered_by reach [e]"
      using racing_can_fire [of opts s stream reach] by (metis not_None_eq surj_pair)
    note p = drive_progress [OF e less(5)]
    from p have "rounds_left s1 rest < rounds_left s stream" by simp
    then obtain es s' where "drive (status1, s1) rest es = Some ((Exhausted, s'), [])" "answered_by reach es"
      using less(1) [OF _ drive_inv [OF e] drive_status [OF e] less(4)] p less(2) True by blast
    with drive_append [OF e, of es] True by_reach show ?thesis
      by (intro exI [of _ "[e] @ es"] exI [of _ s']) (simp add: answered_by_def)
  next
    case False
    with less(2-5) have "status = Exhausted" "stream = []" by (auto simp: locator_inv_def)
    then show ?thesis by (intro exI [of _ "[]"]) (simp add: answered_by_def)
  qed
qed

section \<open>A stream that stays open\<close>

text \<open>The streams of the mDNS and the DHT backend do not end: a consumer that has taken what they yielded so far
  waits. \<open>drive_open\<close> is a run on such a stream, \<open>caught_up\<close> the state in which nothing is ready any more.\<close>

definition drive_open :: "locator_status \<times> 'c locator_state \<Rightarrow> (error + peer) list \<Rightarrow> 'c locator_event list
    \<Rightarrow> ((locator_status \<times> 'c locator_state) \<times> (error + peer) list) option" where
  "drive_open ss stream es = (if NextPeer None True \<in> set es then None else drive ss stream es)"

definition caught_up :: "'c locator_state \<Rightarrow> (error + peer) list \<Rightarrow> bool" where
  "caught_up s rest \<longleftrightarrow> rest = [] \<and> ls_inflight s = []"

lemma drive_openD: "drive_open ss stream es = Some r \<Longrightarrow> drive ss stream es = Some r \<and> NextPeer None True \<notin> set es"
  by (simp add: drive_open_def split: if_splits)

text \<open>The loop races on: it is not left before the stream ends.\<close>

lemma loop_head_open: "\<not> ls_stream_exhausted s \<Longrightarrow> 0 < lc_max_inflight (ls_opts s) \<Longrightarrow> loop_head s = Racing"
  by (auto simp: loop_head_def can_discover_def has_inflight_def)

lemma drive_open_racing:
  "drive_open (Racing, s) stream es = Some ((status, s'), rest) \<Longrightarrow> \<not> ls_stream_exhausted s \<Longrightarrow>
     0 < lc_max_inflight (ls_opts s) \<Longrightarrow> status = Racing \<and> \<not> ls_stream_exhausted s'"
proof (induction es arbitrary: s stream)
  case Nil
  then show ?case by (simp add: drive_open_def)
next
  case (Cons e es)
  from drive_openD [OF Cons.prems(1)] have run: "drive (Racing, s) stream (e # es) = Some ((status, s'), rest)"
    and no_end: "e \<noteq> NextPeer None True" "NextPeer None True \<notin> set es" by auto
  have "\<exists>s1 rest1. drive (Racing, s) stream (e # es) = drive (Racing, s1) rest1 es \<and> \<not> ls_stream_exhausted s1 \<and>
      ls_opts s1 = ls_opts s"
  proof (cases e)
    case (AttemptDone i channel sent)
    let ?s = "s\<lparr>ls_inflight := remove1 i (ls_inflight s),
        ls_sent := ls_sent s @ [attempt_result (lc_timeout_each (ls_opts s)) channel]\<rparr>"
    from AttemptDone run Cons.prems(2,3) have "drive (Racing, s) stream (e # es) = drive (Racing, ?s) stream es"
      by (cases sent) (auto simp: Let_def loop_head_open split: if_splits)
    then show ?thesis using Cons.prems(2) by (intro exI [of _ ?s] exI [of _ stream]) simp
  next
    case (NextPeer item sent)
    with run no_end(1) obtain x xs where stream: "stream = x # xs" "item = Some x" "sent" "can_discover s"
      by (cases sent; cases stream) (auto split: if_splits)
    let ?s = "case x of Inr p \<Rightarrow> push_attempt s p | Inl err \<Rightarrow> s\<lparr>ls_sent := ls_sent s @ [Inl err]\<rparr>"
    from NextPeer stream Cons.prems(2,3) have "drive (Racing, s) stream (e # es) = drive (Racing, ?s) xs es"
      by (cases x) (simp_all add: Let_def loop_head_open push_attempt_def)
    then show ?thesis using Cons.prems(2)
      by (intro exI [of _ ?s] exI [of _ xs]) (simp add: push_attempt_def split: sum.split)
  qed (use run in simp)
  then obtain s1 rest1 where s1: "drive (Racing, s1) rest1 es = Some ((status, s'), rest)" "\<not> ls_stream_exhausted s1"
    "ls_opts s1 = ls_opts s" using run by auto
  show ?case by (rule Cons.IH [of s1 rest1]) (use s1 no_end Cons.prems(3) in \<open>simp_all add: drive_open_def\<close>)
qed

lemma start_open:
  assumes "0 < lc_max_inflight opts"
  shows "locator_start opts = (Racing, locator_state_new opts)"
  using assms by (simp add: locator_start_def loop_head_open locator_state_new_def)

text \<open>A run on an open stream races, makes at most two rounds for every item, goes on while something is ready,
  and has tried every peer when nothing is.\<close>

lemma open_run:
  assumes "0 < lc_max_inflight opts" and "drive_open (locator_start opts) stream es = Some ((status, s), rest)"
  shows "status = Racing" and "\<not> ls_stream_exhausted s" and "length es \<le> 2 * length stream"
    and "caught_up s rest \<Longrightarrow> ls_attempted s = map peer_id (oks stream)"
proof -
  note run = drive_openD [OF assms(2), THEN conjunct1]
  from drive_open_racing [OF assms(2) [unfolded start_open [OF assms(1)]]] assms(1)
  show "status = Racing" and open_: "\<not> ls_stream_exhausted s" by (simp_all add: locator_state_new_def)
  from start_progress(1) [OF run] open_ show "length es \<le> 2 * length stream" by (simp add: rounds_left_def)
  show "ls_attempted s = map peer_id (oks stream)" if "caught_up s rest"
    using start_progress(3) [OF run] that by (simp add: caught_up_def)
qed

lemma open_run_continues:
  assumes "0 < lc_max_inflight opts" and "drive_open (locator_start opts) stream es = Some ((status, s), rest)"
    and "answered_by reach es" and "\<not> caught_up s rest"
  shows "\<exists>e. drive_open (locator_start opts) stream (es @ [e]) \<noteq> None \<and> answered_by reach (es @ [e])"
proof -
  note run = drive_openD [OF assms(2)]
  have status: "status = Racing" "\<not> ls_stream_exhausted s" using open_run [OF assms(1,2)] by simp_all
  have inv: "locator_inv opts (Racing, s)" using drive_inv [OF run [THEN conjunct1] locator_start_inv] status by simp
  have "\<exists>e. drive (Racing, s) rest [e] \<noteq> None \<and> e \<noteq> NextPeer None True \<and> answered_by reach [e]"
  proof (cases "has_inflight s")
    case True
    then have "hd (ls_inflight s) \<in> set (ls_inflight s)" by (simp add: has_inflight_def)
    then show ?thesis
      by (intro exI [of _ "AttemptDone (hd (ls_inflight s)) (reach (hd (ls_inflight s))) True"])
         (simp add: answered_by_def del: locator_step.simps)
  next
    case False
    with inv have "can_discover s" by (simp add: locator_inv_def)
    moreover obtain x xs where "rest = x # xs" using assms(4) False by (cases rest) (auto simp: caught_up_def has_inflight_def)
    ultimately show ?thesis
      by (intro exI [of _ "NextPeer (Some x) True"]) (simp add: answered_by_def del: locator_step.simps)
  qed
  then obtain e where "drive (Racing, s) rest [e] \<noteq> None" "e \<noteq> NextPeer None True" "answered_by reach [e]" by blast
  with drive_append [OF run [THEN conjunct1], of "[e]"] run assms(3) status(1) show ?thesis
    by (intro exI [of _ e]) (auto simp: drive_open_def answered_by_def)
qed

text \<open>So every run can be continued until nothing is ready.\<close>

lemma open_run_catches_up:
  assumes "0 < lc_max_inflight opts" and "drive_open (locator_start opts) stream es = Some ((status, s), rest)"
    and "answered_by reach es"
  shows "\<exists>es' s'. drive_open (locator_start opts) stream (es @ es') = Some ((Racing, s'), []) \<and> caught_up s' [] \<and>
    answered_by reach (es @ es')"
  using assms(2,3)
proof (induction "2 * length stream - length es" arbitrary: es status s rest rule: less_induct)
  case less
  show ?case
  proof (cases "caught_up s rest")
    case True
    with less(2,3) open_run(1) [OF assms(1) less(2)] show ?thesis
      by (intro exI [of _ "[]"] exI [of _ s]) (simp add: caught_up_def)
  next
    case False
    from open_run_continues [OF assms(1) less(2,3) False] obtain e status1 s1 rest1 where
      e: "drive_open (locator_start opts) stream (es @ [e]) = Some ((status1, s1), rest1)" "answered_by reach (es @ [e])"
      by auto
    from open_run(3) [OF assms(1) e(1)] have "2 * length stream - length (es @ [e]) < 2 * length stream - length es" by simp
    from less(1) [OF this e] obtain es' s' where
      "drive_open (locator_start opts) stream ((es @ [e]) @ es') = Some ((Racing, s'), []) \<and> caught_up s' [] \<and>
        answered_by reach ((es @ [e]) @ es')" by blast
    then show ?thesis by (intro exI [of _ "e # es'"] exI [of _ s']) simp
  qed
qed

section \<open>What becomes of the attempts\<close>

text \<open>When the outcome of an attempt depends on its peer only, every attempt that is no longer under way has
  left its result in the channel, and every channel there comes from an attempt.\<close>

definition results_ok :: "locator_config \<Rightarrow> (endpoint_id \<Rightarrow> (error + 'c) option) \<Rightarrow> 'c locator_state \<Rightarrow> bool" where
  "results_ok opts reach s \<longleftrightarrow> ls_opts s = opts \<and> set (ls_inflight s) \<subseteq> set (ls_attempted s) \<and>
     (\<forall>i \<in> set (ls_attempted s). i \<in> set (ls_inflight s) \<or> attempt_result (lc_timeout_each opts) (reach i) \<in> set (ls_sent s)) \<and>
     (\<forall>c. Inr c \<in> set (ls_sent s) \<longrightarrow> (\<exists>i \<in> set (ls_attempted s). reach i = Some (Inr c)))"

lemma attempt_result_ok: "attempt_result d channel = Inr c \<longleftrightarrow> channel = Some (Inr c)"
  by (simp add: attempt_result_def split: option.split)

lemma results_ok_done:
  assumes "results_ok opts reach s" and "i \<in> set (ls_inflight s)"
  shows "results_ok opts reach (s\<lparr>ls_inflight := remove1 i (ls_inflight s),
    ls_sent := ls_sent s @ [attempt_result (lc_timeout_each opts) (reach i)]\<rparr>)"
proof -
  let ?f = "\<lambda>j. attempt_result (lc_timeout_each opts) (reach j)" and ?in = "remove1 i (ls_inflight s)"
  note ok = assms(1) [unfolded results_ok_def]
  have "set ?in \<subseteq> set (ls_attempted s)" using ok set_remove1_subset [of i "ls_inflight s"] by blast
  moreover have "j \<in> set ?in \<or> ?f j \<in> set (ls_sent s @ [?f i])" if "j \<in> set (ls_attempted s)" for j
  proof (cases "j = i \<or> ?f j \<in> set (ls_sent s)")
    case False
    with ok that have "j \<in> set (ls_inflight s)" "j \<noteq> i" by blast+
    then show ?thesis by (simp add: in_set_remove1)
  qed auto
  moreover have "\<exists>j \<in> set (ls_attempted s). reach j = Some (Inr c)" if "Inr c \<in> set (ls_sent s @ [?f i])" for c
  proof (cases "Inr c \<in> set (ls_sent s)")
    case False
    with that have "?f i = Inr c" by simp
    then have "reach i = Some (Inr c)" by (simp only: attempt_result_ok)
    with ok assms(2) show ?thesis by blast
  qed (use ok in blast)
  ultimately show ?thesis using ok by (simp add: results_ok_def)
qed

lemma drive_results:
  assumes "drive (status, s) stream es = Some ((status', s'), rest)" and "results_ok opts reach s"
    and "answered_by reach es"
  shows "results_ok opts reach s'"
  using assms
proof (induction "(status, s)" stream es arbitrary: status s rule: drive.induct)
  case (2 s stream i channel es)
  then have i: "i \<in> set (ls_inflight s)" and ch: "channel = reach i" by (auto simp: answered_by_def split: if_splits)
  let ?s = "s\<lparr>ls_inflight := remove1 i (ls_inflight s),
      ls_sent := ls_sent s @ [attempt_result (lc_timeout_each (ls_opts s)) channel]\<rparr>"
  have step: "locator_step (Racing, s) (AttemptDone i channel True) = (loop_head ?s, ?s)" using i by (simp add: Let_def)
  have "results_ok opts reach ?s"
    using results_ok_done [OF 2(3) i] 2(3) ch by (simp add: results_ok_def)
  with 2(1) [OF i step] 2(2,4) i show ?case by (simp add: step answered_by_def del: locator_step.simps)
next
  case (3 s stream item es)
  show ?case
  proof (cases stream)
    case Nil
    with 3 show ?thesis by (auto simp: Let_def results_ok_def answered_by_def split: if_splits)
  next
    case (Cons x xs)
    let ?s = "case x of Inr p \<Rightarrow> push_attempt s p | Inl err \<Rightarrow> s\<lparr>ls_sent := ls_sent s @ [Inl err]\<rparr>"
    from 3(3) Cons have can: "can_discover s" and item: "item = Some x"
      and run: "drive (locator_step (Racing, s) (NextPeer (Some x) True)) xs es = Some ((status', s'), rest)"
      by (auto split: if_splits)
    have step: "locator_step (Racing, s) (NextPeer (Some x) True) = (loop_head ?s, ?s)"
      using can by (cases x) (simp_all add: Let_def)
    have "results_ok opts reach ?s" using 3(4) by (cases x) (auto simp: results_ok_def push_attempt_def)
    from 3(2) [OF can Cons item step run [unfolded step] this] 3(5) show ?thesis by (simp add: answered_by_def)
  qed
qed auto

text \<open>So a locator that has nothing more to do has found a channel for \<open>first\<close> when some peer it was given can be
  reached, and every channel it has is one to a peer it was given.\<close>

lemma first_reaches:
  assumes "0 < lc_max_inflight opts" and "drive_open (locator_start opts) stream es = Some ((status, s), rest)"
    and "answered_by reach es" and "caught_up s rest"
    and "Inr p \<in> set stream" and "reach (peer_id p) = Some (Inr c)"
  shows "\<exists>q d. Inr q \<in> set stream \<and> reach (peer_id q) = Some (Inr d) \<and> locator_first (ls_sent s) = Inr d"
proof -
  have tried: "ls_attempted s = map peer_id (oks stream)" by (rule open_run(4) [OF assms(1,2,4)])
  have "results_ok opts reach (locator_state_new opts)" by (simp add: results_ok_def locator_state_new_def)
  from drive_results [OF _ this assms(3)] drive_openD [OF assms(2)] have res: "results_ok opts reach s"
    by (auto simp: locator_start_def)
  have "ls_inflight s = []" using assms(4) by (simp add: caught_up_def)
  moreover have "peer_id p \<in> set (ls_attempted s)" using assms(5) by (auto simp: tried oks_mem)
  ultimately have "Inr c \<in> set (ls_sent s)"
    using res assms(6) attempt_result_ok [of "lc_timeout_each opts" "reach (peer_id p)" c] by (auto simp: results_ok_def)
  then obtain d ds where d: "oks (ls_sent s) = d # ds" by (cases "oks (ls_sent s)") (auto simp flip: oks_mem)
  then have "d \<in> set (oks (ls_sent s))" by simp
  then have "Inr d \<in> set (ls_sent s)" by (simp add: oks_mem)
  then obtain q where "Inr q \<in> set stream" "reach (peer_id q) = Some (Inr d)"
    using res by (auto simp: results_ok_def tried oks_mem)
  with d show ?thesis by (auto simp: locator_first_def first_loop_spec)
qed

section \<open>The pool cache\<close>

fun pool_requests :: "service_registry \<Rightarrow> (bytes \<times> pool_options) list \<Rightarrow> nat list" where
  "pool_requests r [] = []"
| "pool_requests r (key # keys) =
     (case pool_for_alpn r key of (pool, r') \<Rightarrow> pool # pool_requests r' keys)"

definition cache_ok :: "service_registry \<Rightarrow> bool" where
  "cache_ok r \<longleftrightarrow> (\<forall>k p. rg_pools r k = Some p \<longrightarrow> p < rg_created r) \<and>
     (\<forall>k k' p. rg_pools r k = Some p \<longrightarrow> rg_pools r k' = Some p \<longrightarrow> k = k')"

lemma pool_for_alpn_cached:
  assumes "cache_ok r" and "pool_for_alpn r key = (pool, r')"
  shows "cache_ok r'" and "rg_pools r' key = Some pool" and "rg_pools r \<subseteq>\<^sub>m rg_pools r'"
  using assms
  by (auto simp: pool_for_alpn_def cache_ok_def map_le_def less_SucI split: option.splits if_splits)
     (metis less_irrefl_nat)+

text \<open>After all requests one cache holds the pool of every key that was asked for.\<close>

lemma pool_requests_cached:
  "cache_ok r \<Longrightarrow> \<exists>r'. cache_ok r' \<and> rg_pools r \<subseteq>\<^sub>m rg_pools r' \<and> length (pool_requests r keys) = length keys \<and>
     (\<forall>i < length keys. rg_pools r' (keys ! i) = Some (pool_requests r keys ! i))"
proof (induction keys arbitrary: r)
  case Nil
  then show ?case by auto
next
  case (Cons key keys)
  obtain pool r1 where p: "pool_for_alpn r key = (pool, r1)" by (cases "pool_for_alpn r key")
  note c = pool_for_alpn_cached [OF Cons.prems p]
  obtain r' where r': "cache_ok r'" "rg_pools r1 \<subseteq>\<^sub>m rg_pools r'" "length (pool_requests r1 keys) = length keys"
      "\<forall>i < length keys. rg_pools r' (keys ! i) = Some (pool_requests r1 keys ! i)"
    using Cons.IH [OF c(1)] by blast
  have "rg_pools r' key = Some pool" using c(2) r'(2) by (metis domI map_le_def)
  moreover have "rg_pools r \<subseteq>\<^sub>m rg_pools r'" using c(3) r'(2) by (rule map_le_trans)
  ultimately show ?case using r' p by (intro exI [of _ r']) (auto simp: nth_Cons split: nat.split)
qed

section \<open>Properties\<close>

text \<open>(C28) In every run of the locator at most \<open>max_inflight\<close> attempts are under way, all of them to
  discovered peers, and when the loop ends by itself nothing is under way and the discovery stream
  was exhausted (or no attempt is allowed at all).\<close>

theorem locator_bounded:
  assumes "locator_run (locator_state_new opts) events = (status, s)"
  shows "length (ls_inflight s) \<le> lc_max_inflight opts \<and> mset (ls_inflight s) \<subseteq># mset (ls_attempted s) \<and>
     (status = Exhausted \<longrightarrow> ls_inflight s = [] \<and> (ls_stream_exhausted s \<or> lc_max_inflight opts = 0))"
  using locator_run_inv [of opts events] assms by (auto simp: locator_inv_def)

text \<open>(C29) The loop terminates on every finite stream of peers, whatever order attempts and discovery become
  ready in: it fires at most \<open>2 * length stream + 1\<close> branches, as long as it races some branch can fire,
  and when it ends by itself every discovered peer was attempted once, in order, and every item of the
  stream has led to exactly one result in the channel.\<close>

theorem locator_terminates:
  assumes "0 < lc_max_inflight opts"
    and "drive (locator_start opts) stream es = Some ((status, s), rest)"
  shows "length es \<le> 2 * length stream + 1 \<and>
    (status = Racing \<longrightarrow> (\<exists>e. drive (locator_start opts) stream (es @ [e]) \<noteq> None)) \<and>
    (status = Exhausted \<longrightarrow> length (ls_sent s) = length stream \<and> ls_attempted s = map peer_id (oks stream))"
proof -
  note progress = start_progress [OF assms(2)]
  have inv: "locator_inv opts (status, s)" by (rule drive_inv [OF assms(2) locator_start_inv])
  have "length es \<le> 2 * length stream + 1" using progress(1) by simp
  moreover have "\<exists>e. drive (locator_start opts) stream (es @ [e]) \<noteq> None" if "status = Racing"
  proof -
    from inv that racing_can_fire [of opts s rest] have "\<exists>e. drive (Racing, s) rest [e] \<noteq> None" by blast
    with that drive_append [OF assms(2)] show ?thesis by simp
  qed
  moreover have "length (ls_sent s) = length stream \<and> ls_attempted s = map peer_id (oks stream)" if "status = Exhausted"
    using inv that assms(1) progress by (auto simp: locator_inv_def)
  ultimately show ?thesis by blast
qed

text \<open>\<open>first\<close> returns the first channel that arrives, skipping failures; only when none arrives it
  fails, with the last error or with the message that no peer was reachable.\<close>

lemma locator_first_correct:
  "locator_first received =
     (case oks received of
        c # _ \<Rightarrow> Inr c
      | [] \<Rightarrow> Inl (if received = [] then connection ''no peers reachable'' else projl (last received)))"
  by (simp add: locator_first_def first_loop_spec)

text \<open>The registry's pool cache: over any sequence of requests two requests get the same pool exactly
  when protocol and options agree.\<close>

lemma pool_cache_by_key:
  assumes "i < length keys" and "j < length keys"
  shows "pool_requests (registry_new local_id) keys ! i = pool_requests (registry_new local_id) keys ! j
     \<longleftrightarrow> keys ! i = keys ! j"
proof -
  have "cache_ok (registry_new local_id)" by (simp add: cache_ok_def registry_new_def)
  from pool_requests_cached [OF this] obtain r' where "cache_ok r'"
      "\<forall>i < length keys. rg_pools r' (keys ! i) = Some (pool_requests (registry_new local_id) keys ! i)"
    by blast
  with assms show ?thesis unfolding cache_ok_def by (metis option.inject)
qed

text \<open>On every finite stream of peers some run of the loop ends by itself, whatever the attempts give.\<close>

lemma locator_can_end:
  assumes "0 < lc_max_inflight opts"
  shows "\<exists>es s. drive (locator_start opts) stream es = Some ((Exhausted, s), []) \<and> answered_by reach es"
  unfolding locator_start_def
  by (rule drive_exhausts [OF locator_start_inv [unfolded locator_start_def] _ assms])
     (simp_all add: loop_head_def locator_state_new_def)

text \<open>A limit of zero is handed to the channel unchecked: starting the locator panics.\<close>

lemma locator_limit_zero_panics:
  assumes "\<not> mpsc_ok 0"
  shows "snd (snd (snd (builder_start mpsc_ok r service (builder_limit b 0)))) = Panicked"
  using assms by (simp add: builder_start_def builder_limit_def spawn_with_pool_def Let_def split: prod.split)

section \<open>Witnesses\<close>

definition wl_opts :: locator_config where
  "wl_opts = locator_config_default\<lparr>lc_max_inflight := 1\<rparr>"

definition wl_events :: "nat locator_event list" where
  "wl_events = [NextPeer (Some (Inr (wg_peer 2 100))) True, NextPeer (Some (Inr (wg_peer 3 100))) True,
     AttemptDone [2] (Some (Inr 7)) True, NextPeer None True]"

lemma wl_run: "locator_run (locator_state_new wl_opts) wl_events =
   (Exhausted, \<lparr>ls_inflight = [], ls_stream_exhausted = True, ls_opts = wl_opts, ls_sent = [Inr 7],
      ls_attempted = [[2]]\<rparr>)"
  by (simp add: locator_run_def locator_state_new_def wl_opts_def wl_events_def loop_head_def can_discover_def
      has_inflight_def push_attempt_def attempt_result_def wg_peer_def locator_config_default_def)

theorem locator_bounded_witness:
  "locator_run (locator_state_new wl_opts) wl_events =
     (Exhausted, \<lparr>ls_inflight = [], ls_stream_exhausted = True, ls_opts = wl_opts, ls_sent = [Inr 7],
        ls_attempted = [[2]]\<rparr>) \<and> mset ([] :: endpoint_id list) \<subseteq># mset [[2]]"
  using locator_bounded [OF wl_run] wl_run by simp

theorem locator_terminates_witness:
  "drive (locator_start wl_opts) [Inr (wg_peer 2 100)]
     [NextPeer (Some (Inr (wg_peer 2 100))) True, AttemptDone [2] (Some (Inr (7::nat))) True, NextPeer None True] =
   Some ((Exhausted, \<lparr>ls_inflight = [], ls_stream_exhausted = True, ls_opts = wl_opts, ls_sent = [Inr 7],
      ls_attempted = [[2]]\<rparr>), []) \<and> (3::nat) \<le> 2 * 1 + 1"
proof -
  let ?es = "[NextPeer (Some (Inr (wg_peer 2 100))) True, AttemptDone [2] (Some (Inr (7::nat))) True, NextPeer None True]"
  have run: "drive (locator_start wl_opts) [Inr (wg_peer 2 100)] ?es =
      Some ((Exhausted, \<lparr>ls_inflight = [], ls_stream_exhausted = True, ls_opts = wl_opts, ls_sent = [Inr 7],
        ls_attempted = [[2]]\<rparr>), [])"
    by (simp add: locator_start_def locator_state_new_def wl_opts_def loop_head_def can_discover_def has_inflight_def push_attempt_def
        attempt_result_def wg_peer_def locator_config_default_def)
  have "0 < lc_max_inflight wl_opts" by (simp add: wl_opts_def)
  from locator_terminates [OF this run] run show ?thesis by simp
qed

end
