(* ===== verification/Locator_Handle.thy ===== *)
theory Locator_Handle
  imports Locator
begin

text \<open>
  \<^verbatim>\<open>src/swarm/locator.rs\<close>, the handle: \<open>Locator\<close> with its stream, \<open>first\<close> and \<open>Drop\<close>, the task it starts and the bounded
  channel between them. The task's loop is the one of theory \<open>Locator\<close>, taken apart at its \<open>await\<close>s: a result
  that does not fit into the channel waits, and the loop with it. The channel is tokio's: it keeps the
  order, holds at most \<open>limit\<close> results, refuses what is sent after the receiver is gone, and ends when it is empty and the
  sender is gone.
\<close>

section \<open>Definitions\<close>

text \<open>What the task waits to send: the result of an attempt, or an error of the discovery stream.\<close>

datatype 'c pending_send = SendAttempt endpoint_id "(error + 'c) option" | SendError error

datatype locator_task = Live | Done locator_status | Aborted

text \<open>\<open>lh_received\<close> is what \<open>poll_next\<close> has yielded, \<open>lh_ended\<close> that it has yielded the end.\<close>

record 'c locator_handle =
  lh_core :: "'c locator_state"
  lh_task :: locator_task
  lh_sending :: "'c pending_send option"
  lh_queue :: "(error + 'c) list"
  lh_received :: "(error + 'c) list"
  lh_dropped :: bool
  lh_ended :: bool

text \<open>The loop is left at its head.\<close>

definition settle :: "'c locator_state \<Rightarrow> locator_task" where
  "settle s = (case loop_head s of Racing \<Rightarrow> Live | status \<Rightarrow> Done status)"

definition locator_handle_new :: "locator_config \<Rightarrow> 'c locator_handle" where
  "locator_handle_new opts =
     (let core = locator_state_new opts
      in \<lparr>lh_core = core, lh_task = settle core, lh_sending = None, lh_queue = [], lh_received = [],
          lh_dropped = False, lh_ended = False\<rparr>)"

definition sent_value :: "locator_config \<Rightarrow> 'c pending_send \<Rightarrow> error + 'c" where
  "sent_value opts w = (case w of SendAttempt i channel \<Rightarrow> attempt_result (lc_timeout_each opts) channel | SendError e \<Rightarrow> Inl e)"

definition record_sent :: "'c locator_state \<Rightarrow> error + 'c \<Rightarrow> 'c locator_state" where
  "record_sent s r = s\<lparr>ls_sent := ls_sent s @ [r]\<rparr>"

text \<open>\<open>poll_next\<close> of the handle is \<open>poll_recv\<close> of its receiver.\<close>

definition locator_poll_next :: "'c locator_handle \<Rightarrow> (error + 'c) option poll \<times> 'c locator_handle" where
  "locator_poll_next h =
     (case lh_queue h of
        r # rest \<Rightarrow> (Ready (Some r), h\<lparr>lh_queue := rest, lh_received := lh_received h @ [r]\<rparr>)
      | [] \<Rightarrow> (if lh_task h = Live then (Pending, h) else (Ready None, h\<lparr>lh_ended := True\<rparr>)))"

text \<open>\<open>Drop\<close> asks for the task's end, which comes at its next \<open>await\<close>, and the receiver goes with the handle.\<close>

definition locator_drop :: "'c locator_handle \<Rightarrow> 'c locator_handle" where
  "locator_drop h = h\<lparr>lh_dropped := True, lh_queue := []\<rparr>"

inductive lh_step :: "'c locator_handle \<Rightarrow> 'c locator_handle \<Rightarrow> bool" where
  attempt_done:
    "lh_task h = Live \<Longrightarrow> lh_sending h = None \<Longrightarrow> i \<in> set (ls_inflight (lh_core h)) \<Longrightarrow>
     lh_step h (h\<lparr>lh_core := (lh_core h)\<lparr>ls_inflight := remove1 i (ls_inflight (lh_core h))\<rparr>,
       lh_sending := Some (SendAttempt i channel)\<rparr>)"
| next_peer:
    "lh_task h = Live \<Longrightarrow> lh_sending h = None \<Longrightarrow> can_discover (lh_core h) \<Longrightarrow>
     lh_step h (h\<lparr>lh_core := push_attempt (lh_core h) p, lh_task := settle (push_attempt (lh_core h) p)\<rparr>)"
| next_error:
    "lh_task h = Live \<Longrightarrow> lh_sending h = None \<Longrightarrow> can_discover (lh_core h) \<Longrightarrow>
     lh_step h (h\<lparr>lh_sending := Some (SendError e)\<rparr>)"
| next_none:
    "lh_task h = Live \<Longrightarrow> lh_sending h = None \<Longrightarrow> can_discover (lh_core h) \<Longrightarrow>
     lh_step h (h\<lparr>lh_core := (lh_core h)\<lparr>ls_stream_exhausted := True\<rparr>,
       lh_task := settle ((lh_core h)\<lparr>ls_stream_exhausted := True\<rparr>)\<rparr>)"
| sent:
    "lh_task h = Live \<Longrightarrow> lh_sending h = Some w \<Longrightarrow> \<not> lh_dropped h \<Longrightarrow>
     length (lh_queue h) < lc_limit (ls_opts (lh_core h)) \<Longrightarrow> r = sent_value (ls_opts (lh_core h)) w \<Longrightarrow>
     lh_step h (h\<lparr>lh_core := record_sent (lh_core h) r, lh_sending := None, lh_queue := lh_queue h @ [r],
       lh_task := settle (record_sent (lh_core h) r)\<rparr>)"
| refused_attempt:
    "lh_task h = Live \<Longrightarrow> lh_sending h = Some (SendAttempt i channel) \<Longrightarrow> lh_dropped h \<Longrightarrow>
     lh_step h (h\<lparr>lh_sending := None, lh_task := Done ReceiverGone\<rparr>)"
| refused_error:
    "lh_task h = Live \<Longrightarrow> lh_sending h = Some (SendError e) \<Longrightarrow> lh_dropped h \<Longrightarrow>
     lh_step h (h\<lparr>lh_sending := None, lh_task := settle (lh_core h)\<rparr>)"
| overall_timeout:
    "lh_task h = Live \<Longrightarrow> lc_timeout (ls_opts (lh_core h)) \<noteq> None \<Longrightarrow>
     lh_step h (h\<lparr>lh_sending := None, lh_task := Done TimedOutOverall\<rparr>)"
| polled:
    "\<not> lh_dropped h \<Longrightarrow> locator_poll_next h = (answer, h') \<Longrightarrow> lh_step h h'"
| dropped:
    "\<not> lh_dropped h \<Longrightarrow> lh_step h (locator_drop h)"
| aborted:
    "lh_task h = Live \<Longrightarrow> lh_dropped h \<Longrightarrow> lh_step h (h\<lparr>lh_task := Aborted, lh_sending := None\<rparr>)"

inductive lh_reachable :: "locator_config \<Rightarrow> 'c locator_handle \<Rightarrow> bool" for opts where
  lh_init: "lh_reachable opts (locator_handle_new opts)"
| lh_more: "lh_reachable opts h \<Longrightarrow> lh_step h h' \<Longrightarrow> lh_reachable opts h'"

text \<open>A consumer that calls \<open>first\<close>: it has its answer at the first channel, or at the end.\<close>

definition first_answer :: "'c locator_handle \<Rightarrow> (error + 'c) option" where
  "first_answer h =
     (if (\<exists>r \<in> set (lh_received h). \<not> isl r) \<or> lh_ended h then Some (locator_first (lh_received h)) else None)"

section \<open>The handle implements the loop\<close>

text \<open>The run of the loop that a handle has made so far. While a result waits to be sent its round is not
  finished; a task that ended in between sent and attempted what its last finished round had.\<close>

definition same_results :: "'c locator_state \<Rightarrow> 'c locator_state \<Rightarrow> bool" where
  "same_results s s' \<longleftrightarrow> ls_sent s = ls_sent s' \<and> ls_attempted s = ls_attempted s'"

definition simulates :: "locator_status \<times> 'c locator_state \<Rightarrow> 'c locator_handle \<Rightarrow> bool" where
  "simulates ss h \<longleftrightarrow>
     (case lh_task h of
        Live \<Rightarrow> (case lh_sending h of
                   None \<Rightarrow> ss = (Racing, lh_core h)
                 | Some (SendAttempt i _) \<Rightarrow> \<exists>s. ss = (Racing, s) \<and> i \<in> set (ls_inflight s) \<and>
                     lh_core h = s\<lparr>ls_inflight := remove1 i (ls_inflight s)\<rparr>
                 | Some (SendError _) \<Rightarrow> ss = (Racing, lh_core h) \<and> can_discover (lh_core h))
      | Done status \<Rightarrow> fst ss = status \<and> same_results (snd ss) (lh_core h) \<and> status \<noteq> Racing
      | Aborted \<Rightarrow> same_results (snd ss) (lh_core h))"

lemma loop_head_cases: "loop_head s = Racing \<or> loop_head s = Exhausted"
  by (simp add: loop_head_def)

lemma simulates_settle:
  assumes "lh_task h = settle (lh_core h)" and "lh_sending h = None"
  shows "simulates (loop_head (lh_core h), lh_core h) h"
  using assms loop_head_cases [of "lh_core h"] by (auto simp: simulates_def settle_def same_results_def)

lemma simulates_cong:
  "lh_core h' = lh_core h \<Longrightarrow> lh_task h' = lh_task h \<Longrightarrow> lh_sending h' = lh_sending h \<Longrightarrow>
     simulates ss h' \<longleftrightarrow> simulates ss h"
  unfolding simulates_def by (simp only:)

lemma simulates_results: "simulates ss h \<Longrightarrow> same_results (snd ss) (lh_core h)"
  by (auto simp: simulates_def same_results_def split: locator_task.splits option.splits pending_send.splits)

text \<open>Every step of the handle is at most one round of the loop.\<close>

lemma lh_step_simulated:
  assumes "lh_step h h'" and "simulates ss h"
  shows "\<exists>es. simulates (foldl locator_step ss es) h'"
  using assms
proof (induction rule: lh_step.induct)
  case (attempt_done h i channel)
  then show ?case by (intro exI [of _ "[]"]) (auto simp: simulates_def)
next
  case (next_peer h p)
  then have ss: "ss = (Racing, lh_core h)" by (simp add: simulates_def)
  show ?case
    using simulates_settle [of "h\<lparr>lh_core := push_attempt (lh_core h) p, lh_task := settle (push_attempt (lh_core h) p)\<rparr>"] next_peer
    by (intro exI [of _ "[NextPeer (Some (Inr p)) True]"]) (simp add: ss Let_def)
next
  case (next_error h e)
  then show ?case by (intro exI [of _ "[]"]) (auto simp: simulates_def)
next
  case (next_none h)
  then have ss: "ss = (Racing, lh_core h)" by (simp add: simulates_def)
  let ?s = "(lh_core h)\<lparr>ls_stream_exhausted := True\<rparr>"
  show ?case
    using simulates_settle [of "h\<lparr>lh_core := ?s, lh_task := settle ?s\<rparr>"] next_none
    by (intro exI [of _ "[NextPeer None True]"]) (simp add: ss Let_def)
next
  case (sent h w r)
  note done_ = simulates_settle [of "h\<lparr>lh_core := record_sent (lh_core h) r, lh_sending := None, lh_queue := lh_queue h @ [r],
    lh_task := settle (record_sent (lh_core h) r)\<rparr>"]
  show ?case
  proof (cases w)
    case (SendAttempt i channel)
    with sent obtain s where "ss = (Racing, s)" "i \<in> set (ls_inflight s)"
        "lh_core h = s\<lparr>ls_inflight := remove1 i (ls_inflight s)\<rparr>" by (auto simp: simulates_def)
    with done_ sent SendAttempt show ?thesis
      by (intro exI [of _ "[AttemptDone i channel True]"]) (simp add: sent_value_def record_sent_def Let_def)
  next
    case (SendError e)
    with sent have "ss = (Racing, lh_core h)" "can_discover (lh_core h)" by (auto simp: simulates_def)
    with done_ sent SendError show ?thesis
      by (intro exI [of _ "[NextPeer (Some (Inl e)) True]"]) (simp add: sent_value_def record_sent_def Let_def)
  qed
next
  case (refused_attempt h i channel)
  then show ?case
    by (intro exI [of _ "[AttemptDone i channel False]"]) (auto simp: simulates_def same_results_def)
next
  case (refused_error h e)
  then have "ss = (Racing, lh_core h)" "can_discover (lh_core h)" by (auto simp: simulates_def)
  then show ?case
    using simulates_settle [of "h\<lparr>lh_sending := None, lh_task := settle (lh_core h)\<rparr>"]
    by (intro exI [of _ "[NextPeer (Some (Inl e)) False]"]) (simp add: Let_def refused_error)
next
  case (overall_timeout h)
  then obtain s where "ss = (Racing, s)" "lc_timeout (ls_opts s) \<noteq> None" "same_results s (lh_core h)"
    by (auto simp: simulates_def same_results_def split: option.splits pending_send.splits)
  then show ?case
    by (intro exI [of _ "[OverallTimeout]"]) (auto simp: simulates_def split: option.splits)
next
  case (aborted h)
  then show ?case by (intro exI [of _ "[]"]) (simp add: simulates_def [of _ "h\<lparr>lh_task := _, lh_sending := _\<rparr>"] simulates_results)
next
  case (polled h answer h')
  then have "lh_core h' = lh_core h" "lh_task h' = lh_task h" "lh_sending h' = lh_sending h"
    by (auto simp: locator_poll_next_def split: list.splits if_splits)
  from simulates_cong [OF this] polled(3) show ?case by (intro exI [of _ "[]"]) simp
next
  case (dropped h)
  have "simulates ss (locator_drop h) \<longleftrightarrow> simulates ss h" by (rule simulates_cong) (simp_all add: locator_drop_def)
  with dropped show ?case by (intro exI [of _ "[]"]) simp
qed

text \<open>The channel: bounded, in order, and what it gave up was sent.\<close>

definition channel_ok :: "locator_config \<Rightarrow> 'c locator_handle \<Rightarrow> bool" where
  "channel_ok opts h \<longleftrightarrow> ls_opts (lh_core h) = opts \<and> length (lh_queue h) \<le> lc_limit opts \<and>
     (if lh_dropped h then prefix (lh_received h) (ls_sent (lh_core h)) \<and> lh_queue h = []
      else lh_received h @ lh_queue h = ls_sent (lh_core h)) \<and>
     (lh_ended h \<longrightarrow> lh_received h = ls_sent (lh_core h) \<and> lh_task h \<noteq> Live \<and> lh_queue h = []) \<and>
     (lh_task h \<noteq> Live \<longrightarrow> lh_sending h = None)"

lemma settle_opts [simp]: "ls_opts (push_attempt s p) = ls_opts s" "ls_sent (push_attempt s p) = ls_sent s"
  by (simp_all add: push_attempt_def)

lemma channel_step:
  assumes "lh_step h h'" and "channel_ok opts h"
  shows "channel_ok opts h'"
  using assms by (induction rule: lh_step.induct) (auto simp: channel_ok_def record_sent_def settle_def locator_drop_def locator_poll_next_def
    intro: prefixI [OF sym] prefix_order.trans split: locator_status.splits list.splits if_splits)

lemma lh_reachable_inv:
  fixes h :: "'c locator_handle"
  assumes "lh_reachable opts h"
  shows "channel_ok opts h \<and> (\<exists>events. simulates (locator_run (locator_state_new opts) events) h)"
  using assms
proof (induction rule: lh_reachable.induct)
  case lh_init
  have "simulates (loop_head (locator_state_new opts :: 'c locator_state), locator_state_new opts) (locator_handle_new opts :: 'c locator_handle)"
    using simulates_settle [of "locator_handle_new opts :: 'c locator_handle"] by (simp add: locator_handle_new_def Let_def)
  then show ?case
    by (intro conjI exI [of _ "[]"]) (simp_all add: locator_run_def channel_ok_def locator_handle_new_def Let_def locator_state_new_def)
next
  case (lh_more h h')
  then obtain events where "simulates (locator_run (locator_state_new opts) events) h" by blast
  from lh_step_simulated [OF lh_more(2) this] obtain es where
    "simulates (locator_run (locator_state_new opts) (events @ es)) h'" by (auto simp: locator_run_def)
  with lh_more channel_step show ?case by blast
qed

lemma oks_nonempty: "oks rs \<noteq> [] \<longleftrightarrow> (\<exists>r \<in> set rs. \<not> isl r)"
proof (induction rs)
  case (Cons r rs)
  then show ?case by (cases r) auto
qed simp

lemma first_answer_ok: "(\<exists>c. first_answer h = Some (Inr c)) \<longleftrightarrow> (\<exists>r \<in> set (lh_received h). \<not> isl r)"
  unfolding first_answer_def locator_first_def first_loop_spec oks_nonempty [symmetric]
  by (auto split: list.split)

section \<open>Properties\<close>

text \<open>(C16) The handle gives its owner what the loop found: in every state that task, channel and owner can reach
  together there is a run of the loop such that the results received, followed by those waiting in the
  channel (never more than \<open>limit\<close>), are the results of the run in order; a dropped handle received a
  prefix of them; and when the owner sees the end of a handle whose task ran out of peers, it received
  the results of a complete run, so \<open>first\<close> succeeds exactly when some result of it was a channel.\<close>

theorem locator_handle_refines_loop:
  assumes "lh_reachable opts h"
  shows "\<exists>events status s. locator_run (locator_state_new opts) events = (status, s) \<and>
     length (lh_queue h) \<le> lc_limit opts \<and>
     (if lh_dropped h then prefix (lh_received h) (ls_sent s) else lh_received h @ lh_queue h = ls_sent s) \<and>
     (lh_ended h \<and> lh_task h = Done Exhausted \<longrightarrow> status = Exhausted \<and> lh_received h = ls_sent s \<and>
        ((\<exists>c. first_answer h = Some (Inr c)) \<longleftrightarrow> (\<exists>r \<in> set (ls_sent s). \<not> isl r)))"
proof -
  from lh_reachable_inv [OF assms] obtain events where
    ok: "channel_ok opts h" and sim: "simulates (locator_run (locator_state_new opts) events) h" by blast
  obtain status s where run: "locator_run (locator_state_new opts) events = (status, s)" by force
  have sent: "ls_sent s = ls_sent (lh_core h)" using simulates_results [OF sim] run by (simp add: same_results_def)
  have "status = Exhausted" if "lh_task h = Done Exhausted" using sim that run by (simp add: simulates_def)
  then show ?thesis
    using ok run sent first_answer_ok [of h] by (intro exI [of _ events] exI [of _ status] exI [of _ s]) (auto simp: channel_ok_def)
qed

text \<open>A locator that is read never gets stuck: as long as its owner has not seen the end, task or owner
  can make a step.\<close>

lemma locator_handle_progress:
  assumes "lh_reachable opts h" and "0 < lc_limit opts" and "\<not> lh_ended h" and "\<not> lh_dropped h"
  shows "\<exists>h'. lh_step h h' \<and> \<not> lh_dropped h'"
proof -
  from lh_reachable_inv [OF assms(1)] obtain events where
    ok: "channel_ok opts h" and sim: "simulates (locator_run (locator_state_new opts) events) h" by blast
  show ?thesis
  proof (cases "lh_queue h")
    case (Cons r rest)
    then have "locator_poll_next h = (Ready (Some r), h\<lparr>lh_queue := rest, lh_received := lh_received h @ [r]\<rparr>)"
      by (simp add: locator_poll_next_def)
    from polled [OF assms(4) this] show ?thesis using assms(4) by auto
  next
    case Nil
    show ?thesis
    proof (cases "lh_task h = Live")
      case False
      then have "locator_poll_next h = (Ready None, h\<lparr>lh_ended := True\<rparr>)" using Nil by (simp add: locator_poll_next_def)
      from polled [OF assms(4) this] show ?thesis using assms(4) by auto
    next
      case live: True
      show ?thesis
      proof (cases "lh_sending h")
        case (Some w)
        from lh_step.sent [OF live this assms(4) _ refl] show ?thesis using Nil ok assms(2,4) by (auto simp: channel_ok_def)
      next
        case None
        with sim live have "locator_run (locator_state_new opts) events = (Racing, lh_core h)" by (simp add: simulates_def)
        with locator_run_inv [of opts events] have "can_discover (lh_core h) \<or> has_inflight (lh_core h)"
          by (simp add: locator_inv_def)
        then show ?thesis
        proof
          assume "can_discover (lh_core h)"
          from lh_step.next_none [OF live None this] show ?thesis using assms(4) by auto
        next
          assume "has_inflight (lh_core h)"
          then have "hd (ls_inflight (lh_core h)) \<in> set (ls_inflight (lh_core h))" by (simp add: has_inflight_def)
          from lh_step.attempt_done [OF live None this, of undefined] show ?thesis using assms(4) by auto
        qed
      qed
    qed
  qed
qed

section \<open>Witnesses\<close>

text \<open>One attempt at a time: a peer is found, its attempt gives channel 7, the stream ends, the owner reads
  the channel and the end.\<close>

lemma wk_reachable: "\<exists>h :: nat locator_handle. lh_reachable wl_opts h \<and> lh_ended h \<and> lh_task h = Done Exhausted \<and>
   lh_received h = [Inr 7] \<and> \<not> lh_dropped h"
proof -
  define h0 where "h0 = (locator_handle_new wl_opts :: nat locator_handle)"
  define h1 where "h1 = h0\<lparr>lh_core := push_attempt (lh_core h0) (wg_peer 2 100),
    lh_task := settle (push_attempt (lh_core h0) (wg_peer 2 100))\<rparr>"
  define h2 where "h2 = h1\<lparr>lh_core := (lh_core h1)\<lparr>ls_inflight := remove1 [2] (ls_inflight (lh_core h1))\<rparr>,
    lh_sending := Some (SendAttempt [2] (Some (Inr 7)))\<rparr>"
  define h3 where "h3 = h2\<lparr>lh_core := record_sent (lh_core h2) (Inr 7), lh_sending := None, lh_queue := lh_queue h2 @ [Inr 7],
    lh_task := settle (record_sent (lh_core h2) (Inr 7))\<rparr>"
  define h4 where "h4 = h3\<lparr>lh_core := (lh_core h3)\<lparr>ls_stream_exhausted := True\<rparr>,
    lh_task := settle ((lh_core h3)\<lparr>ls_stream_exhausted := True\<rparr>)\<rparr>"
  define h5 where "h5 = h4\<lparr>lh_queue := [], lh_received := lh_received h4 @ [Inr 7]\<rparr>"
  note defs = h0_def h1_def h2_def h3_def h4_def h5_def locator_handle_new_def locator_state_new_def wl_opts_def settle_def
    loop_head_def can_discover_def has_inflight_def push_attempt_def record_sent_def wg_peer_def locator_config_default_def
    sent_value_def attempt_result_def Let_def
  have "lh_reachable wl_opts h0" unfolding h0_def by (rule lh_init)
  then have "lh_reachable wl_opts h1" by (rule lh_more) (unfold h1_def, rule next_peer, simp_all add: defs)
  then have "lh_reachable wl_opts h2" by (rule lh_more) (unfold h2_def, rule attempt_done, simp_all add: defs)
  then have "lh_reachable wl_opts h3"
    by (rule lh_more) (unfold h3_def, rule sent [where w = "SendAttempt [2] (Some (Inr 7))"], simp_all add: defs)
  then have "lh_reachable wl_opts h4" by (rule lh_more) (unfold h4_def, rule next_none, simp_all add: defs)
  then have "lh_reachable wl_opts h5" by (rule lh_more) (rule polled [where answer = "Ready (Some (Inr 7))"], simp_all add: defs locator_poll_next_def)
  then have "lh_reachable wl_opts (h5\<lparr>lh_ended := True\<rparr>)" by (rule lh_more) (rule polled [where answer = "Ready None"], simp_all add: defs locator_poll_next_def)
  then show ?thesis by (intro exI [of _ "h5\<lparr>lh_ended := True\<rparr>"]) (simp add: defs)
qed

theorem locator_handle_refines_loop_witness:
  "\<exists>events s. locator_run (locator_state_new wl_opts) events = (Exhausted, s) \<and> ls_sent s = [Inr (7 :: nat)]"
proof -
  obtain h :: "nat locator_handle" where h: "lh_reachable wl_opts h" "lh_ended h" "lh_task h = Done Exhausted"
      "lh_received h = [Inr 7]" using wk_reachable by blast
  from locator_handle_refines_loop [OF h(1)] obtain events status s where
    run: "locator_run (locator_state_new wl_opts) events = (status, s)"
    and all: "lh_ended h \<and> lh_task h = Done Exhausted \<longrightarrow> status = Exhausted \<and> lh_received h = ls_sent s" by blast
  from all h(2-4) have "status = Exhausted" "ls_sent s = [Inr 7]" by simp_all
  with run show ?thesis by blast
qed

end
