(* ===== verification/Service_Path.thy ===== *)
theory Service_Path
  imports Locator
begin

text \<open>
  The way of a service from the node that publishes it to the client that tries it: the publisher writes
  a shard (\<^verbatim>\<open>src/swarm/dht/publisher.rs\<close>), the burst of a DHT feed reads it back (\<^verbatim>\<open>src/swarm/peers.rs\<close>,
  \<^verbatim>\<open>src/swarm/dht/resolver.rs\<close>), the engine of a registry yields the peer (\<^verbatim>\<open>src/swarm/registry.rs\<close>,
  \<^verbatim>\<open>src/swarm/engine.rs\<close>) and the locator tries it (\<^verbatim>\<open>src/swarm/locator.rs\<close>). The theory defines no code: it
  composes the definitions of these components.
\<close>

section \<open>What the client's surroundings do\<close>

text \<open>A sweep at second \<open>t\<close> asks the resolver about every shard; \<open>buffer_unordered\<close> gives the answers in
  some order.\<close>

definition sweep_of :: "dht_resolver \<Rightarrow> u64 \<Rightarrow> dht_sweep \<Rightarrow> bool" where
  "sweep_of re t sw \<longleftrightarrow> sw_clock sw = Some t \<and> rs_clock re = Inr t \<and> sw_query sw = query_shard re \<and>
     set (sw_order sw) = {shard. shard < DHT_SHARD_COUNT}"

text \<open>The resolver has the publisher's libraries, and the network gives it the item for the item's key and
  salt, among any others.\<close>

definition dht_serves :: "publish_env \<Rightarrow> mutable_item \<Rightarrow> dht_resolver \<Rightarrow> bool" where
  "dht_serves e item re \<longleftrightarrow> rs_crypto re = pe_crypto e \<and> rs_postcard re = pe_postcard e \<and> rs_sha re = pe_sha e \<and>
     item \<in> set (rs_get re (rs_verifying_key re (mi_key item)) (mi_salt item))"

section \<open>The feed\<close>

lemma dht_queries_all:
  "dht_queries cr required trust (map Inr adss) =
     (concat (map (\<lambda>ads. concat (map (dht_ad_items cr required trust) ads)) adss), Going)"
  by (induction adss) simp_all

text \<open>A sweep never ends the stream, and yields what every shard holds.\<close>

lemma sweep_of_items:
  assumes "sweep_of re t sw"
  obtains items where "sweep_items cr alpn required trust offset sw = (items, Going)"
    and "\<And>shard ads a. query_shard re alpn (apply_minute_offset (t div 60) offset) shard = Inr ads \<Longrightarrow>
      shard < DHT_SHARD_COUNT \<Longrightarrow> a \<in> set ads \<Longrightarrow> set (dht_ad_items cr required trust a) \<subseteq> set items"
proof -
  let ?q = "\<lambda>shard. projr (query_shard re alpn (apply_minute_offset (t div 60) offset) shard)"
  have "map (query_shard re alpn (apply_minute_offset (t div 60) offset)) (sw_order sw) = map Inr (map ?q (sw_order sw))"
    by (simp add: query_shard_def Let_def)
  with assms have "sweep_items cr alpn required trust offset sw =
      (concat (map (\<lambda>ads. concat (map (dht_ad_items cr required trust) ads)) (map ?q (sw_order sw))), Going)"
    by (simp add: sweep_items_def sweep_of_def unix_minute_def dht_queries_all del: map_map)
  then show ?thesis
  proof (rule that)
    fix shard ads a
    assume "query_shard re alpn (apply_minute_offset (t div 60) offset) shard = Inr ads" "shard < DHT_SHARD_COUNT"
      "a \<in> set ads"
    moreover from this assms have "shard \<in> set (sw_order sw)" by (simp add: sweep_of_def)
    ultimately show "set (dht_ad_items cr required trust a) \<subseteq>
        set (concat (map (\<lambda>ads. concat (map (dht_ad_items cr required trust) ads)) (map ?q (sw_order sw))))"
      by (force intro: bexI [of _ shard])
  qed
qed

text \<open>The burst asks for the minute of its first clock and for the minute before that of its second.\<close>

lemma burst_yields:
  assumes "sweep_of re t (fst (de_burst de))" and "sweep_of re' t' (snd (de_burst de))" and "shard < DHT_SHARD_COUNT"
    and "query_shard re alpn (t div 60) shard = Inr ads \<or>
      query_shard re' alpn (apply_minute_offset (t' div 60) (- 1)) shard = Inr ads"
    and "a \<in> set ads"
  shows "set (dht_ad_items cr required trust a) \<subseteq> set (dht_stream cr de alpn required trust)"
proof -
  obtain items0 where i0: "sweep_items cr alpn required trust 0 (fst (de_burst de)) = (items0, Going)"
    "\<And>shard ads a. query_shard re alpn (apply_minute_offset (t div 60) 0) shard = Inr ads \<Longrightarrow>
      shard < DHT_SHARD_COUNT \<Longrightarrow> a \<in> set ads \<Longrightarrow> set (dht_ad_items cr required trust a) \<subseteq> set items0"
    using sweep_of_items [OF assms(1)] by metis
  obtain items1 where i1: "sweep_items cr alpn required trust (- 1) (snd (de_burst de)) = (items1, Going)"
    "\<And>shard ads a. query_shard re' alpn (apply_minute_offset (t' div 60) (- 1)) shard = Inr ads \<Longrightarrow>
      shard < DHT_SHARD_COUNT \<Longrightarrow> a \<in> set ads \<Longrightarrow> set (dht_ad_items cr required trust a) \<subseteq> set items1"
    using sweep_of_items [OF assms(2)] by metis
  have "apply_minute_offset (t div 60) 0 = t div 60"
    using unsigned_less [of "t div 60", where 'a = nat]
    by (simp add: apply_minute_offset_def unsigned_abs_def word_unat_eq_iff unat_saturating_add)
  with assms(3-5) i0(2) i1(2) have "set (dht_ad_items cr required trust a) \<subseteq> set items0 \<union> set items1"
    by (metis le_supI1 le_supI2)
  then show ?thesis using i0(1) i1(1) by (auto simp: dht_stream_def)
qed

section \<open>The clocks\<close>

lemma unat_next:
  fixes m :: u64
  assumes "unat m < 2 ^ 64 - 1"
  shows "unat (m + 1) = Suc (unat m)"
  using assms unat_add_lem [of m 1] by simp

lemma previous_minute:
  fixes m :: u64
  assumes "t div 60 = m + 1" and "unat m < 2 ^ 64 - 1"
  shows "apply_minute_offset (t div 60) (- 1) = m"
  using assms unat_next [OF assms(2)]
  by (simp add: apply_minute_offset_def unsigned_abs_def word_unat_eq_iff unat_saturating_sub)

text \<open>An advertisement lives for two minutes: it is alive in the rest of its own minute and in the next.\<close>

lemma alive_in_window:
  fixes t now :: u64
  assumes "unat now + 120 < 2 ^ 64" and "t div 60 = now div 60 \<or> t div 60 = now div 60 + 1"
  shows "t < saturating_add now DHT_AD_TTL_SECS" and "unat now \<le> unat t + 300"
proof -
  have "unat (now div 60) < 2 ^ 64 - 1" using assms(1) by (simp add: unat_div)
  from unat_next [OF this] have "unat (now div 60 + 1) = Suc (unat now div 60)" by (simp add: unat_div)
  moreover have "unat t div 60 = unat (t div 60)" by (simp add: unat_div)
  moreover have "unat (now div 60) = unat now div 60" by (simp add: unat_div)
  ultimately have "unat t div 60 = unat now div 60 \<or> unat t div 60 = Suc (unat now div 60)" using assms(2) by auto
  then have "unat t < unat now + 120" "unat now \<le> unat t + 300" by linarith+
  with assms(1) show "t < saturating_add now DHT_AD_TTL_SECS" "unat now \<le> unat t + 300"
    by (simp_all add: word_less_nat_alt unat_saturating_add DHT_AD_TTL_SECS_def)
qed

section \<open>From the shard to the feed\<close>

text \<open>A publication that succeeded has written; the last write is the one the network took.\<close>

lemma published_wrote:
  assumes "publish_shard e sk alpn shard tags = (puts, Returned (Inr ()))"
  shows "puts \<noteq> []"
proof
  assume "puts = []"
  with assms obtain minute now local_ad where
    "publish_attempts e alpn minute shard now local_ad [0 ..< DHT_PUBLISH_RETRIES] = ([], Returned (Inr ()))"
    by (auto simp: publish_shard_def Let_def split: sum.splits)
  with publish_attempts_retried [of e 0 alpn minute shard now local_ad DHT_PUBLISH_RETRIES] show False
    by (simp add: retried_none)
qed

lemma published_in_feed:
  assumes codec: "bucket_codec_total (pe_postcard e)" "bucket_codec_round_trip (pe_postcard e)"
    and key: "sign_correct (pe_crypto e) sk"
    and done_: "publish_shard e sk alpn shard tags = (puts, Returned (Inr ()))"
    and shard: "shard \<in> set (replica_shards (pe_sha e) (key_public (pe_crypto e) sk) alpn)"
    and clock: "pe_clock e = Inr now" "unat now + 120 < 2 ^ 64"
    and own: "\<forall>n. \<forall>a \<in> set (fst (read_shard_state e n alpn (now div 60) shard now)).
      node_id a = key_public (pe_crypto e) sk \<longrightarrow> published_at a < now"
    and burst: "sweep_of re t (fst (de_burst de))" "sweep_of re' t' (snd (de_burst de))"
    and dht: "dht_serves e (fst (last puts)) re" "dht_serves e (fst (last puts)) re'"
    and window: "t div 60 = now div 60 \<or> t' div 60 = now div 60 + 1"
  shows "Inr \<lparr>dp_id = key_public (pe_crypto e) sk, dp_trust = trust\<rparr> \<in> set (dht_stream (pe_crypto e) de alpn [] trust)"
proof -
  let ?id = "key_public (pe_crypto e) sk" and ?m = "now div 60"
  obtain item cas where last_put: "last puts = (item, cas)" by (cases "last puts")
  with last_in_set [OF published_wrote [OF done_]] done_
  have put: "(item, cas) \<in> set (fst (publish_shard e sk alpn shard tags))" by simp
  have found: "\<exists>ads a. query_shard re alpn ?m shard = Inr ads \<and> a \<in> set ads \<and> node_id a = ?id"
    if t: "t div 60 = ?m \<or> t div 60 = ?m + 1" and "dht_serves e item re" "rs_clock re = Inr t" for t re
    using published_resolved [OF codec key put clock(1) alive_in_window [OF clock(2) t], of re] own that
    by (fastforce simp: dht_serves_def)
  have "unat ?m < 2 ^ 64 - 1" using clock(2) by (simp add: unat_div)
  note prev = previous_minute [OF _ this]
  have "\<exists>ads a. (query_shard re alpn (t div 60) shard = Inr ads \<or>
      query_shard re' alpn (apply_minute_offset (t' div 60) (- 1)) shard = Inr ads) \<and> a \<in> set ads \<and> node_id a = ?id"
    using window
  proof
    assume "t div 60 = ?m"
    with found [of t re] dht(1) burst(1) last_put show ?thesis by (auto simp: sweep_of_def)
  next
    assume "t' div 60 = ?m + 1"
    with found [of t' re'] prev [of t'] dht(2) burst(2) last_put show ?thesis by (auto simp: sweep_of_def)
  qed
  then obtain ads a where a: "query_shard re alpn (t div 60) shard = Inr ads \<or>
      query_shard re' alpn (apply_minute_offset (t' div 60) (- 1)) shard = Inr ads" "a \<in> set ads" "node_id a = ?id" by blast
  have "shard < DHT_SHARD_COUNT" using shard by (simp add: replica_shards_def replica_shards_mem)
  from burst_yields [OF burst this a(1,2)]
  have items: "set (dht_ad_items (pe_crypto e) [] trust a) \<subseteq> set (dht_stream (pe_crypto e) de alpn [] trust)" .
  have "ad_endpoint_id (pe_crypto e) a = Some ?id" using a(3) key by (simp add: ad_endpoint_id_def node_id_def sign_correct_def)
  then show ?thesis using items by (simp add: dht_ad_items_def)
qed

section \<open>From the feed to a channel\<close>

text \<open>The pool opens a stream to the peer in time and the handshake over it succeeds.\<close>

definition reachable :: "(endpoint_id \<Rightarrow> (open_env \<times> (conn_ref \<Rightarrow> error + 'c)) option) \<Rightarrow> endpoint_id \<Rightarrow> bool" where
  "reachable dial i \<longleftrightarrow> (\<exists>env handshake conn c. dial i = Some (env, handshake) \<and> fst (open_stream env) = Inr conn \<and>
     handshake conn = Inr c)"

lemma reachable_attempt: "reachable dial i \<Longrightarrow> \<exists>c. pool_attempt dial i = Some (Inr c)"
  by (auto simp: reachable_def pool_attempt_def pool_channel_def)

text \<open>A peer that the feed of one of a registry's backends has yielded, and that can be reached, makes \<open>first\<close>
  succeed once the locator has nothing more to do; until then it goes on. The streams stay open.\<close>

lemma found_is_reached:
  fixes registry script
  defines "peers \<equiv> engine_run (rg_local_id registry) {} script"
  assumes merge: "select_all_merges script (en_inner (discover registry service))"
    and feed: "backend \<in> set (rg_backends registry)" "f \<in> set (backend (service_to_alpn service))"
      "scope_matches (fs_scope f) (service_to_alpn service)" "Inr d \<in> set (fs_stream f)"
    and client: "dp_id d \<noteq> rg_local_id registry" "0 < lc_max_inflight opts" "reachable dial (dp_id d)"
    and run: "drive_open (locator_start opts) peers events = Some ((status, s), rest)"
      "answered_by (pool_attempt dial) events"
  shows "length events \<le> 2 * length peers \<and>
    (if caught_up s rest
     then dp_id d \<in> set (ls_attempted s) \<and>
       (\<exists>i c. i \<in> set (ls_attempted s) \<and> pool_attempt dial i = Some (Inr c) \<and> locator_first (ls_sent s) = Inr c)
     else \<exists>e. drive_open (locator_start opts) peers (events @ [e]) \<noteq> None \<and>
       answered_by (pool_attempt dial) (events @ [e]))"
proof -
  let ?alpn = "service_to_alpn service"
  have "dp_id d \<in> set (ls_attempted s) \<and>
      (\<exists>i c. i \<in> set (ls_attempted s) \<and> pool_attempt dial i = Some (Inr c) \<and> locator_first (ls_sent s) = Inr c)"
    if up: "caught_up s rest"
  proof -
    have "f \<in> set (build_feeds registry ?alpn)" using feed(1,2) by (auto simp: build_feeds_def)
    with engine_in_scope [OF merge [unfolded discover_def Let_def]] feed(3,4) client(1)
    have "dp_id d \<in> peer_id ` set (oks peers)" by (auto simp: peers_def)
    then obtain p where p: "Inr p \<in> set peers" "peer_id p = dp_id d" by (auto simp: oks_mem)
    from reachable_attempt [OF client(3)] p(2) obtain c where "pool_attempt dial (peer_id p) = Some (Inr c)" by auto
    from first_reaches [OF client(2) run up p(1) this] obtain q c' where
      q: "Inr q \<in> set peers" "pool_attempt dial (peer_id q) = Some (Inr c')" "locator_first (ls_sent s) = Inr c'" by blast
    have "ls_attempted s = map peer_id (oks peers)" by (rule open_run(4) [OF client(2) run(1) up])
    with p q have "dp_id d \<in> set (ls_attempted s)" "peer_id q \<in> set (ls_attempted s)" by (force simp: oks_mem)+
    with q(2,3) show ?thesis by blast
  qed
  with open_run(3) [OF client(2) run(1)] open_run_continues [OF client(2) run] show ?thesis by simp
qed

section \<open>Properties\<close>

text \<open>(C6) A published service is found and reached. A node has published a service into one of its shards, in
  which it found no advertisement of its own as new; a client asks a registry with a DHT backend, one that
  requires no tags, for it in the same minute or in the next, and its DHT gives it what was written. Its feeds stay open. As long as the receiver is there and no overall timeout fires, the locator
  makes at most two rounds for every item the feeds have yielded, always has something to do before it has
  caught up with them, and when it has caught up it has tried that node, and \<open>first\<close>, which returns the first
  channel to arrive, has one to a peer that was found, given that the pool can open a stream to the node:
  whatever else is stored in the shards and whatever else the registry finds, and in whatever order queries,
  streams and attempts become ready.\<close>

theorem published_service_is_reached:
  fixes e sk service backend registry de script
  defines "alpn \<equiv> service_to_alpn service" and "publisher_id \<equiv> key_public (pe_crypto e) sk"
    and "peers \<equiv> engine_run (rg_local_id registry) {} script"
  assumes codec: "bucket_codec_total (pe_postcard e)" "bucket_codec_round_trip (pe_postcard e)"
    and key: "sign_correct (pe_crypto e) sk"
    and published: "publish_shard e sk alpn shard tags = (puts, Returned (Inr ()))"
      "shard \<in> set (replica_shards (pe_sha e) publisher_id alpn)"
    and clock: "pe_clock e = Inr now" "unat now + 120 < 2 ^ 64"
    and own: "\<forall>n. \<forall>a \<in> set (fst (read_shard_state e n alpn (now div 60) shard now)).
      node_id a = publisher_id \<longrightarrow> published_at a < now"
    and burst: "sweep_of re t (fst (de_burst de))" "sweep_of re' t' (snd (de_burst de))"
    and dht: "dht_serves e (fst (last puts)) re" "dht_serves e (fst (last puts)) re'"
    and window: "t div 60 = now div 60 \<or> t' div 60 = now div 60 + 1"
    and client: "dht_backend_feeds (pe_crypto e) de backend \<in> set (rg_backends registry)"
      "publisher_id \<noteq> rg_local_id registry" "db_required_tags backend = []" "0 < lc_max_inflight opts"
      "reachable dial publisher_id"
    and merge: "select_all_merges script (en_inner (discover registry service))"
    and run: "drive_open (locator_start opts) peers events = Some ((status, s), rest)"
      "answered_by (pool_attempt dial) events"
  shows "length events \<le> 2 * length peers \<and>
    (if caught_up s rest
     then publisher_id \<in> set (ls_attempted s) \<and>
       (\<exists>i c. i \<in> set (ls_attempted s) \<and> pool_attempt dial i = Some (Inr c) \<and> locator_first (ls_sent s) = Inr c)
     else \<exists>e. drive_open (locator_start opts) peers (events @ [e]) \<noteq> None \<and>
       answered_by (pool_attempt dial) (events @ [e]))"
proof -
  let ?d = "\<lparr>dp_id = publisher_id, dp_trust = db_trust backend\<rparr>"
  let ?f = "dht_feed (pe_crypto e) de alpn (db_required_tags backend) (db_priority backend) (db_trust backend)"
  have "Inr ?d \<in> set (dht_stream (pe_crypto e) de alpn [] (db_trust backend))"
    using published_in_feed [OF codec key published(1) _ clock _ burst dht window] published(2) own
    unfolding publisher_id_def by blast
  then have "?f \<in> set (dht_backend_feeds (pe_crypto e) de backend alpn)" "scope_matches (fs_scope ?f) alpn"
      "Inr ?d \<in> set (fs_stream ?f)"
    by (simp_all add: dht_backend_feeds_def dht_feed_def scope_matches_def client(3))
  note feed = this [unfolded alpn_def]
  have "dp_id ?d \<noteq> rg_local_id registry" "reachable dial (dp_id ?d)" using client(2,5) by simp_all
  from found_is_reached [OF merge client(1) feed this(1) client(4) this(2) run [unfolded peers_def]]
  show ?thesis unfolding peers_def discovered_peer.select_convs .
qed

section \<open>Witnesses\<close>

text \<open>Node \<open>[7]\<close> publishes the service \<open>A\<close> into shard 0 at second 0; node \<open>[1]\<close> looks for it in the same second
  and tries it.\<close>

definition wp_alpn :: bytes where
  "wp_alpn = service_to_alpn ''A''"

definition wp_sweep :: dht_sweep where
  "wp_sweep = \<lparr>sw_clock = Some 0, sw_query = query_shard (ws_resolver_at wp_alpn 0),
     sw_order = map word_of_nat [0 ..< 16]\<rparr>"

definition wp_env :: dht_env where
  "wp_env = \<lparr>de_burst = (wp_sweep, wp_sweep), de_ticks = []\<rparr>"

definition wp_peers :: "peer items" where
  "wp_peers = concat (map tagged_items (en_inner (discover (add_backend (registry_new [1])
     (dht_backend_feeds ref_crypto wp_env dht_backend_with_dht)) ''A'')))"

definition wp_script :: script where
  "wp_script = map (\<lambda>x. Ready (Some x)) wp_peers"

lemma append_less_same: "ps @ xs < ps @ ys \<longleftrightarrow> xs < (ys :: bytes)"
  by (induction ps) simp_all

lemma wp_shard: "(0 :: u8) \<in> set (replica_shards id [7] wp_alpn)"
proof -
  have "{y \<in> all_ranks id [7] wp_alpn 16. y < shard_rank id [7] wp_alpn 0} = {}"
    by (auto simp: all_ranks_def shard_rank_def append_less_same)
  note none = arg_cong [OF this, of card]
  show ?thesis by (simp add: replica_shards_def replica_shards_mem DHT_SHARD_COUNT_def DHT_REPLICA_COUNT_def none [simplified])
qed

lemma wp_sweep_of: "sweep_of (ws_resolver_at wp_alpn 0) 0 wp_sweep"
proof -
  have "set (map word_of_nat [0 ..< 16]) = {shard :: u8. shard < 16}"
    by (auto simp: word_less_nat_alt unat_of_nat intro!: image_eqI [of _ _ "unat _"])
  then show ?thesis by (simp add: sweep_of_def wp_sweep_def ws_resolver_at_def DHT_SHARD_COUNT_def)
qed

text \<open>Every peer answers at the first try with channel 9.\<close>

definition wp_dial :: "endpoint_id \<Rightarrow> (open_env \<times> (conn_ref \<Rightarrow> error + nat)) option" where
  "wp_dial i = Some (\<lparr>oe_get = (\<lambda>_. Inr \<lparr>cr_id = i, cr_generation = 1\<rparr>), oe_open_bi = (\<lambda>_. None), oe_tx = (\<lambda>_. Inr 0)\<rparr>,
     \<lambda>_. Inr 9)"

lemma wp_reachable: "reachable wp_dial i"
  by (simp add: reachable_def wp_dial_def open_stream_def OPEN_STREAM_RETRIES_def upt_rec)

lemma open_start_catches_up:
  fixes reach :: "endpoint_id \<Rightarrow> (error + 'c) option"
  shows "\<exists>es s. drive_open (locator_start wl_opts) stream es = Some ((Racing, s), []) \<and> caught_up s [] \<and> answered_by reach es"
proof -
  obtain status and s :: "'c locator_state" where "locator_start wl_opts = (status, s)" by fastforce
  then have "drive_open (locator_start wl_opts) stream [] = Some ((status, s), stream)" by (simp add: drive_open_def)
  from open_run_catches_up [OF _ this] show ?thesis by (simp add: wl_opts_def answered_by_def)
qed

theorem published_service_is_reached_witness:
  "\<exists>events s. drive_open (locator_start wl_opts) (engine_run [1] {} wp_script) events =
      Some ((Racing, s :: nat locator_state), []) \<and> caught_up s [] \<and> [7] \<in> set (ls_attempted s) \<and>
      locator_first (ls_sent s) = Inr 9"
proof -
  let ?e = "ws_env True []" and ?re = "ws_resolver_at wp_alpn 0"
  let ?r = "add_backend (registry_new [1]) (dht_backend_feeds ref_crypto wp_env dht_backend_with_dht)"
  obtain events and s :: "nat locator_state" where
    run: "drive_open (locator_start wl_opts) (engine_run [1] {} wp_script) events = Some ((Racing, s), [])" "caught_up s []"
      "answered_by (pool_attempt wp_dial) events"
    using open_start_catches_up by blast
  have pub: "publish_shard ?e [7] (service_to_alpn ''A'') 0 [] = ([(ws_item_at wp_alpn 0, None)], Returned (Inr ()))"
    unfolding wp_alpn_def by (rule ws_publish_at) (simp add: service_to_alpn_def into_bytes_def)
  have "dht_serves ?e (ws_item_at wp_alpn 0) ?re"
    by (simp add: dht_serves_def ws_env_def ws_resolver_at_def)
  moreover have "select_all_merges wp_script (en_inner (discover ?r ''A''))"
    by (simp add: select_all_merges_def wp_script_def wp_peers_def script_items_def List.map_filter_def comp_def)
  moreover have fields: "pe_crypto ?e = ref_crypto" "pe_postcard ?e = ref_postcard" "pe_sha ?e = id" "pe_clock ?e = Inr 0"
      "key_public ref_crypto [7] = [7]" "0 < lc_max_inflight wl_opts" "rg_local_id ?r = [1]"
      "dht_backend_feeds ref_crypto wp_env dht_backend_with_dht \<in> set (rg_backends ?r)"
    by (simp_all add: ws_env_def ref_crypto_def wl_opts_def add_backend_def registry_new_def)
  ultimately have "length events \<le> 2 * length (engine_run (rg_local_id ?r) {} wp_script) \<and>
    (if caught_up s []
     then key_public (pe_crypto ?e) [7] \<in> set (ls_attempted s) \<and>
      (\<exists>i c. i \<in> set (ls_attempted s) \<and> pool_attempt wp_dial i = Some (Inr c) \<and> locator_first (ls_sent s) = Inr c)
     else \<exists>ev. drive_open (locator_start wl_opts) (engine_run (rg_local_id ?r) {} wp_script) (events @ [ev]) \<noteq> None \<and>
       answered_by (pool_attempt wp_dial) (events @ [ev]))"
    using run(1,3) pub wp_shard wp_sweep_of wp_reachable
    by (intro published_service_is_reached [where re = ?re and re' = ?re and t = 0 and t' = 0 and now = 0 and de = wp_env
          and e = ?e and shard = 0 and service = "''A''" and opts = wl_opts and script = wp_script and registry = ?r
          and backend = dht_backend_with_dht and events = events and rest = "[]" and dial = wp_dial and status = Racing
          and puts = "[(ws_item_at wp_alpn 0, None)]"])
       (simp_all add: fields ref_codec_total ref_codec_round_trip ref_sign_correct ws_read wp_env_def
          dht_backend_with_dht_def wp_alpn_def)
  moreover have "c = 9" if "pool_attempt wp_dial i = Some (Inr c)" for i c
    using that by (simp add: pool_attempt_def wp_dial_def pool_channel_def open_stream_def OPEN_STREAM_RETRIES_def upt_rec)
  ultimately show ?thesis using run(1,2) by (auto simp: fields)
qed

end
