(* ===== verification/Service_Upkeep.thy ===== *)
theory Service_Upkeep
  imports Service_Path
begin

text \<open>
  How long a service stays discoverable: the rounds of the publisher's loop (\<^verbatim>\<open>src/swarm/dht/publisher.rs\<close>,
  \<open>DhtPublisher::run\<close>) against the minutes a DHT feed asks for (\<^verbatim>\<open>src/swarm/peers.rs\<close>). A bucket belongs to one
  minute, the burst of a feed reads two, an advertisement lives for two, and the default interval is
  half a minute.
\<close>

section \<open>Rounds of the publisher\<close>

text \<open>A service reported as published in a round was published by one of its jobs, into one of its shards.\<close>

lemma run_jobs_published:
  assumes "run_jobs env sk tags m jobs = Returned published" and "(alpn, shard) \<in> set published"
  shows "(alpn, shard) \<in> set jobs \<and> (\<exists>j. snd (publish_shard (env j) sk alpn shard tags) = Returned (Inr ()))"
  using assms
proof (induction env sk tags m jobs arbitrary: published rule: run_jobs.induct)
  case (2 env sk tags m alpn' shard' jobs)
  from 2(2) obtain result later where r: "snd (publish_shard (env m) sk alpn' shard' tags) = Returned result"
      "run_jobs env sk tags (Suc m) jobs = Returned later"
      "published = (if result = Inr () then (alpn', shard') # later else later)"
    by (auto split: outcome.splits)
  show ?case
  proof (cases "(alpn, shard) \<in> set later")
    case True
    with 2(1) [OF r(1,2)] show ?thesis by auto
  next
    case False
    with r 2(3) have "alpn' = alpn" "shard' = shard" "result = Inr ()" by (auto split: if_splits)
    with r(1) show ?thesis by auto
  qed
qed simp

lemma publish_all_published:
  assumes "publish_all env sk services tags = Returned published" and "(alpn, shard) \<in> set published"
  shows "alpn \<in> set services \<and> shard \<in> set (replica_shards (pe_sha (env 0)) (key_public (pe_crypto (env 0)) sk) alpn) \<and>
    (\<exists>j puts. publish_shard (env j) sk alpn shard tags = (puts, Returned (Inr ())))"
proof -
  from run_jobs_published [OF assms(1) [unfolded publish_all_def Let_def] assms(2)] obtain j where
    job: "(alpn, shard) \<in> set (publish_jobs (pe_sha (env 0)) (key_public (pe_crypto (env 0)) sk) services)"
    and res: "snd (publish_shard (env j) sk alpn shard tags) = Returned (Inr ())" by blast
  from res have "\<exists>puts. publish_shard (env j) sk alpn shard tags = (puts, Returned (Inr ()))" by (metis prod.collapse)
  with job show ?thesis by (auto simp: publish_jobs_def)
qed

text \<open>The loop makes one round per tick, with the surroundings of that round, until it is told to stop.\<close>

lemma publisher_loop_rounds:
  "k < length (publisher_loop publish m events) \<Longrightarrow> publisher_loop publish m events ! k = publish (m + k)"
  by (induction publish m events arbitrary: k rule: publisher_loop.induct)
     (auto simp: nth_Cons split: outcome.splits nat.splits)

lemma publisher_run_rounds:
  assumes "k < length (publisher_run env p events)" and "publisher_run env p events ! k = Returned published"
  shows "publish_all (env k) (pub_secret_key p) (pub_services p) (cfg_tags (pub_config p)) = Returned published"
  using assms publisher_loop_rounds [of "k - 1" "\<lambda>n. publish_all (env n) (pub_secret_key p) (pub_services p) (cfg_tags (pub_config p))" 1 events]
  by (auto simp: publisher_run_def Let_def nth_Cons tokio_interval_def split: outcome.splits nat.splits if_splits)

section \<open>The latest round\<close>

definition latest_at :: "(nat \<Rightarrow> u64) \<Rightarrow> nat \<Rightarrow> u64 \<Rightarrow> nat \<Rightarrow> bool" where
  "latest_at now n t k \<longleftrightarrow> k \<le> n \<and> now k \<le> t \<and> (k < n \<longrightarrow> t < now (Suc k))"

lemma latest_at_exists: "now 0 \<le> t \<Longrightarrow> \<exists>k. latest_at now n t k"
proof (induction n)
  case 0
  then show ?case by (auto simp: latest_at_def)
next
  case (Suc n)
  then obtain k where k: "latest_at now n t k" by blast
  show ?case
  proof (cases "now (Suc n) \<le> t")
    case True
    then show ?thesis by (intro exI [of _ "Suc n"]) (simp add: latest_at_def)
  next
    case False
    with k show ?thesis by (intro exI [of _ k]) (auto simp: latest_at_def not_le less_Suc_eq)
  qed
qed

text \<open>A minute has sixty seconds: sixty seconds after a round it is at most the next minute.\<close>

lemma within_a_minute:
  fixes now t :: u64
  assumes "now \<le> t" and "unat t \<le> unat now + 60"
  shows "t div 60 = now div 60 \<or> t div 60 = now div 60 + 1"
proof -
  have bound: "unat (now div 60) < 2 ^ 64 - 1"
    using unsigned_less [of now, where 'a = nat] by (simp add: unat_div)
  have "unat now \<le> unat t" using assms(1) by (simp add: word_le_nat_alt)
  with assms(2) have "unat t div 60 = unat now div 60 \<or> unat t div 60 = Suc (unat now div 60)" by linarith
  then have "unat (t div 60) = unat (now div 60) \<or> unat (t div 60) = unat (now div 60 + 1)"
    using unat_next [OF bound] by (simp add: unat_div)
  then show ?thesis by (simp add: word_unat_eq_iff)
qed

section \<open>Properties\<close>

text \<open>(C7) A running publisher stays discoverable: when its rounds, each of which got the service into one of
  its shards, are at most a minute apart, a client that asks at any second from the first round to a
  minute after the last finds the node, given that the network serves the latest write.\<close>

theorem publisher_stays_discoverable:
  fixes e :: "nat \<Rightarrow> publish_env" and cr sk
  defines "publisher_id \<equiv> key_public cr sk"
  assumes libs: "\<forall>k. pe_crypto (e k) = cr \<and> pe_postcard (e k) = pc \<and> pe_sha (e k) = sha"
    and codec: "bucket_codec_total pc" "bucket_codec_round_trip pc" and key: "sign_correct cr sk"
    and rounds: "\<forall>k \<le> n. publish_shard (e k) sk alpn (shard k) tags = (puts k, Returned (Inr ())) \<and>
      shard k \<in> set (replica_shards sha publisher_id alpn) \<and> pe_clock (e k) = Inr (now k)"
    and own: "\<forall>k \<le> n. \<forall>m. \<forall>a \<in> set (fst (read_shard_state (e k) m alpn (now k div 60) (shard k) (now k))).
      node_id a = publisher_id \<longrightarrow> published_at a < now k"
    and gaps: "\<forall>k < n. unat (now (Suc k)) \<le> unat (now k) + 60"
    and client: "now 0 \<le> t" "unat t \<le> unat (now n) + 60" "unat t + 120 < 2 ^ 64"
    and burst: "sweep_of re t (fst (de_burst de))" "sweep_of re t (snd (de_burst de))"
    and dht: "\<forall>k. latest_at now n t k \<longrightarrow> dht_serves (e k) (fst (last (puts k))) re"
  shows "Inr \<lparr>dp_id = publisher_id, dp_trust = trust\<rparr> \<in> set (dht_stream cr de alpn [] trust)"
proof -
  obtain k where k: "latest_at now n t k" using latest_at_exists [of now t n] client(1) by blast
  then have kn: "k \<le> n" "now k \<le> t" by (simp_all add: latest_at_def)
  have "unat t \<le> unat (now k) + 60"
  proof (cases "k < n")
    case True
    with k have "unat t < unat (now (Suc k))" by (simp add: latest_at_def word_less_nat_alt)
    with gaps True show ?thesis by fastforce
  next
    case False
    with kn(1) client(2) show ?thesis by simp
  qed
  then have window: "t div 60 = now k div 60 \<or> t div 60 = now k div 60 + 1" by (rule within_a_minute [OF kn(2)])
  have "unat (now k) + 120 < 2 ^ 64" using kn(2) client(3) by (simp add: word_le_nat_alt)
  moreover have serves: "dht_serves (e k) (fst (last (puts k))) re" using dht k by blast
  moreover have lib: "pe_crypto (e k) = cr" "pe_postcard (e k) = pc" "pe_sha (e k) = sha" using libs by blast+
  moreover have "\<forall>m. \<forall>a \<in> set (fst (read_shard_state (e k) m alpn (now k div 60) (shard k) (now k))).
      node_id a = key_public (pe_crypto (e k)) sk \<longrightarrow> published_at a < now k"
    using own kn(1) unfolding publisher_id_def lib by blast
  ultimately show ?thesis
    using published_in_feed [of "e k" sk alpn "shard k" tags "puts k" "now k" re t de re t trust] codec key rounds kn(1) burst window
    by (simp add: publisher_id_def)
qed

section \<open>Witnesses\<close>

text \<open>Node \<open>[7]\<close> published into shard 0 at second 0; a client asks a minute later.\<close>

definition wq_resolver :: dht_resolver where
  "wq_resolver = (ws_resolver_at wp_alpn 0)\<lparr>rs_clock := Inr 60\<rparr>"

definition wq_sweep :: dht_sweep where
  "wq_sweep = \<lparr>sw_clock = Some 60, sw_query = query_shard wq_resolver, sw_order = map word_of_nat [0 ..< 16]\<rparr>"

theorem publisher_stays_discoverable_witness:
  "Inr \<lparr>dp_id = [7], dp_trust = 50\<rparr> \<in> set (dht_stream ref_crypto \<lparr>de_burst = (wq_sweep, wq_sweep), de_ticks = []\<rparr> wp_alpn [] 50)"
proof -
  let ?e = "\<lambda>_ :: nat. ws_env True []" and ?de = "\<lparr>de_burst = (wq_sweep, wq_sweep), de_ticks = []\<rparr>"
  have fields: "pe_crypto (ws_env True []) = ref_crypto" "pe_postcard (ws_env True []) = ref_postcard" "pe_sha (ws_env True []) = id"
      "pe_clock (ws_env True []) = Inr 0" "key_public ref_crypto [7] = [7]"
    by (simp_all add: ws_env_def ref_crypto_def)
  have pub: "publish_shard (ws_env True []) [7] wp_alpn 0 [] = ([(ws_item_at wp_alpn 0, None)], Returned (Inr ()))"
    by (rule ws_publish_at) (simp add: wp_alpn_def service_to_alpn_def into_bytes_def)
  have sweep: "sweep_of wq_resolver 60 wq_sweep"
    using wp_sweep_of by (simp add: sweep_of_def wp_sweep_def wq_sweep_def wq_resolver_def)
  have "dht_serves (ws_env True []) (ws_item_at wp_alpn 0) wq_resolver"
    by (simp add: dht_serves_def ws_env_def wq_resolver_def ws_resolver_at_def)
  with pub sweep wp_shard have "Inr \<lparr>dp_id = key_public ref_crypto [7], dp_trust = 50\<rparr> \<in> set (dht_stream ref_crypto ?de wp_alpn [] 50)"
    by (intro publisher_stays_discoverable [where e = ?e and n = 0 and now = "\<lambda>_. 0" and shard = "\<lambda>_. 0" and t = 60
          and puts = "\<lambda>_. [(ws_item_at wp_alpn 0, None)]" and re = wq_resolver and tags = "[]" and pc = ref_postcard and sha = id])
       (simp_all add: fields ref_codec_total ref_codec_round_trip ref_sign_correct ws_read)
  then show ?thesis by (simp add: fields)
qed

end
