(* ===== verification/Channel.thy ===== *)
theory Channel
  imports Errors
begin

text \<open>
  \<^verbatim>\<open>src/channel.rs\<close>: the gRPC channel over an HTTP/2 connection. The h2 and http crates are third-party
  code. What the request body yields when it is polled, what h2 answers to the successive calls on
  the send stream, and what the receive stream answers when it is polled, are parameters; a list of
  answers that is used up stands for an operation that stays pending.
\<close>

section \<open>Definitions: request URIs\<close>

record uri_parts =
  up_scheme :: "string option"
  up_authority :: "string option"
  up_path_and_query :: "string option"

text \<open>\<open>from_parts\<close> is \<open>Uri::from_parts\<close>, \<open>authority_try\<close> is \<open>Authority::try_from\<close>.\<close>

definition apply_origin :: "(uri_parts \<Rightarrow> string + uri_parts) \<Rightarrow> (string \<Rightarrow> string option) \<Rightarrow> uri_parts \<Rightarrow> uri_parts
    \<Rightarrow> error + uri_parts" where
  "apply_origin from_parts authority_try uri origin =
     (let parts = uri\<lparr>up_scheme := (case up_scheme origin of Some s \<Rightarrow> Some s | None \<Rightarrow> Some ''http''),
                      up_authority := (case up_authority origin of Some a \<Rightarrow> Some a | None \<Rightarrow> authority_try ''iroh.local'')\<rparr>
      in case from_parts parts of
           Inl e \<Rightarrow> Inl (Connection (''invalid request URI: '' @ e))
         | Inr u \<Rightarrow> Inr u)"

section \<open>Definitions: the request body\<close>

type_synonym trailers = string

datatype frame = DataFrame bytes | TrailersFrame trailers | UnknownFrame

datatype send = SendData bytes bool | SendTrailers trailers | SendReset

datatype capacity = CapacityOk nat | CapacityErr string | CapacityClosed

text \<open>The answers of the send stream to the \<open>n\<close>-th frame handled: the capacity it grants after the
  reservation (or \<open>None\<close> while it grants none), and the error of a send, if any.\<close>

record send_stream =
  st_capacity :: "nat \<Rightarrow> nat \<Rightarrow> capacity option"
  st_send :: "nat \<Rightarrow> send \<Rightarrow> string option"

text \<open>\<open>pump_body\<close>: the frames sent, and its result, \<open>None\<close> while it still waits.\<close>

fun pump_body :: "send_stream \<Rightarrow> nat \<Rightarrow> (string + frame) option list \<Rightarrow> send list \<times> (error + unit) option" where
  "pump_body st n [] = ([], None)"
| "pump_body st n (Some (Inr (DataFrame data)) # rest) =
     (case st_capacity st n (length data) of
        None \<Rightarrow> ([], None)
      | Some (CapacityErr e) \<Rightarrow> ([], Some (Inl (H2 e)))
      | Some CapacityClosed \<Rightarrow> ([], Some (Inl (Connection ''stream closed while reserving capacity'')))
      | Some (CapacityOk _) \<Rightarrow>
          (case st_send st n (SendData data False) of
             Some e \<Rightarrow> ([], Some (Inl (H2 e)))
           | None \<Rightarrow>
               (case pump_body st (Suc n) rest of (sent, res) \<Rightarrow> (SendData data False # sent, res))))"
| "pump_body st n (Some (Inr (TrailersFrame t)) # rest) =
     (case st_send st n (SendTrailers t) of
        Some e \<Rightarrow> ([], Some (Inl (H2 e)))
      | None \<Rightarrow> ([SendTrailers t], Some (Inr ())))"
| "pump_body st n (Some (Inr UnknownFrame) # rest) = pump_body st (Suc n) rest"
| "pump_body st n (Some (Inl e) # rest) = ([], Some (Inl (Connection (''request body error: '' @ e))))"
| "pump_body st n (None # rest) =
     (case st_send st n (SendData [] True) of
        Some e \<Rightarrow> ([], Some (Inl (H2 e)))
      | None \<Rightarrow> ([SendData [] True], Some (Inr ())))"

section \<open>Definitions: a call\<close>

record request =
  rq_uri :: uri_parts
  rq_is_end_stream :: bool
  rq_body :: "(string + frame) option list"

text \<open>What a call sees: the two URI functions, the answer to \<open>send_request\<close>, the send stream, and the
  response, \<open>None\<close> while it does not come.\<close>

record 'r call_env =
  ce_from_parts :: "uri_parts \<Rightarrow> string + uri_parts"
  ce_authority :: "string \<Rightarrow> string option"
  ce_send_request :: "uri_parts \<Rightarrow> bool \<Rightarrow> string option"
  ce_stream :: send_stream
  ce_response :: "(string + 'r) option"

definition await_response :: "(string + 'r) option \<Rightarrow> (error + 'r) option" where
  "await_response response = map_option (map_sum H2 id) response"

definition call :: "'r call_env \<Rightarrow> uri_parts \<Rightarrow> request \<Rightarrow> send list \<times> (error + 'r) option" where
  "call ce origin request =
     (case apply_origin (ce_from_parts ce) (ce_authority ce) (rq_uri request) origin of
        Inl e \<Rightarrow> ([], Some (Inl e))
      | Inr uri \<Rightarrow>
          (case ce_send_request ce uri (rq_is_end_stream request) of
             Some e \<Rightarrow> ([], Some (Inl (H2 e)))
           | None \<Rightarrow>
               (if \<not> rq_is_end_stream request
                then (case pump_body (ce_stream ce) 0 (rq_body request) of
                        (sent, None) \<Rightarrow> (sent, None)
                      | (sent, Some (Inl e)) \<Rightarrow> (sent @ [SendReset], Some (Inl e))
                      | (sent, Some (Inr _)) \<Rightarrow> (sent, await_response (ce_response ce)))
                else ([], await_response (ce_response ce)))))"

text \<open>\<open>IrohChannel::handshake\<close>: the answer of \<open>h2::client::handshake\<close> is a parameter. The result has the
  channel and the connection driver that is spawned; the native and the wasm variant differ only in
  their bounds and a log line.\<close>

record 'h iroh_channel =
  ic_sender :: 'h
  ic_origin :: uri_parts

definition handshake_inner :: "('io \<Rightarrow> string + 'h \<times> 'd) \<Rightarrow> 'io \<Rightarrow> uri_parts \<Rightarrow> error + 'h iroh_channel \<times> 'd" where
  "handshake_inner h2_handshake io origin =
     (case h2_handshake io of
        Inl e \<Rightarrow> Inl (H2 e)
      | Inr (sender, driver) \<Rightarrow> Inr (\<lparr>ic_sender = sender, ic_origin = origin\<rparr>, driver))"

definition handshake :: "('io \<Rightarrow> string + 'h \<times> 'd) \<Rightarrow> 'io \<Rightarrow> uri_parts \<Rightarrow> error + 'h iroh_channel \<times> 'd" where
  "handshake h2_handshake io origin = handshake_inner h2_handshake io origin"

text \<open>\<open>poll_ready\<close> passes on what the sender answers, with its error wrapped.\<close>

fun channel_poll_ready :: "(string + unit) poll \<Rightarrow> (error + unit) poll" where
  "channel_poll_ready Pending = Pending"
| "channel_poll_ready (Ready res) = Ready (map_sum H2 id res)"

section \<open>Definitions: the response body\<close>

text \<open>The receive stream: its answers to \<open>poll_data\<close>, each with the error of releasing that capacity,
  and its answers to \<open>poll_trailers\<close>.\<close>

record recv_stream =
  rc_data :: "((string + bytes) option poll \<times> string option) list"
  rc_trailers :: "(string + trailers option) poll list"
  rc_released :: nat

datatype body_state = BodyData recv_stream | BodyTrailers recv_stream | BodyDone

definition status_internal :: "string \<Rightarrow> string" where
  "status_internal message = message"

type_synonym frame_answer = "(string + frame) option poll"

definition poll_trailers :: "recv_stream \<Rightarrow> frame_answer \<times> body_state" where
  "poll_trailers recv =
     (case rc_trailers recv of
        [] \<Rightarrow> (Pending, BodyTrailers recv)
      | Pending # rest \<Rightarrow> (Pending, BodyTrailers (recv\<lparr>rc_trailers := rest\<rparr>))
      | Ready (Inr (Some t)) # rest \<Rightarrow> (Ready (Some (Inr (TrailersFrame t))), BodyDone)
      | Ready (Inr None) # rest \<Rightarrow> (Ready None, BodyDone)
      | Ready (Inl e) # rest \<Rightarrow> (Ready (Some (Inl (status_internal (''h2 trailers error: '' @ e)))), BodyDone))"

fun poll_frame :: "body_state \<Rightarrow> frame_answer \<times> body_state" where
  "poll_frame (BodyData recv) =
     (case rc_data recv of
        [] \<Rightarrow> (Pending, BodyData recv)
      | (answer, release) # rest \<Rightarrow>
          (let recv = recv\<lparr>rc_data := rest\<rparr>
           in case answer of
                Ready (Some (Inr data)) \<Rightarrow>
                  (case release of
                     Some e \<Rightarrow> (Ready (Some (Inl (status_internal (''flow control error: '' @ e)))), BodyDone)
                   | None \<Rightarrow> (Ready (Some (Inr (DataFrame data))),
                            BodyData (recv\<lparr>rc_released := rc_released recv + length data\<rparr>)))
              | Ready (Some (Inl e)) \<Rightarrow> (Ready (Some (Inl (status_internal (''h2 data error: '' @ e)))), BodyDone)
              | Ready None \<Rightarrow> poll_trailers recv
              | Pending \<Rightarrow> (Pending, BodyData recv)))"
| "poll_frame (BodyTrailers recv) = poll_trailers recv"
| "poll_frame BodyDone = (Ready None, BodyDone)"

definition response_body_new :: "recv_stream \<Rightarrow> body_state" where
  "response_body_new recv = BodyData recv"

definition response_body_default :: body_state where
  "response_body_default = BodyDone"

text \<open>\<open>n\<close> polls one after the other.\<close>

fun polls :: "nat \<Rightarrow> body_state \<Rightarrow> frame_answer list \<times> body_state" where
  "polls 0 b = ([], b)"
| "polls (Suc n) b =
     (case poll_frame b of (a, b') \<Rightarrow> (case polls n b' of (as, b'') \<Rightarrow> (a # as, b'')))"

section \<open>The request body\<close>

text \<open>What a body asks for: the data frames up to its end, and the frame that closes the stream there. A body
  that fails or has not ended asks for none.\<close>

fun body_data :: "(string + frame) option list \<Rightarrow> bytes list" where
  "body_data (Some (Inr (DataFrame data)) # rest) = data # body_data rest"
| "body_data (Some (Inr UnknownFrame) # rest) = body_data rest"
| "body_data _ = []"

fun body_end :: "(string + frame) option list \<Rightarrow> send option" where
  "body_end (Some (Inr (DataFrame data)) # rest) = body_end rest"
| "body_end (Some (Inr UnknownFrame) # rest) = body_end rest"
| "body_end (Some (Inr (TrailersFrame t)) # _) = Some (SendTrailers t)"
| "body_end (None # _) = Some (SendData [] True)"
| "body_end _ = None"

abbreviation data_sends :: "bytes list \<Rightarrow> send list" where
  "data_sends datas \<equiv> map (\<lambda>d. SendData d False) datas"

lemma pump_body_ends:
  "case pump_body st n body of (sent, res) \<Rightarrow>
     (if res = Some (Inr ()) then \<exists>fin. body_end body = Some fin \<and> sent = data_sends (body_data body) @ [fin]
      else \<exists>k. sent = data_sends (take k (body_data body)))"
proof (induction st n body rule: pump_body.induct)
  case (2 st n data rest)
  show ?case
  proof (cases "st_capacity st n (length data) = None \<or> st_send st n (SendData data False) \<noteq> None \<or>
      (\<forall>c. st_capacity st n (length data) \<noteq> Some (CapacityOk c))")
    case True
    then show ?thesis by (auto split: option.splits capacity.splits intro!: exI [of _ 0])
  next
    case False
    then obtain c where c: "st_capacity st n (length data) = Some (CapacityOk c)"
        "st_send st n (SendData data False) = None" by auto
    obtain sent res where p: "pump_body st (Suc n) rest = (sent, res)" by (cases "pump_body st (Suc n) rest")
    note ih = 2 [OF c(1) _ c(2), unfolded p prod.case]
    show ?thesis
    proof (cases "res = Some (Inr ())")
      case True
      with ih c p show ?thesis by auto
    next
      case False
      with ih obtain k where "sent = data_sends (take k (body_data rest))" by auto
      then have "SendData data False # sent = data_sends (take (Suc k) (body_data (Some (Inr (DataFrame data)) # rest)))"
        by simp
      with False c p show ?thesis by (auto intro: exI [of _ "Suc k"])
    qed
  qed
qed (auto split: option.splits prod.splits, (auto intro: exI [of _ 0])?)

text \<open>A stream that grants capacity and takes every frame.\<close>

definition accepts_all :: "send_stream \<Rightarrow> bool" where
  "accepts_all st \<longleftrightarrow> (\<forall>n len. \<exists>c. st_capacity st n len = Some (CapacityOk c)) \<and> (\<forall>n s. st_send st n s = None)"

fun sends_of :: "frame list \<Rightarrow> send list" where
  "sends_of [] = [SendData [] True]"
| "sends_of (DataFrame d # fs) = SendData d False # sends_of fs"
| "sends_of (TrailersFrame t # fs) = [SendTrailers t]"
| "sends_of (UnknownFrame # fs) = sends_of fs"

lemma pump_body_all:
  assumes "accepts_all st"
  shows "pump_body st n (map (\<lambda>f. Some (Inr f)) frames @ [None]) = (sends_of frames, Some (Inr ()))"
proof (induction frames arbitrary: n rule: sends_of.induct)
  case (2 d fs)
  obtain c where "st_capacity st n (length d) = Some (CapacityOk c)"
    using assms unfolding accepts_all_def by blast
  with 2 assms show ?case by (simp add: accepts_all_def)
qed (use assms in \<open>simp_all add: accepts_all_def\<close>)

text \<open>There everything the body asks for is sent.\<close>

lemma pump_body_complete:
  "accepts_all st \<Longrightarrow> case pump_body st n body of (sent, res) \<Rightarrow>
     sent = data_sends (body_data body) @ (case body_end body of None \<Rightarrow> [] | Some fin \<Rightarrow> [fin]) \<and>
     (res = Some (Inr ()) \<longleftrightarrow> body_end body \<noteq> None)"
proof (induction st n body rule: pump_body.induct)
  case (2 st n data rest)
  obtain c where "st_capacity st n (length data) = Some (CapacityOk c)"
    using 2(2) unfolding accepts_all_def by blast
  moreover have "st_send st n (SendData data False) = None" using 2(2) by (simp add: accepts_all_def)
  ultimately show ?case using 2 by (auto split: prod.splits)
qed (simp_all add: accepts_all_def)

lemma pump_body_waits:
  "None \<notin> set body \<Longrightarrow> (\<forall>f \<in> set body. \<exists>d. f = Some (Inr (DataFrame d))) \<Longrightarrow> accepts_all st \<Longrightarrow>
     snd (pump_body st n body) = None"
proof (induction st n body rule: pump_body.induct)
  case (2 st n data rest)
  obtain c where "st_capacity st n (length data) = Some (CapacityOk c)"
    using 2(4) unfolding accepts_all_def by blast
  with 2 show ?case by (auto simp: accepts_all_def split: prod.splits)
qed auto

section \<open>The response body\<close>

fun ended :: "frame_answer \<Rightarrow> bool" where
  "ended Pending \<longleftrightarrow> False"
| "ended (Ready None) \<longleftrightarrow> True"
| "ended (Ready (Some (Inl e))) \<longleftrightarrow> True"
| "ended (Ready (Some (Inr f))) \<longleftrightarrow> (\<forall>d. f \<noteq> DataFrame d)"

fun released :: "body_state \<Rightarrow> nat" where
  "released (BodyData recv) = rc_released recv"
| "released (BodyTrailers recv) = rc_released recv"
| "released BodyDone = 0"

fun data_len :: "frame_answer \<Rightarrow> nat" where
  "data_len (Ready (Some (Inr (DataFrame d)))) = length d"
| "data_len _ = 0"

lemma poll_trailers_step:
  "poll_trailers recv = (a, b) \<Longrightarrow>
     (ended a \<longleftrightarrow> b = BodyDone) \<and> (b \<noteq> BodyDone \<longrightarrow> released b = rc_released recv + data_len a)"
  by (auto simp: poll_trailers_def split: list.splits poll.splits sum.splits option.splits)

lemma poll_frame_step:
  "poll_frame b = (a, b') \<Longrightarrow>
     (ended a \<longleftrightarrow> b' = BodyDone) \<and> (b' \<noteq> BodyDone \<longrightarrow> b \<noteq> BodyDone \<and> released b' = released b + data_len a)"
proof (induction b rule: poll_frame.induct)
  case (1 recv)
  show ?case
  proof (cases "rc_data recv")
    case (Cons x rest)
    obtain answer release where "x = (answer, release)" by (cases x)
    with Cons show ?thesis
      using 1 by (auto simp: Let_def split: poll.splits sum.splits option.splits dest: poll_trailers_step)
  qed (use 1 in auto)
qed (auto dest: poll_trailers_step)

lemma polls_done: "polls n BodyDone = (replicate n (Ready None), BodyDone)"
  by (induction n) simp_all

lemma polls_shape:
  "polls n b = (as, b') \<Longrightarrow>
     length as = n \<and> (\<forall>i j. i < j \<and> j < n \<and> ended (as ! i) \<longrightarrow> as ! j = Ready None) \<and>
     (b' \<noteq> BodyDone \<longrightarrow> b \<noteq> BodyDone \<and> released b' = released b + sum_list (map data_len as))"
proof (induction n arbitrary: b as)
  case (Suc n)
  obtain a b1 as' where p: "poll_frame b = (a, b1)" "polls n b1 = (as', b')" "as = a # as'"
    using Suc.prems by (auto split: prod.splits)
  note ih = Suc.IH [OF p(2)] and st = poll_frame_step [OF p(1)]
  have "as ! j = Ready None" if ij: "i < j" "j < Suc n" "ended (as ! i)" for i j
  proof (cases i)
    case 0
    then have "as' = replicate n (Ready None)" using st ij p polls_done [of n] by auto
    with ij p show ?thesis by (cases j) auto
  next
    case (Suc k)
    with ij p ih show ?thesis by (cases j) auto
  qed
  with ih st p show ?case by auto
qed simp

section \<open>Properties\<close>

text \<open>(C25) Whatever h2 answers, the data frames of the request body are forwarded in order and unchanged, up
  to where forwarding stopped. Success is reported only when all of them were, followed by the one frame
  that closes the stream: the trailers of the body, or an empty last frame when it has none. While h2
  takes every frame, all of it is forwarded and success is reported exactly when the body ends.\<close>

theorem pump_body_closes_once:
  "case pump_body st n body of (sent, res) \<Rightarrow>
     (if res = Some (Inr ()) then \<exists>fin. body_end body = Some fin \<and> sent = data_sends (body_data body) @ [fin]
      else \<exists>k. sent = data_sends (take k (body_data body))) \<and>
     (accepts_all st \<longrightarrow>
        sent = data_sends (body_data body) @ (case body_end body of None \<Rightarrow> [] | Some fin \<Rightarrow> [fin]) \<and>
        (res = Some (Inr ()) \<longleftrightarrow> body_end body \<noteq> None))"
  using pump_body_ends [where st = st and n = n and body = body] pump_body_complete [where st = st and n = n and body = body] by (auto split: prod.splits)

text \<open>(C40) A call waits for its whole request body before it looks at the response: as long as the body
  only sends data and does not end, the call does not return, whatever the server has answered.\<close>

theorem call_blocks_on_open_body:
  assumes "apply_origin (ce_from_parts ce) (ce_authority ce) (rq_uri request) origin = Inr uri"
    and "ce_send_request ce uri False = None" and "\<not> rq_is_end_stream request" and "accepts_all (ce_stream ce)"
    and "\<forall>f \<in> set (rq_body request). \<exists>d. f = Some (Inr (DataFrame d))"
  shows "snd (call (ce\<lparr>ce_response := response\<rparr>) origin request) = None"
proof -
  have "None \<notin> set (rq_body request)" using assms(5) by auto
  from pump_body_waits [OF this assms(5,4), of 0] show ?thesis
    using assms(1-3) by (auto simp: call_def split: prod.splits)
qed

text \<open>(C24) The response body is a well-formed body: once it has yielded trailers, an error or the end, it
  only answers the end; and as long as it goes on, exactly the bytes it handed out were given back to
  flow control.\<close>

theorem response_body_fused:
  assumes "polls n (response_body_new recv) = (as, b)"
  shows "(\<forall>i j. i < j \<and> j < n \<and> ended (as ! i) \<longrightarrow> as ! j = Ready None) \<and>
     (b \<noteq> BodyDone \<longrightarrow> released b = rc_released recv + sum_list (map data_len as))"
  using polls_shape [OF assms] unfolding response_body_new_def released.simps by blast

section \<open>Witnesses\<close>

definition wh_stream :: send_stream where
  "wh_stream = \<lparr>st_capacity = (\<lambda>n len. Some (CapacityOk len)), st_send = (\<lambda>n s. None)\<rparr>"

definition wh_env :: "nat call_env" where
  "wh_env = \<lparr>ce_from_parts = Inr, ce_authority = Some, ce_send_request = (\<lambda>u e. None), ce_stream = wh_stream,
     ce_response = None\<rparr>"

definition wh_uri :: uri_parts where
  "wh_uri = \<lparr>up_scheme = None, up_authority = None, up_path_and_query = Some ''/svc/Method''\<rparr>"

definition wh_request :: request where
  "wh_request = \<lparr>rq_uri = wh_uri, rq_is_end_stream = False, rq_body = [Some (Inr (DataFrame [1]))]\<rparr>"

theorem call_blocks_on_open_body_witness:
  "snd (call (wh_env\<lparr>ce_response := Some (Inr 200)\<rparr>) wh_uri wh_request) = None"
  by (rule call_blocks_on_open_body [where uri = "\<lparr>up_scheme = Some ''http'', up_authority = Some ''iroh.local'',
        up_path_and_query = Some ''/svc/Method''\<rparr>"])
     (simp_all add: wh_env_def wh_uri_def wh_request_def apply_origin_def accepts_all_def wh_stream_def)

definition wh_recv :: recv_stream where
  "wh_recv = \<lparr>rc_data = [(Ready (Some (Inr [1, 2])), None), (Pending, None), (Ready None, None)],
     rc_trailers = [Ready (Inr (Some ''t''))], rc_released = 0\<rparr>"

definition wh_answers :: "frame_answer list" where
  "wh_answers = [Ready (Some (Inr (DataFrame [1, 2]))), Pending, Ready (Some (Inr (TrailersFrame ''t''))), Ready None]"

lemma wh_polls: "polls 4 (response_body_new wh_recv) = (wh_answers, BodyDone)"
  by (simp add: response_body_new_def wh_recv_def wh_answers_def poll_trailers_def numeral_eq_Suc)

theorem response_body_fused_witness:
  "polls 4 (response_body_new wh_recv) = (wh_answers, BodyDone) \<and> ended (wh_answers ! 2) \<and> wh_answers ! 3 = Ready None"
proof -
  have e: "ended (wh_answers ! 2)" by (simp add: wh_answers_def)
  have "\<forall>i j. i < j \<and> j < 4 \<and> ended (wh_answers ! i) \<longrightarrow> wh_answers ! j = Ready None"
    using response_body_fused [OF wh_polls] by blast
  then have "wh_answers ! 3 = Ready None" using e by (elim allE [of _ 2] allE [of _ 3]) simp
  with e wh_polls show ?thesis by blast
qed

text \<open>A body of two data frames around a frame of another kind, with trailers.\<close>

theorem pump_body_closes_once_witness:
  "pump_body wh_stream 0 [Some (Inr (DataFrame [1])), Some (Inr UnknownFrame), Some (Inr (DataFrame [2, 3])),
      Some (Inr (TrailersFrame ''t'')), None] =
     ([SendData [1] False, SendData [2, 3] False, SendTrailers ''t''], Some (Inr ()))"
proof -
  have "accepts_all wh_stream" by (simp add: accepts_all_def wh_stream_def)
  then show ?thesis
    using pump_body_closes_once [where st = wh_stream and n = 0 and body = "[Some (Inr (DataFrame [1])), Some (Inr UnknownFrame),
      Some (Inr (DataFrame [2, 3])), Some (Inr (TrailersFrame ''t'')), None]"]
    by (auto split: prod.splits)
qed

end
