(* ===== verification/Client.thy ===== *)
theory Client
  imports Channel Stream Alpn
begin

text \<open>
  \<^verbatim>\<open>src/client.rs\<close>: the builder of a direct connection and the steps from the iroh connection over the
  stream to the HTTP/2 handshake. What the endpoint, the connection and the handshake answer is the
  parameter \<open>dial_env\<close>; a connection is named by a number.
\<close>

section \<open>Definitions\<close>

record 'cfg connect_builder =
  cb_target :: endpoint_id
  cb_alpn :: bytes
  cb_connect_timeout :: "nat option"
  cb_transport_config :: "'cfg option"

definition connect_builder_new :: "endpoint_id \<Rightarrow> bytes \<Rightarrow> 'cfg connect_builder" where
  "connect_builder_new target alpn =
     \<lparr>cb_target = target, cb_alpn = alpn, cb_connect_timeout = None, cb_transport_config = None\<rparr>"

definition set_connect_timeout :: "'cfg connect_builder \<Rightarrow> nat \<Rightarrow> 'cfg connect_builder" where
  "set_connect_timeout b timeout = b\<lparr>cb_connect_timeout := Some timeout\<rparr>"

definition set_transport_config :: "'cfg connect_builder \<Rightarrow> 'cfg \<Rightarrow> 'cfg connect_builder" where
  "set_transport_config b config = b\<lparr>cb_transport_config := Some config\<rparr>"

definition iroh_connect :: "string \<Rightarrow> endpoint_id \<Rightarrow> 'cfg connect_builder" where
  "iroh_connect service target = connect_builder_new target (service_to_alpn service)"

definition connect_alpn :: "endpoint_id \<Rightarrow> bytes \<Rightarrow> 'cfg connect_builder" where
  "connect_alpn target alpn = connect_builder_new target alpn"

text \<open>The answers of iroh and h2: \<open>connect\<close>, \<open>connect_with_opts\<close> and the connecting it gives, \<open>open_bi\<close>, and
  the handshake over the stream; \<open>de_elapsed d\<close> says whether duration \<open>d\<close> passes before the connection is
  ready.\<close>

record ('cfg, 'c) dial_env =
  de_connect :: "endpoint_id \<Rightarrow> bytes \<Rightarrow> string + nat"
  de_connect_with_opts :: "endpoint_id \<Rightarrow> bytes \<Rightarrow> 'cfg \<Rightarrow> string + (connecting_error + nat)"
  de_open_bi :: "nat \<Rightarrow> connection_error + unit"
  de_handshake :: "nat \<Rightarrow> iroh_context \<Rightarrow> error + 'c"
  de_elapsed :: "nat \<Rightarrow> bool"
  de_now :: nat

definition refused :: "string \<Rightarrow> io_error" where
  "refused e = \<lparr>io_kind = KindConnectionRefused, io_source = SrcConnect e\<rparr>"

definition dial :: "('cfg, 'c) dial_env \<Rightarrow> endpoint_id \<Rightarrow> bytes \<Rightarrow> 'cfg option \<Rightarrow> io_error + nat" where
  "dial env target alpn transport_config =
     (case transport_config of
        Some config \<Rightarrow>
          (case de_connect_with_opts env target alpn config of
             Inl e \<Rightarrow> Inl (refused e)
           | Inr (Inl e) \<Rightarrow> Inl (connecting_error_to_io e)
           | Inr (Inr k) \<Rightarrow> Inr k)
      | None \<Rightarrow>
          (case de_connect env target alpn of Inl e \<Rightarrow> Inl (refused e) | Inr k \<Rightarrow> Inr k))"

definition connect_inner :: "('cfg, 'c) dial_env \<Rightarrow> endpoint_id \<Rightarrow> bytes \<Rightarrow> 'cfg option \<Rightarrow> error + 'c" where
  "connect_inner env target alpn transport_config =
     (case dial env target alpn transport_config of
        Inl e \<Rightarrow> Inl (Io e)
      | Inr k \<Rightarrow>
          (case de_open_bi env k of
             Inl e \<Rightarrow> Inl (Io (connection_error_to_io e))
           | Inr _ \<Rightarrow> de_handshake env k
               \<lparr>ctx_node_id = target, ctx_connection = k, ctx_established_at = de_now env, ctx_alpn = alpn\<rparr>))"

definition connect_impl :: "('cfg, 'c) dial_env \<Rightarrow> 'cfg connect_builder \<Rightarrow> error + 'c" where
  "connect_impl env b =
     (let connect_future = connect_inner env (cb_target b) (cb_alpn b) (cb_transport_config b)
      in case cb_connect_timeout b of
           Some timeout \<Rightarrow>
             (if de_elapsed env timeout
              then Inl (connection (''connection timed out after '' @ duration_debug timeout))
              else connect_future)
         | None \<Rightarrow> connect_future)"

section \<open>Properties\<close>

text \<open>A channel is returned exactly when every stage succeeds in time, on the connection that was
  dialled for the service's own protocol name; without a configured timeout the clock plays no part.\<close>

lemma connect_succeeds_iff:
  "connect_impl env b = Inr c \<longleftrightarrow>
     (\<forall>timeout. cb_connect_timeout b = Some timeout \<longrightarrow> \<not> de_elapsed env timeout) \<and>
     (\<exists>k. dial env (cb_target b) (cb_alpn b) (cb_transport_config b) = Inr k \<and> de_open_bi env k = Inr () \<and>
        de_handshake env k \<lparr>ctx_node_id = cb_target b, ctx_connection = k, ctx_established_at = de_now env,
          ctx_alpn = cb_alpn b\<rparr> = Inr c)"
  by (auto simp: connect_impl_def connect_inner_def Let_def split: option.splits sum.splits)

end
