(* ===== verification/Server.thy ===== *)
theory Server
  imports Stream Alpn
begin

text \<open>
  \<^verbatim>\<open>src/server.rs\<close>: the loop that accepts streams of one connection and hands them to tonic through a
  bounded queue. What \<open>accept_bi\<close> and \<open>try_reserve\<close> answer in each round (the queue is a tokio channel) is the
  parameter.
\<close>

section \<open>Definitions\<close>

definition DEFAULT_INCOMING_BUFFER_CAPACITY :: nat where
  "DEFAULT_INCOMING_BUFFER_CAPACITY = 256"

definition OVERLOAD_STREAM_ERROR_CODE :: u32 where
  "OVERLOAD_STREAM_ERROR_CODE = 1"

text \<open>\<open>IrohIncoming::new\<close> makes the queue, or panics as tokio does for a capacity it refuses; as a stream it
  gives what its receiver gives, in order.\<close>

record ('s, 'r) iroh_incoming =
  ii_capacity :: nat
  ii_received :: "(io_error + ('s, 'r) iroh_stream) list"

definition iroh_incoming_new :: "(nat \<Rightarrow> bool) \<Rightarrow> nat \<Rightarrow> ('s, 'r) iroh_incoming outcome" where
  "iroh_incoming_new mpsc_ok buffer_capacity =
     (if mpsc_ok buffer_capacity then Returned \<lparr>ii_capacity = buffer_capacity, ii_received = []\<rparr> else Panicked)"

definition incoming_poll_next :: "bool \<Rightarrow> ('s, 'r) iroh_incoming
    \<Rightarrow> (io_error + ('s, 'r) iroh_stream) option poll \<times> ('s, 'r) iroh_incoming" where
  "incoming_poll_next senders_gone inc =
     (case ii_received inc of
        x # rest \<Rightarrow> (Ready (Some x), inc\<lparr>ii_received := rest\<rparr>)
      | [] \<Rightarrow> (if senders_gone then Ready None else Pending, inc))"

record grpc_protocol_handler =
  gh_sender :: nat
  gh_service_name :: string

definition with_sender :: "string \<Rightarrow> nat \<Rightarrow> grpc_protocol_handler" where
  "with_sender service_name sender = \<lparr>gh_sender = sender, gh_service_name = service_name\<rparr>"

record server_conn =
  sc_remote_id :: endpoint_id
  sc_connection :: nat
  sc_alpn :: bytes

datatype reserve_answer = ReserveOk | ReserveFull | ReserveClosed

text \<open>One round: the accepted stream pair (or the end of the connection), the time, and whether the queue
  has room.\<close>

record ('s, 'r) accept_round =
  ar_accept :: "('s \<times> 'r) option"
  ar_now :: nat
  ar_reserve :: reserve_answer

datatype ('s, 'r) server_effect =
    Forwarded "('s, 'r) iroh_stream"
  | StopRecv 'r u32
  | ResetSend 's u32

definition reject_stream :: "'s \<Rightarrow> 'r \<Rightarrow> ('s, 'r) server_effect list" where
  "reject_stream send recv = [StopRecv recv OVERLOAD_STREAM_ERROR_CODE, ResetSend send OVERLOAD_STREAM_ERROR_CODE]"

text \<open>The loop: its effects, and whether it returned (it has not while answers are still to come).\<close>

fun accept_loop :: "server_conn \<Rightarrow> ('s, 'r) accept_round list \<Rightarrow> ('s, 'r) server_effect list \<times> bool" where
  "accept_loop c [] = ([], False)"
| "accept_loop c (rnd # rest) =
     (case ar_accept rnd of
        Some (send, recv) \<Rightarrow>
          (case ar_reserve rnd of
             ReserveOk \<Rightarrow>
               (case accept_loop c rest of (effs, returned) \<Rightarrow>
                  (Forwarded (iroh_stream_new send recv
                     \<lparr>ctx_node_id = sc_remote_id c, ctx_connection = sc_connection c,
                      ctx_established_at = ar_now rnd, ctx_alpn = sc_alpn c\<rparr>) # effs, returned))
           | ReserveFull \<Rightarrow>
               (case accept_loop c rest of (effs, returned) \<Rightarrow> (reject_stream send recv @ effs, returned))
           | ReserveClosed \<Rightarrow> (reject_stream send recv, True))
      | None \<Rightarrow> ([], True))"

definition accept :: "grpc_protocol_handler \<Rightarrow> server_conn \<Rightarrow> ('s, 'r) accept_round list
    \<Rightarrow> ('s, 'r) server_effect list \<times> bool" where
  "accept h c rounds = accept_loop c rounds"

section \<open>The rounds that count\<close>

text \<open>The rounds up to and including the one that ends the loop.\<close>

fun live_rounds :: "('s, 'r) accept_round list \<Rightarrow> ('s, 'r) accept_round list" where
  "live_rounds [] = []"
| "live_rounds (rnd # rest) =
     (if ar_accept rnd = None then [] else if ar_reserve rnd = ReserveClosed then [rnd]
      else rnd # live_rounds rest)"

text \<open>What has to happen to the stream of a round: handed on under the peer, connection and protocol of its
  connection, or its receiving side stopped and its sending side reset, both with code 1.\<close>

definition round_effects :: "server_conn \<Rightarrow> ('s, 'r) accept_round \<Rightarrow> ('s, 'r) server_effect list" where
  "round_effects c rnd =
     (case ar_accept rnd of
        None \<Rightarrow> []
      | Some (send, recv) \<Rightarrow>
          (if ar_reserve rnd = ReserveOk
           then [Forwarded \<lparr>is_send = send, is_recv = recv, is_context =
                   \<lparr>ctx_node_id = sc_remote_id c, ctx_connection = sc_connection c,
                    ctx_established_at = ar_now rnd, ctx_alpn = sc_alpn c\<rparr>\<rparr>]
           else [StopRecv recv 1, ResetSend send 1]))"

lemma accept_loop_effects: "fst (accept_loop c rounds) = concat (map (round_effects c) (live_rounds rounds))"
  by (induction rounds) (auto simp: round_effects_def iroh_stream_new_def reject_stream_def
      OVERLOAD_STREAM_ERROR_CODE_def split: option.splits reserve_answer.splits prod.splits)

lemma accept_loop_returned:
  "snd (accept_loop c rounds) \<longleftrightarrow> (\<exists>r \<in> set rounds. ar_accept r = None \<or> ar_reserve r = ReserveClosed)"
  by (induction rounds) (auto split: option.splits reserve_answer.splits prod.splits)

section \<open>Properties\<close>

text \<open>(C35) Every accepted stream is dealt with once, in order: either forwarded with the peer and protocol of
  its connection, or refused on both directions with the overload code. A full queue refuses only the
  stream at hand; the loop returns only when the connection ends or the queue is gone.\<close>

theorem accept_handles_every_stream:
  "fst (accept h c rounds) = concat (map (round_effects c) (live_rounds rounds)) \<and>
   (snd (accept h c rounds) \<longleftrightarrow> (\<exists>r. r \<in> set rounds \<and> (ar_accept r = None \<or> ar_reserve r = ReserveClosed)))"
  by (auto simp: accept_def accept_loop_effects accept_loop_returned)

end
