(* ===== verification/Transport.thy ===== *)
theory Transport
  imports Server User_Data Publisher
begin

text \<open>
  \<^verbatim>\<open>src/transport.rs\<close>: the builder that registers tonic services on one iroh router, announces them and
  starts the tasks, and the guard that shuts them down. Routers, tonic and the endpoint are third-party
  code: a router is the list of protocols registered on it, the tonic router the list of its services,
  and the endpoint's announced data the last value set. \<open>mpsc_ok n\<close> says whether tokio makes a channel
  of capacity \<open>n\<close> or panics.
\<close>

section \<open>Definitions\<close>

record transport_builder =
  tb_services :: "string list"
  tb_alpns :: "bytes list"
  tb_incoming_buffer_capacity :: nat
  tb_publisher :: "dht_publisher option"

definition transport_builder_new :: transport_builder where
  "transport_builder_new =
     \<lparr>tb_services = [], tb_alpns = [], tb_incoming_buffer_capacity = DEFAULT_INCOMING_BUFFER_CAPACITY,
      tb_publisher = None\<rparr>"

definition with_publisher :: "transport_builder \<Rightarrow> dht_publisher \<Rightarrow> transport_builder" where
  "with_publisher b publisher = b\<lparr>tb_publisher := Some publisher\<rparr>"

definition add_rpc :: "transport_builder \<Rightarrow> string \<Rightarrow> transport_builder" where
  "add_rpc b service = b\<lparr>tb_alpns := tb_alpns b @ [service_to_alpn service], tb_services := tb_services b @ [service]\<rparr>"

definition incoming_buffer_capacity :: "transport_builder \<Rightarrow> nat \<Rightarrow> transport_builder" where
  "incoming_buffer_capacity b capacity = b\<lparr>tb_incoming_buffer_capacity := max capacity 1\<rparr>"

type_synonym router = "(bytes \<times> grpc_protocol_handler) list"

definition register :: "string \<Rightarrow> router \<Rightarrow> nat \<Rightarrow> string list option \<Rightarrow> router \<times> string list" where
  "register service router sender tonic_router =
     (let alpn = service_to_alpn service;
          handler = with_sender service sender;
          router = router @ [(alpn, handler)];
          tonic_router = (case tonic_router of Some r \<Rightarrow> r @ [service] | None \<Rightarrow> [service])
      in (router, tonic_router))"

fun register_all :: "string list \<Rightarrow> router \<Rightarrow> nat \<Rightarrow> string list option \<Rightarrow> router \<times> string list option" where
  "register_all [] router sender tonic_router = (router, tonic_router)"
| "register_all (svc # services) router sender tonic_router =
     (case register svc router sender tonic_router of
        (b, tr) \<Rightarrow> register_all services b sender (Some tr))"

datatype transport_task = PublisherTask dht_publisher | TonicTask "string list"

record transport_guard =
  tg_router :: router
  tg_tasks :: "transport_task list"
  tg_user_data :: "user_data option"

text \<open>\<open>spawn\<close>: nothing is started when the announcement cannot be encoded. Sender 0 is the one queue that
  all protocols share.\<close>

definition transport_spawn :: "(nat \<Rightarrow> bool) \<Rightarrow> ud_codec \<Rightarrow> transport_builder \<Rightarrow> (error + transport_guard) outcome" where
  "transport_spawn mpsc_ok uc b =
     (if \<not> mpsc_ok (tb_incoming_buffer_capacity b) then Panicked
      else (case register_all (tb_services b) [] 0 None of
              (router, tonic_router) \<Rightarrow>
                (case (if tb_alpns b \<noteq> [] then map_sum id Some (encode_alpns uc (tb_alpns b)) else Inr None) of
                   Inl e \<Rightarrow> Returned (Inl e)
                 | Inr user_data \<Rightarrow>
                     (let publisher_tasks = (case tb_publisher b of
                            Some p \<Rightarrow> [PublisherTask (foldl add_service p (tb_alpns b))]
                          | None \<Rightarrow> []);
                          tonic_tasks = (case tonic_router of Some tr \<Rightarrow> [TonicTask tr] | None \<Rightarrow> [])
                      in Returned (Inr \<lparr>tg_router = router, tg_tasks = publisher_tasks @ tonic_tasks,
                                        tg_user_data = user_data\<rparr>)))))"

text \<open>\<open>shutdown\<close>: signal the tasks, wait for them, stop the router; failures of each are dropped.\<close>

datatype shutdown_action = SignalTasks | AwaitTasks | ShutdownRouter

definition transport_shutdown :: "bool \<Rightarrow> bool \<Rightarrow> string + unit \<Rightarrow> shutdown_action list \<times> (error + unit)" where
  "transport_shutdown signal_ok tasks_ok router_result =
     ([SignalTasks, AwaitTasks, ShutdownRouter], Inr ())"

section \<open>The builder\<close>

datatype builder_op = AddRpc string | Capacity nat | WithPublisher dht_publisher

fun builder_apply :: "transport_builder \<Rightarrow> builder_op \<Rightarrow> transport_builder" where
  "builder_apply b (AddRpc s) = add_rpc b s"
| "builder_apply b (Capacity n) = incoming_buffer_capacity b n"
| "builder_apply b (WithPublisher p) = with_publisher b p"

definition builder_inv :: "transport_builder \<Rightarrow> bool" where
  "builder_inv b \<longleftrightarrow> tb_alpns b = map service_to_alpn (tb_services b) \<and> 0 < tb_incoming_buffer_capacity b"

interpretation transport_builder: machine builder_apply builder_inv
proof
  fix b e
  assume "builder_inv b"
  then show "builder_inv (builder_apply b e)"
    by (cases e) (auto simp: builder_inv_def add_rpc_def incoming_buffer_capacity_def with_publisher_def)
qed

lemma builder_new_inv: "builder_inv transport_builder_new"
  by (simp add: builder_inv_def transport_builder_new_def DEFAULT_INCOMING_BUFFER_CAPACITY_def)

lemma register_all_lists:
  "register_all services router sender tr =
     (router @ map (\<lambda>s. (service_to_alpn s, with_sender s sender)) services,
      if services = [] then tr else Some ((case tr of Some r \<Rightarrow> r | None \<Rightarrow> []) @ services))"
  by (induction services arbitrary: router tr) (auto simp: register_def Let_def split: option.split)

lemma add_services: "pub_services (foldl add_service p alpns) = pub_services p @ alpns"
  by (induction alpns arbitrary: p) (simp_all add: add_service_def)

text \<open>What is announced reads back as the services added.\<close>

lemma spawn_announces:
  assumes "builder_inv b" and "ud_codec_round_trip uc" and "transport_spawn mpsc_ok uc b = Returned (Inr g)"
    and "service \<in> set (tb_services b)"
  shows "\<exists>ud. tg_user_data g = Some ud \<and> service_to_alpn service \<in> set (user_data_alpns uc ud)"
proof -
  have "user_data_alpns uc ud = alpns" if "encode_alpns uc alpns = Inr ud" for alpns ud
    using that assms(2) by (auto simp: ud_codec_round_trip_def encode_alpns_def decode_alpns_def user_data_alpns_def
        split: sum.splits option.splits)
  with assms(1,3,4) show ?thesis
    by (fastforce simp: transport_spawn_def builder_inv_def Let_def map_sum_def
        split: if_splits sum.splits prod.splits)
qed

section \<open>Properties\<close>

text \<open>(C31) A transport that starts serves, announces and publishes the same protocols: for every sequence of
  builder calls, the router accepts exactly the services added, in order, all into one queue; the
  announced data reads back as that list; and the publisher advertises it.\<close>

theorem transport_consistent:
  assumes "b = foldl builder_apply transport_builder_new ops" and "ud_codec_round_trip uc"
    and "transport_spawn mpsc_ok uc b = Returned (Inr g)"
  shows "map fst (tg_router g) = map service_to_alpn (tb_services b) \<and>
     (\<forall>h \<in> set (map snd (tg_router g)). gh_sender h = 0) \<and>
     (case tg_user_data g of
        None \<Rightarrow> tb_services b = [] | Some ud \<Rightarrow> user_data_alpns uc ud = map fst (tg_router g)) \<and>
     (\<forall>p. tb_publisher b = Some p \<longrightarrow>
        (\<exists>p'. PublisherTask p' \<in> set (tg_tasks g) \<and> pub_services p' = pub_services p @ map fst (tg_router g)))"
proof -
  have inv: "builder_inv b" unfolding assms(1) by (rule transport_builder.run_inv) (rule builder_new_inv)
  have rt: "encode_alpns uc alpns = Inr ud \<Longrightarrow> user_data_alpns uc ud = alpns" for alpns ud
    using assms(2) by (auto simp: ud_codec_round_trip_def encode_alpns_def decode_alpns_def user_data_alpns_def
        split: sum.splits option.splits)
  from assms(3) inv show ?thesis
    by (auto simp: transport_spawn_def register_all_lists builder_inv_def Let_def add_services comp_def with_sender_def
        map_sum_def rt split: if_splits sum.splits option.splits prod.splits)
qed

text \<open>A builder never makes the queue panic, whatever capacity was asked for, and a transport whose
  announcement does not fit starts nothing and reports that error.\<close>

lemma transport_spawn_no_panic:
  assumes "b = foldl builder_apply transport_builder_new ops" and "\<forall>n. 0 < n \<longrightarrow> mpsc_ok n"
  shows "\<exists>res. transport_spawn mpsc_ok uc b = Returned res \<and>
     (\<forall>e. tb_services b \<noteq> [] \<longrightarrow> encode_alpns uc (map service_to_alpn (tb_services b)) = Inl e \<longrightarrow> res = Inl e)"
proof -
  have inv: "builder_inv b" unfolding assms(1) by (rule transport_builder.run_inv) (rule builder_new_inv)
  with assms(2) show ?thesis
    by (auto simp: transport_spawn_def builder_inv_def Let_def map_sum_def split: prod.splits sum.splits)
qed

section \<open>Witnesses\<close>

definition wt_ops :: "builder_op list" where
  "wt_ops = [Capacity 0, AddRpc ''A'', AddRpc ''B'']"

definition wt_builder :: transport_builder where
  "wt_builder = foldl builder_apply transport_builder_new wt_ops"

lemma wt_builder_eq: "wt_builder = \<lparr>tb_services = [''A'', ''B''], tb_alpns = [service_to_alpn ''A'', service_to_alpn ''B''],
   tb_incoming_buffer_capacity = 1, tb_publisher = None\<rparr>"
  by (simp add: wt_builder_def wt_ops_def transport_builder_new_def incoming_buffer_capacity_def add_rpc_def)

theorem transport_consistent_witness:
  "\<exists>g. transport_spawn (\<lambda>n. 0 < n) wu_codec wt_builder = Returned (Inr g) \<and>
     map fst (tg_router g) = [service_to_alpn ''A'', service_to_alpn ''B'']"
proof -
  obtain ud where ud: "encode_alpns wu_codec [service_to_alpn ''A'', service_to_alpn ''B''] = Inr ud"
    by (simp add: encode_alpns_def wu_codec_def service_to_alpn_def into_bytes_def)
  then obtain g where g: "transport_spawn (\<lambda>n. 0 < n) wu_codec wt_builder = Returned (Inr g)"
    by (simp add: wt_builder_eq transport_spawn_def Let_def register_def)
  from transport_consistent [OF wt_builder_def wu_codec_round_trip g] g show ?thesis
    by (auto simp: wt_builder_eq)
qed

end
