(* ===== verification/Announced_Path.thy ===== *)
theory Announced_Path
  imports Service_Path Transport
begin

text \<open>
  The way of a service through the local network: a transport announces its protocols in the user data of
  its endpoint (\<^verbatim>\<open>src/transport.rs\<close>, \<^verbatim>\<open>src/user_data.rs\<close>), mDNS carries them, the mDNS feed of a client yields the
  node (\<^verbatim>\<open>src/swarm/peers.rs\<close>), and its locator reaches it. The counterpart of \<open>Service_Path\<close> for the other
  discovery backend that works without configuration.
\<close>

section \<open>Properties\<close>

text \<open>(C8) An announced service is found and reached: for every sequence of builder calls, when the transport
  has started and mDNS has shown a client the node with the data it announced, a client that asks a registry
  with an mDNS backend for one of its services finds it. Its feeds stay open. As long as the receiver is there
  and no overall timeout fires, the locator makes at most two rounds for every item the feeds have yielded,
  always has something to do before it has caught up with them, and when it has caught up it has tried that
  node, and \<open>first\<close>, which returns the first channel to arrive, has one to a peer that was found, given that the
  pool can open a stream to the node.\<close>

theorem announced_service_is_reached:
  fixes registry script
  defines "peers \<equiv> engine_run (rg_local_id registry) {} script"
  assumes server: "b = foldl builder_apply transport_builder_new ops" "ud_codec_round_trip uc"
      "transport_spawn mpsc_ok uc b = Returned (Inr g)" "service \<in> set (tb_services b)"
    and mdns: "MdnsDiscovered server_id (tg_user_data g) \<in> set shown"
    and client: "mdns_backend_feeds uc shown backend \<in> set (rg_backends registry)" "server_id \<noteq> rg_local_id registry"
      "0 < lc_max_inflight opts" "reachable dial server_id"
    and merge: "select_all_merges script (en_inner (discover registry service))"
    and run: "drive_open (locator_start opts) peers events = Some ((status, s), rest)"
      "answered_by (pool_attempt dial) events"
  shows "length events \<le> 2 * length peers \<and>
    (if caught_up s rest
     then server_id \<in> set (ls_attempted s) \<and>
       (\<exists>i c. i \<in> set (ls_attempted s) \<and> pool_attempt dial i = Some (Inr c) \<and> locator_first (ls_sent s) = Inr c)
     else \<exists>e. drive_open (locator_start opts) peers (events @ [e]) \<noteq> None \<and>
       answered_by (pool_attempt dial) (events @ [e]))"
proof -
  let ?alpn = "service_to_alpn service" and ?d = "\<lparr>dp_id = server_id, dp_trust = mb_trust backend\<rparr>"
  let ?f = "mdns_feed uc shown ?alpn (mb_priority backend) (mb_trust backend)"
  have "builder_inv b" unfolding server(1) by (rule transport_builder.run_inv) (rule builder_new_inv)
  from spawn_announces [OF this server(2-4)] mdns have d: "Inr ?d \<in> set (fs_stream ?f)" by (auto simp: mdns_feed_exact)
  have f: "?f \<in> set (mdns_backend_feeds uc shown backend ?alpn)" "scope_matches (fs_scope ?f) ?alpn"
    by (simp_all add: mdns_backend_feeds_def mdns_feed_def scope_matches_def)
  have "dp_id ?d \<noteq> rg_local_id registry" "reachable dial (dp_id ?d)" using client(2,4) by simp_all
  from found_is_reached [OF merge client(1) f d this(1) client(3) this(2) run [unfolded peers_def]]
  show ?thesis unfolding peers_def discovered_peer.select_convs .
qed

section \<open>Witnesses\<close>

text \<open>The transport of theory \<open>Transport\<close> with the services \<open>A\<close> and \<open>B\<close>, seen as node \<open>[2]\<close> by node \<open>[1]\<close>.\<close>

definition wo_peers :: "transport_guard \<Rightarrow> peer items" where
  "wo_peers g = concat (map tagged_items (en_inner (discover (add_backend (registry_new [1])
     (mdns_backend_feeds wu_codec [MdnsDiscovered [2] (tg_user_data g)] mdns_backend_new)) ''B'')))"

theorem announced_service_is_reached_witness:
  "\<exists>g events s. transport_spawn (\<lambda>n. 0 < n) wu_codec wt_builder = Returned (Inr g) \<and>
     drive_open (locator_start wl_opts) (engine_run [1] {} (map (\<lambda>x. Ready (Some x)) (wo_peers g))) events =
       Some ((Racing, s :: nat locator_state), []) \<and> caught_up s [] \<and> [2] \<in> set (ls_attempted s)"
proof -
  obtain ud where "encode_alpns wu_codec [service_to_alpn ''A'', service_to_alpn ''B''] = Inr ud"
    by (simp add: encode_alpns_def wu_codec_def service_to_alpn_def into_bytes_def)
  then obtain g where g: "transport_spawn (\<lambda>n. 0 < n) wu_codec wt_builder = Returned (Inr g)"
    by (simp add: wt_builder_eq transport_spawn_def Let_def register_def)
  let ?script = "map (\<lambda>x. Ready (Some x)) (wo_peers g)" and ?shown = "[MdnsDiscovered [2] (tg_user_data g)]"
  let ?r = "add_backend (registry_new [1]) (mdns_backend_feeds wu_codec ?shown mdns_backend_new)"
  obtain events and s :: "nat locator_state" where
    run: "drive_open (locator_start wl_opts) (engine_run [1] {} ?script) events = Some ((Racing, s), [])" "caught_up s []"
      "answered_by (pool_attempt wp_dial) events"
    using open_start_catches_up by blast
  have r: "mdns_backend_feeds wu_codec ?shown mdns_backend_new \<in> set (rg_backends ?r)" "rg_local_id ?r = [1]"
    by (simp_all add: add_backend_def registry_new_def)
  have merge: "select_all_merges ?script (en_inner (discover ?r ''B''))"
    by (simp add: select_all_merges_def wo_peers_def script_items_def List.map_filter_def comp_def)
  have svc: "''B'' \<in> set (tb_services wt_builder)" "0 < lc_max_inflight wl_opts" by (simp_all add: wt_builder_eq wl_opts_def)
  have ids: "MdnsDiscovered [2] (tg_user_data g) \<in> set ?shown" "[2] \<noteq> rg_local_id ?r" by (simp_all add: r)
  from announced_service_is_reached [OF wt_builder_def wu_codec_round_trip g svc(1) ids(1) r(1) ids(2) svc(2) wp_reachable
      merge _ run(3)] run(1,2)
  have "[2] \<in> set (ls_attempted s)" by (simp add: r)
  with g run(1,2) show ?thesis by blast
qed

end
