(* ===== verification/Otel.thy ===== *)
theory Otel
  imports Alpn
begin

text \<open>
  \<^verbatim>\<open>src/otel.rs\<close>: the trace context is written into the metadata of a request by the client's interceptor
  and read from the headers by the server's layer. The propagator of the opentelemetry crate and the
  header maps of the http and tonic crates are parameters: a propagator writes by a list of calls of
  \<open>set\<close>, and reads through \<open>get\<close> and \<open>keys\<close>.
\<close>

section \<open>Definitions\<close>

text \<open>The metadata map: a key is checked and put into its normal form, a value is checked, and a value
  that was sent may not be text.\<close>

record ('m, 'v) metadata =
  md_key :: "bytes \<Rightarrow> string option"
  md_value :: "string \<Rightarrow> 'v option"
  md_insert :: "'m \<Rightarrow> string \<Rightarrow> 'v \<Rightarrow> 'm"
  md_get :: "'m \<Rightarrow> string \<Rightarrow> 'v option"
  md_keys :: "'m \<Rightarrow> string list"
  md_to_str :: "'v \<Rightarrow> string option"

text \<open>\<open>MetadataInjector::set\<close>: a key or a value that is not allowed is dropped without an error.\<close>

definition injector_set :: "('m, 'v) metadata \<Rightarrow> 'm \<Rightarrow> string \<Rightarrow> string \<Rightarrow> 'm" where
  "injector_set md m key value =
     (case md_key md (into_bytes key) of
        Some k \<Rightarrow> (case md_value md value of Some v \<Rightarrow> md_insert md m k v | None \<Rightarrow> m)
      | None \<Rightarrow> m)"

definition extractor_get :: "('m, 'v) metadata \<Rightarrow> 'm \<Rightarrow> string \<Rightarrow> string option" where
  "extractor_get md m key = Option.bind (md_get md m key) (md_to_str md)"

definition extractor_keys :: "('m, 'v) metadata \<Rightarrow> 'm \<Rightarrow> string list" where
  "extractor_keys md m = md_keys md m"

record 'cx propagator =
  pr_inject :: "'cx \<Rightarrow> (string \<times> string) list"
  pr_extract :: "(string \<Rightarrow> string option) \<Rightarrow> string list \<Rightarrow> 'cx"

text \<open>\<open>TraceContextInjector::call\<close> on the metadata of the request; it never refuses the request.\<close>

definition injector_call :: "('m, 'v) metadata \<Rightarrow> 'cx propagator \<Rightarrow> 'cx \<Rightarrow> 'm \<Rightarrow> string + 'm" where
  "injector_call md pr cx m = Inr (foldl (\<lambda>m (key, value). injector_set md m key value) m (pr_inject pr cx))"

record 's trace_context_service =
  tc_inner :: 's

definition trace_context_layer :: "'s \<Rightarrow> 's trace_context_service" where
  "trace_context_layer inner = \<lparr>tc_inner = inner\<rparr>"

definition trace_context_name :: "('s \<Rightarrow> string) \<Rightarrow> 's trace_context_service \<Rightarrow> string" where
  "trace_context_name name_of svc = name_of (tc_inner svc)"

definition trace_poll_ready :: "('s \<Rightarrow> 'a \<times> 's) \<Rightarrow> 's trace_context_service \<Rightarrow> 'a \<times> 's trace_context_service" where
  "trace_poll_ready inner_poll svc = (case inner_poll (tc_inner svc) of (a, s) \<Rightarrow> (a, svc\<lparr>tc_inner := s\<rparr>))"

text \<open>\<open>TraceContextService::call\<close>: the parent of the span, and the call that is made inside it: the instance
  that was polled is called, its clone takes its place.\<close>

record ('s, 'q, 'cx) span_call =
  sc_parent :: 'cx
  sc_method :: string
  sc_service :: 's
  sc_request :: 'q

definition trace_call :: "('m, 'v) metadata \<Rightarrow> 'cx propagator \<Rightarrow> ('q \<Rightarrow> 'm) \<Rightarrow> ('q \<Rightarrow> string) \<Rightarrow> ('s \<Rightarrow> 's)
    \<Rightarrow> 's trace_context_service \<Rightarrow> 'q \<Rightarrow> ('s, 'q, 'cx) span_call \<times> 's trace_context_service" where
  "trace_call md pr headers path clone svc request =
     (\<lparr>sc_parent = pr_extract pr (extractor_get md (headers request)) (extractor_keys md (headers request)),
       sc_method = path request, sc_service = tc_inner svc, sc_request = request\<rparr>,
      svc\<lparr>tc_inner := clone (tc_inner svc)\<rparr>)"

section \<open>Laws of the third-party code\<close>

text \<open>A header map is read back: an insert under one key does not disturb another, and a valid value is
  its own text.\<close>

definition header_map_laws :: "('m, 'v) metadata \<Rightarrow> bool" where
  "header_map_laws md \<longleftrightarrow>
     (\<forall>m k v k'. md_get md (md_insert md m k v) k' = (if k' = k then Some v else md_get md m k')) \<and>
     (\<forall>s v. md_value md s = Some v \<longrightarrow> md_to_str md v = Some s)"

text \<open>A propagator reads back the context whose fields it wrote, whatever the other headers are.\<close>

definition propagator_reads_back :: "'cx propagator \<Rightarrow> 'cx \<Rightarrow> bool" where
  "propagator_reads_back pr cx \<longleftrightarrow> (\<forall>g ks. (\<forall>(k, v) \<in> set (pr_inject pr cx). g k = Some v) \<longrightarrow> pr_extract pr g ks = cx)"

definition valid_fields :: "('m, 'v) metadata \<Rightarrow> (string \<times> string) list \<Rightarrow> bool" where
  "valid_fields md kvs \<longleftrightarrow> distinct (map fst kvs) \<and>
     (\<forall>(k, v) \<in> set kvs. md_key md (into_bytes k) = Some k \<and> md_value md v \<noteq> None)"

section \<open>Properties\<close>

lemma get_set:
  assumes "header_map_laws md" and "md_key md (into_bytes key) = Some key"
  shows "extractor_get md (injector_set md m key value) k =
    (if k = key \<and> md_value md value \<noteq> None then Some value else extractor_get md m k)"
  using assms by (auto simp: header_map_laws_def extractor_get_def injector_set_def split: option.splits)

lemma get_set_list:
  assumes "header_map_laws md" and "valid_fields md kvs"
  shows "extractor_get md (foldl (\<lambda>m (k, v). injector_set md m k v) m kvs) k =
    (case map_of kvs k of Some v \<Rightarrow> Some v | None \<Rightarrow> extractor_get md m k)"
  using assms(2)
proof (induction kvs arbitrary: m)
  case (Cons kv kvs)
  obtain key text_value where kv: "kv = (key, text_value)" by (cases kv)
  have "map_of kvs key = None" and "valid_fields md kvs"
    using Cons.prems by (auto simp: kv valid_fields_def map_of_eq_None_iff)
  with Cons get_set [OF assms(1), of key] show ?case by (auto simp: kv valid_fields_def split: option.split)
qed simp

text \<open>The trace of a call spans both sides: a request sent through the client's interceptor gets, at a
  server wrapped in the layer, a span whose parent is the context of the caller, whatever headers the
  request carried before; and the instance that was polled for readiness is the one that is called.\<close>

lemma trace_context_round_trip:
  assumes "header_map_laws md" and "valid_fields md (pr_inject pr cx)" and "propagator_reads_back pr cx"
    and "injector_call md pr cx m = Inr (headers request)"
  shows "sc_parent (fst (trace_call md pr headers path clone svc request)) = cx \<and>
    sc_service (fst (trace_call md pr headers path clone svc request)) = tc_inner svc"
proof -
  have "extractor_get md (headers request) k = Some v" if "(k, v) \<in> set (pr_inject pr cx)" for k v
    using assms(4) get_set_list [OF assms(1,2)] that assms(2)
    by (auto simp: injector_call_def valid_fields_def dest!: sym [of _ "headers request"])
  with assms(3) show ?thesis by (auto simp: trace_call_def propagator_reads_back_def)
qed

text \<open>Wrapping a service changes neither its name nor the protocol it is served under.\<close>

lemma trace_context_alpn:
  "service_to_alpn (trace_context_name name_of (trace_context_layer inner)) = service_to_alpn (name_of inner)"
  by (simp add: trace_context_name_def trace_context_layer_def)

end
