(* ===== verification/Chat.thy ===== *)
theory Chat
  imports Stream
begin

text \<open>
  \<^verbatim>\<open>examples/chat/src/main.rs\<close>: the state of the chat node, its two services, the benchmark loop and the
  small helpers. Random bytes, the clock and what the tokio channels answer are parameters. The
  protobuf messages are records with the fields the example reads and writes.
\<close>

section \<open>Definitions: messages and state\<close>

record chat_message =
  cm_id :: string
  cm_sender_id :: string
  cm_recipient_id :: string
  cm_content :: string
  cm_timestamp :: int
  cm_type :: int

definition message_type_text :: int where
  "message_type_text = 1"

text \<open>\<open>cs_subscribers\<close> lists what each subscriber's channel was sent; \<open>cs_shutdowns\<close> counts the signals on
  the shutdown channel.\<close>

record chat_state =
  cs_messages :: "chat_message list"
  cs_subscribers :: "(string \<times> chat_message list) list"
  cs_node_id :: string
  cs_request_count :: u64
  cs_max_requests :: "u64 option"
  cs_shutdowns :: nat

definition chat_state_new :: "string \<Rightarrow> u64 option \<Rightarrow> chat_state" where
  "chat_state_new node max_requests =
     \<lparr>cs_messages = [], cs_subscribers = [], cs_node_id = node, cs_request_count = 0,
      cs_max_requests = max_requests, cs_shutdowns = 0\<rparr>"

text \<open>The message is stored, then sent to every subscriber. What a subscriber's channel does: it takes the
  message, it is closed, which is logged, or it has not taken it, because it has no room or because the loop
  still waits at another one. Then the call does not return. The order of the table is open.\<close>

datatype sub_answer = SubTakes | SubGone | SubWaits

definition add_message :: "(string \<Rightarrow> sub_answer) \<Rightarrow> chat_state \<Rightarrow> chat_message \<Rightarrow> bool \<times> chat_state" where
  "add_message subs st message =
     (list_all (\<lambda>(i, _). subs i \<noteq> SubWaits) (cs_subscribers st),
      st\<lparr>cs_messages := cs_messages st @ [message],
         cs_subscribers := map (\<lambda>(i, sent). (i, if subs i = SubTakes then sent @ [message] else sent)) (cs_subscribers st)\<rparr>)"

definition add_subscriber :: "chat_state \<Rightarrow> string \<Rightarrow> chat_state" where
  "add_subscriber st i = st\<lparr>cs_subscribers := filter (\<lambda>(j, _). j \<noteq> i) (cs_subscribers st) @ [(i, [])]\<rparr>"

definition remove_subscriber :: "chat_state \<Rightarrow> string \<Rightarrow> chat_state" where
  "remove_subscriber st i = st\<lparr>cs_subscribers := filter (\<lambda>(j, _). j \<noteq> i) (cs_subscribers st)\<rparr>"

section \<open>Definitions: the chat service\<close>

record send_message_request =
  sm_recipient_id :: string
  sm_content :: string
  sm_timestamp :: int

record send_message_response =
  sr_success :: bool
  sr_error :: string
  sr_message_id :: string

text \<open>\<open>send_message\<close>: no response while \<open>add_message\<close> waits.\<close>

definition chat_send_message :: "(string \<Rightarrow> sub_answer) \<Rightarrow> string \<Rightarrow> chat_state \<Rightarrow> send_message_request
    \<Rightarrow> send_message_response option \<times> chat_state" where
  "chat_send_message subs uuid st req =
     (let message = \<lparr>cm_id = uuid, cm_sender_id = cs_node_id st, cm_recipient_id = sm_recipient_id req,
                     cm_content = sm_content req, cm_timestamp = sm_timestamp req, cm_type = message_type_text\<rparr>
      in case add_message subs st message of
           (False, st) \<Rightarrow> (None, st)
         | (True, st) \<Rightarrow>
             (let count = cs_request_count st + 1;
                  st = st\<lparr>cs_request_count := count\<rparr>;
                  st = (case cs_max_requests st of
                          Some mx \<Rightarrow> (if count \<ge> mx then st\<lparr>cs_shutdowns := Suc (cs_shutdowns st)\<rparr> else st)
                        | None \<Rightarrow> st)
              in (Some \<lparr>sr_success = True, sr_error = '''', sr_message_id = uuid\<rparr>, st)))"

text \<open>\<open>subscribe_messages\<close>: the forwarding task is started, then the channel is entered into the table. What
  the task does later is the step relation below.\<close>

definition chat_subscribe_messages :: "string \<Rightarrow> chat_state \<Rightarrow> chat_state" where
  "chat_subscribe_messages uuid st = add_subscriber st uuid"

record get_history_request =
  gh_peer_id :: string
  gh_limit :: int
  gh_before_timestamp :: int

text \<open>\<open>i32 as usize\<close> on a 64-bit target: sign extension, read as an unsigned number.\<close>

definition usize_of_i32 :: "int \<Rightarrow> nat" where
  "usize_of_i32 n = nat (n mod 2 ^ 64)"

definition history_matches :: "get_history_request \<Rightarrow> chat_message \<Rightarrow> bool" where
  "history_matches req msg \<longleftrightarrow>
     (cm_sender_id msg = gh_peer_id req \<or> cm_recipient_id msg = gh_peer_id req) \<and>
     (gh_before_timestamp req = 0 \<or> cm_timestamp msg < gh_before_timestamp req)"

definition chat_get_history :: "chat_state \<Rightarrow> get_history_request \<Rightarrow> chat_message list \<times> bool" where
  "chat_get_history st req =
     (let filtered = take (usize_of_i32 (gh_limit req)) (filter (history_matches req) (cs_messages st))
      in (filtered, length filtered = usize_of_i32 (gh_limit req)))"

text \<open>The task of \<open>chat_stream\<close>: the requests the client sends (an error ends the stream), with the id and
  time of each answer and whether the client still takes it.\<close>

record chat_round =
  cr_item :: "string + chat_message option"
  cr_uuid :: string
  cr_now :: int
  cr_taken :: bool

fun chat_stream_task :: "(string \<Rightarrow> sub_answer) \<Rightarrow> chat_state \<Rightarrow> chat_round list
    \<Rightarrow> (string + chat_message) list \<times> chat_state" where
  "chat_stream_task subs st [] = ([], st)"
| "chat_stream_task subs st (rnd # rest) =
     (case cr_item rnd of
        Inl e \<Rightarrow> (if cr_taken rnd then [Inl e] else [], st)
      | Inr None \<Rightarrow> chat_stream_task subs st rest
      | Inr (Some message) \<Rightarrow>
          (case add_message subs st message of
             (False, st) \<Rightarrow> ([], st)
           | (True, st) \<Rightarrow>
               (let response = \<lparr>cm_id = cr_uuid rnd, cm_sender_id = cs_node_id st, cm_recipient_id = cm_sender_id message,
                                cm_content = ''Echo: '' @ cm_content message, cm_timestamp = cr_now rnd,
                                cm_type = message_type_text\<rparr>
                in if cr_taken rnd
                   then (case chat_stream_task subs st rest of (out, st') \<Rightarrow> (Inr response # out, st'))
                   else ([], st))))"

section \<open>Definitions: the node service and helpers\<close>

definition node_shutdown :: "chat_state \<Rightarrow> chat_state" where
  "node_shutdown st = st\<lparr>cs_shutdowns := Suc (cs_shutdowns st)\<rparr>"

record node_info =
  ni_node_id :: string
  ni_addresses :: "string list"
  ni_version :: string
  ni_uptime_seconds :: int
  ni_connected_peers :: int

text \<open>\<open>as i64\<close> reads the 64 bits of the elapsed seconds as a signed number.\<close>

definition get_node_info :: "string \<Rightarrow> u64 \<Rightarrow> chat_state \<Rightarrow> node_info" where
  "get_node_info version elapsed_secs st =
     \<lparr>ni_node_id = cs_node_id st, ni_addresses = [], ni_version = version,
      ni_uptime_seconds = sint elapsed_secs, ni_connected_peers = 0\<rparr>"

definition node_ping :: "int \<Rightarrow> int \<times> string \<Rightarrow> int \<times> int \<times> string" where
  "node_ping now req = (fst req, now, snd req)"

text \<open>\<open>DateTime::timestamp\<close>: whole seconds since the epoch, zero before it.\<close>

definition utc_timestamp :: "u64 option \<Rightarrow> int" where
  "utc_timestamp now = (case now of None \<Rightarrow> 0 | Some secs \<Rightarrow> sint secs)"

text \<open>\<open>format_timestamp\<close>: \<open>as u64\<close> wraps a negative number, and adding a duration that the clock's signed
  seconds cannot hold panics (\<open>None\<close>).\<close>

definition int_display :: "int \<Rightarrow> string" where
  "int_display n = (if n < 0 then ''-'' @ nat_display (nat (- n)) else nat_display (nat n))"

definition format_timestamp :: "nat \<Rightarrow> int \<Rightarrow> string option" where
  "format_timestamp now_nanos timestamp =
     (let secs = nat (timestamp mod 2 ^ 64)
      in if secs \<ge> 2 ^ 63 then None
         else if secs * 10 ^ 9 \<ge> now_nanos then Some (''future+'' @ int_display timestamp @ ''s'')
         else Some (nat_display ((now_nanos - secs * 10 ^ 9) div 10 ^ 9) @ ''s ago''))"

text \<open>\<open>uuid::new_v4\<close>: the 64-bit hash, widened to 128 bits, in 32 hexadecimal digits.\<close>

definition hex_digit :: "nat \<Rightarrow> char" where
  "hex_digit d = char_of (if d < 10 then 48 + d else 87 + d)"

primrec hex_digits :: "nat \<Rightarrow> nat \<Rightarrow> string" where
  "hex_digits 0 n = []"
| "hex_digits (Suc w) n = hex_digits w (n div 16) @ [hex_digit (n mod 16)]"

definition uuid_new_v4 :: "u64 \<Rightarrow> string" where
  "uuid_new_v4 hash = hex_digits 32 (unat hash)"

text \<open>The difference of two \<open>i64\<close> of the response: an overflow panics (\<open>None\<close>) when overflow checks are on and
  wraps otherwise.\<close>

definition ping_rtt :: "bool \<Rightarrow> int \<Rightarrow> int \<Rightarrow> int option" where
  "ping_rtt overflow_checks request_timestamp response_timestamp =
     (let d = response_timestamp - request_timestamp
      in if - (2 ^ 63) \<le> d \<and> d < 2 ^ 63 then Some d
         else if overflow_checks then None
         else Some ((d + 2 ^ 63) mod 2 ^ 64 - 2 ^ 63))"

section \<open>Definitions: the benchmark\<close>

text \<open>
  \<open>benchmark_messages\<close>. A round of the outer loop is the number of times its clock still allows a new
  message and the outcome of the task that is joined; \<open>bn_contents\<close> are the messages sent. The last
  loop joins what is left; \<open>None\<close> is a wait for a task that has not ended.
\<close>

record bench =
  bn_contents :: "string list"
  bn_message_count :: nat
  bn_error_count :: nat
  bn_tasks :: nat

definition bench_new :: bench where
  "bench_new = \<lparr>bn_contents = [], bn_message_count = 0, bn_error_count = 0, bn_tasks = 0\<rparr>"

fun bench_fill :: "string \<Rightarrow> nat \<Rightarrow> nat \<Rightarrow> bench \<Rightarrow> bench" where
  "bench_fill content max_concurrent 0 b = b"
| "bench_fill content max_concurrent (Suc allowed) b =
     (if bn_tasks b < max_concurrent
      then bench_fill content max_concurrent allowed
             (b\<lparr>bn_contents := bn_contents b @ [content @ '' #'' @ nat_display (bn_message_count b)],
                bn_message_count := Suc (bn_message_count b), bn_tasks := Suc (bn_tasks b)\<rparr>)
      else b)"

definition bench_join :: "bool \<Rightarrow> bench \<Rightarrow> bench" where
  "bench_join ok b =
     (if bn_tasks b = 0 then b
      else b\<lparr>bn_tasks := bn_tasks b - 1, bn_error_count := bn_error_count b + (if ok then 0 else 1)\<rparr>)"

definition bench_round :: "string \<Rightarrow> nat \<Rightarrow> bench \<Rightarrow> nat \<times> bool \<Rightarrow> bench" where
  "bench_round content max_concurrent b = (\<lambda>(allowed, ok). bench_join ok (bench_fill content max_concurrent allowed b))"

fun bench_drain :: "bool list \<Rightarrow> bench \<Rightarrow> bench option" where
  "bench_drain [] b = (if bn_tasks b = 0 then Some b else None)"
| "bench_drain (ok # oks) b = (if bn_tasks b = 0 then Some b else bench_drain oks (bench_join ok b))"

definition benchmark_messages :: "string \<Rightarrow> nat \<Rightarrow> (nat \<times> bool) list \<Rightarrow> bool list \<Rightarrow> bench option" where
  "benchmark_messages content max_concurrent rounds oks =
     bench_drain oks (foldl (bench_round content max_concurrent) bench_new rounds)"

section \<open>Subscribers and locks\<close>

text \<open>
  One subscriber and the callers of \<open>add_message\<close>, step by step: each of them holds the read lock of the
  subscriber table while it waits for room in the subscriber's channel; the forwarding task of
  \<open>subscribe_messages\<close> takes messages out and sends them on to the client; when the client is gone it
  leaves its loop and asks for the write lock, with the receiver of the channel still alive. The lock
  is tokio's fair one: no new reader gets in while a writer waits.
\<close>

definition SUBSCRIBER_CAPACITY :: nat where
  "SUBSCRIBER_CAPACITY = 100"

datatype forwarder = Receiving | Forwarding | Removing | Removed

record sub_sys =
  sb_queue :: nat
  sb_results :: nat
  sb_forwarder :: forwarder
  sb_adding :: nat
  sb_client_gone :: bool

definition sub_new :: sub_sys where
  "sub_new = \<lparr>sb_queue = 0, sb_results = 0, sb_forwarder = Receiving, sb_adding = 0, sb_client_gone = False\<rparr>"

inductive sub_step :: "sub_sys \<Rightarrow> sub_sys \<Rightarrow> bool" where
  add_lock: "sb_forwarder s \<noteq> Removing \<Longrightarrow> sb_forwarder s \<noteq> Removed \<Longrightarrow>
     sub_step s (s\<lparr>sb_adding := Suc (sb_adding s)\<rparr>)"
| add_send: "0 < sb_adding s \<Longrightarrow> sb_queue s < SUBSCRIBER_CAPACITY \<Longrightarrow> sb_forwarder s \<noteq> Removed \<Longrightarrow>
     sub_step s (s\<lparr>sb_adding := sb_adding s - 1, sb_queue := Suc (sb_queue s)\<rparr>)"
| recv: "sb_forwarder s = Receiving \<Longrightarrow> 0 < sb_queue s \<Longrightarrow>
     sub_step s (s\<lparr>sb_forwarder := Forwarding, sb_queue := sb_queue s - 1\<rparr>)"
| forward: "sb_forwarder s = Forwarding \<Longrightarrow> \<not> sb_client_gone s \<Longrightarrow> sb_results s < SUBSCRIBER_CAPACITY \<Longrightarrow>
     sub_step s (s\<lparr>sb_forwarder := Receiving, sb_results := Suc (sb_results s)\<rparr>)"
| forward_fails: "sb_forwarder s = Forwarding \<Longrightarrow> sb_client_gone s \<Longrightarrow> sub_step s (s\<lparr>sb_forwarder := Removing\<rparr>)"
| client_reads: "\<not> sb_client_gone s \<Longrightarrow> 0 < sb_results s \<Longrightarrow> sub_step s (s\<lparr>sb_results := sb_results s - 1\<rparr>)"
| client_leaves: "\<not> sb_client_gone s \<Longrightarrow> sub_step s (s\<lparr>sb_client_gone := True\<rparr>)"
| remove: "sb_forwarder s = Removing \<Longrightarrow> sb_adding s = 0 \<Longrightarrow> sub_step s (s\<lparr>sb_forwarder := Removed\<rparr>)"

inductive_cases sub_stepE: "sub_step s s'"

inductive sub_reachable :: "sub_sys \<Rightarrow> bool" where
  start: "sub_reachable sub_new"
| step: "sub_reachable s \<Longrightarrow> sub_step s s' \<Longrightarrow> sub_reachable s'"

definition sub_at :: "nat \<Rightarrow> nat \<Rightarrow> forwarder \<Rightarrow> nat \<Rightarrow> sub_sys" where
  "sub_at q r f adding = \<lparr>sb_queue = q, sb_results = r, sb_forwarder = f, sb_adding = adding, sb_client_gone = False\<rparr>"

lemma sub_at_fields [simp]:
  "sb_queue (sub_at q r f a) = q" "sb_results (sub_at q r f a) = r" "sb_forwarder (sub_at q r f a) = f"
  "sb_adding (sub_at q r f a) = a" "sb_client_gone (sub_at q r f a) = False"
  by (simp_all add: sub_at_def)

lemma sub_add:
  assumes "sub_reachable (sub_at q r f 0)" and "q < SUBSCRIBER_CAPACITY" and "f = Receiving \<or> f = Forwarding"
  shows "sub_reachable (sub_at (Suc q) r f 0)"
proof -
  have "sub_reachable (sub_at q r f 1)"
    using sub_reachable.step [OF assms(1) add_lock] assms(3) by (auto simp: sub_at_def)
  from sub_reachable.step [OF this add_send] assms(2,3) show ?thesis by (auto simp: sub_at_def)
qed

lemma sub_recv: "sub_reachable (sub_at (Suc q) r Receiving 0) \<Longrightarrow> sub_reachable (sub_at q r Forwarding 0)"
  using sub_reachable.step [OF _ recv] by (force simp: sub_at_def)

lemma sub_results: "r \<le> SUBSCRIBER_CAPACITY \<Longrightarrow> sub_reachable (sub_at 0 r Receiving 0)"
proof (induction r)
  case 0
  show ?case using sub_reachable.start by (simp add: sub_at_def sub_new_def)
next
  case (Suc r)
  then have "sub_reachable (sub_at (Suc 0) r Receiving 0)"
    by (intro sub_add) (auto simp: SUBSCRIBER_CAPACITY_def)
  then have "sub_reachable (sub_at 0 r Forwarding 0)" by (rule sub_recv)
  from sub_reachable.step [OF this forward] Suc.prems show ?case by (simp add: sub_at_def)
qed

lemma sub_full: "q \<le> SUBSCRIBER_CAPACITY \<Longrightarrow> sub_reachable (sub_at q SUBSCRIBER_CAPACITY Forwarding 0)"
proof (induction q)
  case 0
  have "sub_reachable (sub_at (Suc 0) SUBSCRIBER_CAPACITY Receiving 0)"
    by (intro sub_add sub_results) (auto simp: SUBSCRIBER_CAPACITY_def)
  then show ?case by (rule sub_recv)
next
  case (Suc q)
  then show ?case by (intro sub_add) auto
qed

section \<open>Properties\<close>

text \<open>The benchmark numbers its messages in order, never runs more than the given number at once, and at
  the end the errors are at most the messages, so the number of successes does not underflow.\<close>

definition bench_inv :: "string \<Rightarrow> nat \<Rightarrow> bench \<Rightarrow> bool" where
  "bench_inv content mx b \<longleftrightarrow> bn_tasks b \<le> mx \<and> bn_error_count b + bn_tasks b \<le> bn_message_count b \<and>
     bn_contents b = map (\<lambda>k. content @ '' #'' @ nat_display k) [0 ..< bn_message_count b]"

lemma bench_fill_inv: "bench_inv content mx b \<Longrightarrow> bench_inv content mx (bench_fill content mx n b)"
  by (induction content mx n b rule: bench_fill.induct) (simp_all add: bench_inv_def)

lemma bench_join_inv: "bench_inv content mx b \<Longrightarrow> bench_inv content mx (bench_join ok b)"
  by (auto simp: bench_inv_def bench_join_def)

interpretation bench: machine "bench_round content mx" "bench_inv content mx" for content mx
  by unfold_locales (auto simp: bench_round_def bench_fill_inv bench_join_inv split: prod.splits)

lemma bench_drain_inv:
  "bench_drain oks b = Some b' \<Longrightarrow> bench_inv content mx b \<Longrightarrow> bench_inv content mx b' \<and> bn_tasks b' = 0"
  by (induction oks b rule: bench_drain.induct) (auto simp: bench_join_inv split: if_splits)

lemma bench_drain_returns: "bn_tasks b \<le> length oks \<Longrightarrow> \<exists>b'. bench_drain oks b = Some b'"
  by (induction oks b rule: bench_drain.induct) (auto simp: bench_join_def)

lemma benchmark_messages_correct:
  assumes "benchmark_messages content mx rounds oks = Some b"
  shows "bn_error_count b \<le> bn_message_count b \<and>
    bn_contents b = map (\<lambda>k. content @ '' #'' @ nat_display k) [0 ..< bn_message_count b]"
proof -
  have "bench_inv content mx bench_new" by (simp add: bench_inv_def bench_new_def)
  from bench_drain_inv [OF assms [unfolded benchmark_messages_def] bench.run_inv [OF this]]
  show ?thesis by (simp add: bench_inv_def)
qed

text \<open>Once every task it started ends, the benchmark returns: at most \<open>mx\<close> are left for the last loop.\<close>

lemma benchmark_messages_returns:
  assumes "mx \<le> length oks"
  shows "\<exists>b. benchmark_messages content mx rounds oks = Some b"
proof -
  have "bench_inv content mx bench_new" by (simp add: bench_inv_def bench_new_def)
  from bench.run_inv [OF this, of rounds] assms show ?thesis
    unfolding benchmark_messages_def by (intro bench_drain_returns) (simp add: bench_inv_def)
qed

text \<open>Message ids have 32 digits, and different hashes give different ids.\<close>

lemma length_hex_digits [simp]: "length (hex_digits w n) = w"
  by (induction w arbitrary: n) simp_all

lemma hex_digit_inj:
  assumes "a < 16" and "b < 16"
  shows "hex_digit a = hex_digit b \<longleftrightarrow> a = b"
proof
  assume "hex_digit a = hex_digit b"
  then have "of_char (hex_digit a) = (of_char (hex_digit b) :: nat)" by simp
  with assms show "a = b" by (auto simp: hex_digit_def split: if_splits)
qed simp

lemma hex_digits_inj: "m < 16 ^ w \<Longrightarrow> n < 16 ^ w \<Longrightarrow> hex_digits w m = hex_digits w n \<longleftrightarrow> m = n"
proof (induction w arbitrary: m n)
  case (Suc w)
  have "hex_digits (Suc w) m = hex_digits (Suc w) n \<longleftrightarrow> m div 16 = n div 16 \<and> m mod 16 = n mod 16"
    using Suc by (simp add: hex_digit_inj less_mult_imp_div_less mult.commute)
  then show ?case by (metis div_mult_mod_eq)
qed simp

lemma uuid_new_v4_inj: "uuid_new_v4 h = uuid_new_v4 h' \<longleftrightarrow> h = h'"
proof -
  have "unat x < 16 ^ 32" for x :: u64
    using unsigned_less [where 'a = nat, of x] by simp
  then show ?thesis unfolding uuid_new_v4_def by (simp only: hex_digits_inj word_eq_iff_unsigned [where 'a = nat])
qed

lemma send_message_state:
  "cs_messages (snd (chat_send_message subs u st req)) =
     cs_messages st @ [\<lparr>cm_id = u, cm_sender_id = cs_node_id st, cm_recipient_id = sm_recipient_id req,
       cm_content = sm_content req, cm_timestamp = sm_timestamp req, cm_type = message_type_text\<rparr>]"
  "cs_request_count (snd (chat_send_message subs u st req)) =
     cs_request_count st + (if fst (chat_send_message subs u st req) = None then 0 else 1)"
  "cs_max_requests (snd (chat_send_message subs u st req)) = cs_max_requests st"
  "cs_node_id (snd (chat_send_message subs u st req)) = cs_node_id st"
  "cs_shutdowns (snd (chat_send_message subs u st req)) =
     cs_shutdowns st + (case cs_max_requests st of
       Some mx \<Rightarrow> if fst (chat_send_message subs u st req) \<noteq> None \<and> mx \<le> cs_request_count st + 1 then 1 else 0 | None \<Rightarrow> 0)"
  by (simp_all add: chat_send_message_def add_message_def Let_def split: option.split bool.split)

lemma stream_task_state:
  "cs_request_count (snd (chat_stream_task subs st rounds)) = cs_request_count st \<and>
   cs_max_requests (snd (chat_stream_task subs st rounds)) = cs_max_requests st \<and>
   cs_shutdowns (snd (chat_stream_task subs st rounds)) = cs_shutdowns st"
proof (induction rounds arbitrary: st)
  case (Cons rnd rest)
  note ih = Cons.IH
  show ?case
  proof (cases "\<exists>m. cr_item rnd = Inr (Some m)")
    case True
    then obtain m where m: "cr_item rnd = Inr (Some m)" by blast
    obtain ok st1 where st1: "add_message subs st m = (ok, st1)" by fastforce
    then have "cs_request_count st1 = cs_request_count st" "cs_max_requests st1 = cs_max_requests st"
        "cs_shutdowns st1 = cs_shutdowns st" by (auto simp: add_message_def)
    with m st1 ih [of st1] show ?thesis by (auto simp: Let_def split: bool.split prod.split)
  next
    case False
    with ih [of st] show ?thesis by (auto split: sum.split option.split)
  qed
qed simp

text \<open>What changes the state of a node: requests, and the end of a subscriber's task. Requests are listed in the
  order in which they return, those that have not returned at any place.\<close>

datatype node_op =
    SendOp "string \<Rightarrow> sub_answer" string send_message_request
  | StreamOp "string \<Rightarrow> sub_answer" "chat_round list"
  | SubscribeOp string
  | UnsubscribeOp string
  | ShutdownOp

fun apply_node_op :: "chat_state \<Rightarrow> node_op \<Rightarrow> chat_state" where
  "apply_node_op st (SendOp subs uuid req) = snd (chat_send_message subs uuid st req)"
| "apply_node_op st (StreamOp subs rounds) = snd (chat_stream_task subs st rounds)"
| "apply_node_op st (SubscribeOp uuid) = chat_subscribe_messages uuid st"
| "apply_node_op st (UnsubscribeOp i) = remove_subscriber st i"
| "apply_node_op st ShutdownOp = node_shutdown st"

text \<open>How many of them are calls of \<open>send_message\<close> that returned.\<close>

fun returned_sends :: "chat_state \<Rightarrow> node_op list \<Rightarrow> nat" where
  "returned_sends st [] = 0"
| "returned_sends st (op # ops) =
     (case op of SendOp subs uuid req \<Rightarrow> if fst (chat_send_message subs uuid st req) = None then 0 else 1 | _ \<Rightarrow> 0) +
     returned_sends (apply_node_op st op) ops"

text \<open>The shutdown is signalled by a shutdown request, and by the calls of \<open>send_message\<close> from the limit on.\<close>

lemma shutdown_signalled:
  assumes "unat (cs_request_count st) + length ops < 2 ^ 64"
  shows "0 < cs_shutdowns (foldl apply_node_op st ops) \<longleftrightarrow> 0 < cs_shutdowns st \<or> ShutdownOp \<in> set ops \<or>
    (case cs_max_requests st of
       None \<Rightarrow> False
     | Some mx \<Rightarrow> 0 < returned_sends st ops \<and> unat mx \<le> unat (cs_request_count st) + returned_sends st ops)"
  using assms
proof (induction ops arbitrary: st)
  case (Cons op ops)
  show ?case
  proof (cases "\<exists>subs uuid req. op = SendOp subs uuid req \<and> fst (chat_send_message subs uuid st req) \<noteq> None")
    case True
    then obtain subs uuid req where op: "op = SendOp subs uuid req" and ret: "fst (chat_send_message subs uuid st req) \<noteq> None"
      by blast
    have count: "unat (cs_request_count st + 1) = Suc (unat (cs_request_count st))"
      using Cons.prems by (subst unat_add_lem [THEN iffD1]) auto
    have "unat (cs_request_count (apply_node_op st op)) + length ops < 2 ^ 64"
      using Cons.prems ret by (simp add: op send_message_state count)
    from Cons.IH [OF this] ret show ?thesis
      by (auto simp: op send_message_state count word_le_nat_alt split: option.splits)
  next
    case False
    then have same: "cs_request_count (apply_node_op st op) = cs_request_count st"
        "cs_max_requests (apply_node_op st op) = cs_max_requests st"
        "0 < cs_shutdowns (apply_node_op st op) \<longleftrightarrow> 0 < cs_shutdowns st \<or> op = ShutdownOp"
        "returned_sends st (op # ops) = returned_sends (apply_node_op st op) ops"
      by (cases op; simp add: send_message_state stream_task_state chat_subscribe_messages_def add_subscriber_def
          remove_subscriber_def node_shutdown_def split: option.split)+
    have "unat (cs_request_count (apply_node_op st op)) + length ops < 2 ^ 64" using Cons.prems same(1) by simp
    from Cons.IH [OF this] show ?thesis unfolding same by (auto split: option.splits)
  qed
qed (simp split: option.split)

text \<open>A non-negative limit bounds the history, which is the beginning of what matches; it says that there
  is more exactly when it is full, also when nothing was left out.\<close>

lemma get_history_prefix:
  assumes "0 \<le> gh_limit req" and "gh_limit req < 2 ^ 31" and "chat_get_history st req = (found, has_more)"
  shows "found = take (nat (gh_limit req)) (filter (history_matches req) (cs_messages st)) \<and>
    (has_more \<longleftrightarrow> nat (gh_limit req) \<le> length (filter (history_matches req) (cs_messages st)))"
proof -
  have "usize_of_i32 (gh_limit req) = nat (gh_limit req)" using assms(1,2) by (simp add: usize_of_i32_def)
  with assms(3) show ?thesis by (auto simp: chat_get_history_def Let_def)
qed

text \<open>A negative timestamp, which any peer can put into a message, makes \<open>format_timestamp\<close> panic.\<close>

lemma format_timestamp_panics_iff:
  assumes "- (2 ^ 63) \<le> timestamp" and "timestamp < 2 ^ 63"
  shows "format_timestamp now_nanos timestamp = None \<longleftrightarrow> timestamp < 0"
proof (cases "timestamp < 0")
  case True
  then have "timestamp mod 2 ^ 64 = timestamp + 2 ^ 64"
    using assms mod_pos_pos_trivial [of "timestamp + 2 ^ 64" "2 ^ 64"] by simp
  with assms True show ?thesis by (auto simp: format_timestamp_def Let_def le_nat_iff)
next
  case False
  with assms have "timestamp mod 2 ^ 64 = timestamp" by simp
  with assms False show ?thesis by (simp add: format_timestamp_def Let_def nat_less_iff not_le)
qed

text \<open>A client that stops reading and then leaves can deadlock the chat node: there is a reachable state
  in which an \<open>add_message\<close> waits for room under the read lock, the subscriber's task waits for the
  write lock, and no step is possible any more.\<close>

lemma subscriber_deadlock:
  "\<exists>s. sub_reachable s \<and> 0 < sb_adding s \<and> sb_forwarder s = Removing \<and> (\<forall>s'. \<not> sub_step s s')"
proof -
  let ?n = SUBSCRIBER_CAPACITY
  let ?s = "sub_at ?n ?n Forwarding 1"
  let ?gone = "?s\<lparr>sb_client_gone := True\<rparr>"
  have "sub_reachable ?s"
    using sub_reachable.step [OF sub_full [OF order_refl] add_lock] by (simp add: sub_at_def)
  from sub_reachable.step [OF this client_leaves] have "sub_reachable ?gone" by simp
  from sub_reachable.step [OF this forward_fails] have "sub_reachable (?gone\<lparr>sb_forwarder := Removing\<rparr>)" by simp
  moreover have "\<not> sub_step (?gone\<lparr>sb_forwarder := Removing\<rparr>) s'" for s'
    by (auto elim!: sub_stepE)
  ultimately show ?thesis by (intro exI [of _ "?gone\<lparr>sb_forwarder := Removing\<rparr>"]) simp
qed

end
