(* ===== verification/Rpc.thy ===== *)
theory Rpc
  imports Alpn
begin

text \<open>
  The client and server stubs of the two examples, \<^verbatim>\<open>examples/chat/src/pb/p2p_chat.v1.rs\<close> and
  \<^verbatim>\<open>examples/echo/src/pb/echo.v1.rs\<close>: the path a client method calls, the method a server calls for a path,
  and the configuration of a server. Encoding and transport of a call are tonic's and prost's; here a
  call is its path, its kind and what the server hands to tonic.
\<close>

section \<open>Definitions\<close>

datatype rpc_kind = Unary | ServerStreaming | BidiStreaming

text \<open>What a client method hands to \<open>tonic::client::Grpc\<close>: the path, the method it calls there, and the
  \<open>GrpcMethod\<close> extension.\<close>

record client_stub =
  stub_path :: string
  stub_kind :: rpc_kind
  stub_service :: string
  stub_method :: string

text \<open>Every client method waits for the channel first.\<close>

definition client_call :: "(string + unit) \<Rightarrow> client_stub \<Rightarrow> string + client_stub" where
  "client_call ready stub =
     (case ready of Inl e \<Rightarrow> Inl (''Service was not ready: '' @ e) | Inr _ \<Rightarrow> Inr stub)"

record 'e server_config =
  sv_accept_compression :: "'e set"
  sv_send_compression :: "'e set"
  sv_max_decoding :: "nat option"
  sv_max_encoding :: "nat option"

definition server_from_arc :: "'e server_config" where
  "server_from_arc = \<lparr>sv_accept_compression = {}, sv_send_compression = {}, sv_max_decoding = None, sv_max_encoding = None\<rparr>"

definition server_accept_compressed :: "'e server_config \<Rightarrow> 'e \<Rightarrow> 'e server_config" where
  "server_accept_compressed cfg e = cfg\<lparr>sv_accept_compression := insert e (sv_accept_compression cfg)\<rparr>"

definition server_send_compressed :: "'e server_config \<Rightarrow> 'e \<Rightarrow> 'e server_config" where
  "server_send_compressed cfg e = cfg\<lparr>sv_send_compression := insert e (sv_send_compression cfg)\<rparr>"

definition server_max_decoding :: "'e server_config \<Rightarrow> nat \<Rightarrow> 'e server_config" where
  "server_max_decoding cfg limit = cfg\<lparr>sv_max_decoding := Some limit\<rparr>"

definition server_max_encoding :: "'e server_config \<Rightarrow> nat \<Rightarrow> 'e server_config" where
  "server_max_encoding cfg limit = cfg\<lparr>sv_max_encoding := Some limit\<rparr>"

text \<open>The answer to a path that is not one of the service: HTTP status 200 (the default of a new
  response), \<open>grpc-status\<close> 12 (\<open>Code::Unimplemented\<close>) and the gRPC content type.\<close>

record http_reply =
  hr_status :: nat
  hr_headers :: "(string \<times> string) list"

definition unimplemented_reply :: http_reply where
  "unimplemented_reply =
     \<lparr>hr_status = 200, hr_headers = [(''grpc-status'', ''12''), (''content-type'', ''application/grpc'')]\<rparr>"

datatype ('m, 'e) dispatched = Dispatched 'm rpc_kind "'e server_config" | Refused http_reply

definition server_call :: "(string \<Rightarrow> ('m \<times> rpc_kind) option) \<Rightarrow> 'e server_config \<Rightarrow> string \<Rightarrow> ('m, 'e) dispatched" where
  "server_call route cfg path =
     (case route path of Some (m, kind) \<Rightarrow> Dispatched m kind cfg | None \<Rightarrow> Refused unimplemented_reply)"

subsection \<open>The echo service\<close>

definition ECHO_SERVICE_NAME :: string where
  "ECHO_SERVICE_NAME = ''echo.v1.EchoService''"

datatype echo_method = Echo

fun echo_stub :: "echo_method \<Rightarrow> client_stub" where
  "echo_stub Echo = \<lparr>stub_path = ''/echo.v1.EchoService/Echo'', stub_kind = Unary,
     stub_service = ''echo.v1.EchoService'', stub_method = ''Echo''\<rparr>"

definition echo_route :: "string \<Rightarrow> (echo_method \<times> rpc_kind) option" where
  "echo_route path = (if path = ''/echo.v1.EchoService/Echo'' then Some (Echo, Unary) else None)"

subsection \<open>The node service\<close>

definition NODE_SERVICE_NAME :: string where
  "NODE_SERVICE_NAME = ''p2p_chat.v1.NodeService''"

datatype node_method = Node_GetNodeInfo | Node_Ping | Node_ListPeers | Node_Shutdown

fun node_stub :: "node_method \<Rightarrow> client_stub" where
  "node_stub Node_GetNodeInfo = \<lparr>stub_path = ''/p2p_chat.v1.NodeService/GetNodeInfo'', stub_kind = Unary,
     stub_service = ''p2p_chat.v1.NodeService'', stub_method = ''GetNodeInfo''\<rparr>"
| "node_stub Node_Ping = \<lparr>stub_path = ''/p2p_chat.v1.NodeService/Ping'', stub_kind = Unary,
     stub_service = ''p2p_chat.v1.NodeService'', stub_method = ''Ping''\<rparr>"
| "node_stub Node_ListPeers = \<lparr>stub_path = ''/p2p_chat.v1.NodeService/ListPeers'', stub_kind = Unary,
     stub_service = ''p2p_chat.v1.NodeService'', stub_method = ''ListPeers''\<rparr>"
| "node_stub Node_Shutdown = \<lparr>stub_path = ''/p2p_chat.v1.NodeService/Shutdown'', stub_kind = Unary,
     stub_service = ''p2p_chat.v1.NodeService'', stub_method = ''Shutdown''\<rparr>"

definition node_route :: "string \<Rightarrow> (node_method \<times> rpc_kind) option" where
  "node_route path =
     (if path = ''/p2p_chat.v1.NodeService/GetNodeInfo'' then Some (Node_GetNodeInfo, Unary)
      else if path = ''/p2p_chat.v1.NodeService/Ping'' then Some (Node_Ping, Unary)
      else if path = ''/p2p_chat.v1.NodeService/ListPeers'' then Some (Node_ListPeers, Unary)
      else if path = ''/p2p_chat.v1.NodeService/Shutdown'' then Some (Node_Shutdown, Unary)
      else None)"

subsection \<open>The chat service\<close>

definition CHAT_SERVICE_NAME :: string where
  "CHAT_SERVICE_NAME = ''p2p_chat.v1.P2PChatService''"

datatype chat_method = Chat_SendMessage | Chat_SubscribeMessages | Chat_GetHistory | Chat_ChatStream

fun chat_stub :: "chat_method \<Rightarrow> client_stub" where
  "chat_stub Chat_SendMessage = \<lparr>stub_path = ''/p2p_chat.v1.P2PChatService/SendMessage'', stub_kind = Unary,
     stub_service = ''p2p_chat.v1.P2PChatService'', stub_method = ''SendMessage''\<rparr>"
| "chat_stub Chat_SubscribeMessages = \<lparr>stub_path = ''/p2p_chat.v1.P2PChatService/SubscribeMessages'',
     stub_kind = ServerStreaming, stub_service = ''p2p_chat.v1.P2PChatService'', stub_method = ''SubscribeMessages''\<rparr>"
| "chat_stub Chat_GetHistory = \<lparr>stub_path = ''/p2p_chat.v1.P2PChatService/GetHistory'', stub_kind = Unary,
     stub_service = ''p2p_chat.v1.P2PChatService'', stub_method = ''GetHistory''\<rparr>"
| "chat_stub Chat_ChatStream = \<lparr>stub_path = ''/p2p_chat.v1.P2PChatService/ChatStream'', stub_kind = BidiStreaming,
     stub_service = ''p2p_chat.v1.P2PChatService'', stub_method = ''ChatStream''\<rparr>"

definition chat_route :: "string \<Rightarrow> (chat_method \<times> rpc_kind) option" where
  "chat_route path =
     (if path = ''/p2p_chat.v1.P2PChatService/SendMessage'' then Some (Chat_SendMessage, Unary)
      else if path = ''/p2p_chat.v1.P2PChatService/SubscribeMessages'' then Some (Chat_SubscribeMessages, ServerStreaming)
      else if path = ''/p2p_chat.v1.P2PChatService/GetHistory'' then Some (Chat_GetHistory, Unary)
      else if path = ''/p2p_chat.v1.P2PChatService/ChatStream'' then Some (Chat_ChatStream, BidiStreaming)
      else None)"

subsection \<open>Enumerations\<close>

datatype connection_type = Connection_Unspecified | Connection_Direct | Connection_Relay | Connection_Unknown

fun connection_type_name :: "connection_type \<Rightarrow> string" where
  "connection_type_name Connection_Unspecified = ''CONNECTION_TYPE_UNSPECIFIED''"
| "connection_type_name Connection_Direct = ''CONNECTION_TYPE_DIRECT''"
| "connection_type_name Connection_Relay = ''CONNECTION_TYPE_RELAY''"
| "connection_type_name Connection_Unknown = ''CONNECTION_TYPE_UNKNOWN''"

definition connection_type_from_name :: "string \<Rightarrow> connection_type option" where
  "connection_type_from_name v =
     (if v = ''CONNECTION_TYPE_UNSPECIFIED'' then Some Connection_Unspecified
      else if v = ''CONNECTION_TYPE_DIRECT'' then Some Connection_Direct
      else if v = ''CONNECTION_TYPE_RELAY'' then Some Connection_Relay
      else if v = ''CONNECTION_TYPE_UNKNOWN'' then Some Connection_Unknown
      else None)"

fun connection_type_value :: "connection_type \<Rightarrow> int" where
  "connection_type_value Connection_Unspecified = 0"
| "connection_type_value Connection_Direct = 1"
| "connection_type_value Connection_Relay = 2"
| "connection_type_value Connection_Unknown = 3"

datatype message_type = Message_Unspecified | Message_Text | Message_System | Message_Heartbeat

fun message_type_name :: "message_type \<Rightarrow> string" where
  "message_type_name Message_Unspecified = ''MESSAGE_TYPE_UNSPECIFIED''"
| "message_type_name Message_Text = ''MESSAGE_TYPE_TEXT''"
| "message_type_name Message_System = ''MESSAGE_TYPE_SYSTEM''"
| "message_type_name Message_Heartbeat = ''MESSAGE_TYPE_HEARTBEAT''"

definition message_type_from_name :: "string \<Rightarrow> message_type option" where
  "message_type_from_name v =
     (if v = ''MESSAGE_TYPE_UNSPECIFIED'' then Some Message_Unspecified
      else if v = ''MESSAGE_TYPE_TEXT'' then Some Message_Text
      else if v = ''MESSAGE_TYPE_SYSTEM'' then Some Message_System
      else if v = ''MESSAGE_TYPE_HEARTBEAT'' then Some Message_Heartbeat
      else None)"

fun message_type_value :: "message_type \<Rightarrow> int" where
  "message_type_value Message_Unspecified = 0"
| "message_type_value Message_Text = 1"
| "message_type_value Message_System = 2"
| "message_type_value Message_Heartbeat = 3"

section \<open>The contract of a service\<close>

text \<open>Client and server of a service agree when the paths are those of the service's name, every path a
  client calls is routed to the method it means, with the kind it expects, and nothing else is
  routed.\<close>

locale grpc_service =
  fixes service_name :: string
    and stub :: "'m \<Rightarrow> client_stub"
    and route :: "string \<Rightarrow> ('m \<times> rpc_kind) option"
  assumes path_of_name: "stub_path (stub m) = ''/'' @ service_name @ ''/'' @ stub_method (stub m)"
    and named: "stub_service (stub m) = service_name"
    and routed: "route (stub_path (stub m)) = Some (m, stub_kind (stub m))"
    and only_stubs: "route path = Some (m, kind) \<Longrightarrow> path = stub_path (stub m)"
begin

lemma call_reaches_method: "server_call route cfg (stub_path (stub m)) = Dispatched m (stub_kind (stub m)) cfg"
  by (simp add: server_call_def routed)

lemma dispatched_iff:
  "server_call route cfg path = Dispatched m kind cfg' \<longleftrightarrow>
     path = stub_path (stub m) \<and> kind = stub_kind (stub m) \<and> cfg' = cfg"
  using only_stubs [of path] routed [of m]
  by (auto simp: server_call_def split: option.splits)

lemma foreign_path_refused:
  assumes "\<forall>suffix. path \<noteq> ''/'' @ service_name @ ''/'' @ suffix"
  shows "server_call route cfg path = Refused unimplemented_reply"
proof (cases "route path")
  case (Some mk)
  then show ?thesis using only_stubs [of path] path_of_name assms by (cases mk) auto
qed (simp add: server_call_def)

lemma stubs_distinct: "stub_path (stub m) = stub_path (stub m') \<Longrightarrow> m = m'"
  by (metis routed option.inject prod.inject)

end

interpretation echo_rpc: grpc_service ECHO_SERVICE_NAME echo_stub echo_route
proof
  fix m
  show "stub_path (echo_stub m) = ''/'' @ ECHO_SERVICE_NAME @ ''/'' @ stub_method (echo_stub m)"
    "stub_service (echo_stub m) = ECHO_SERVICE_NAME" "echo_route (stub_path (echo_stub m)) = Some (m, stub_kind (echo_stub m))"
    by (cases m; simp add: ECHO_SERVICE_NAME_def echo_route_def)+
qed (auto simp: echo_route_def split: if_splits)

interpretation node_rpc: grpc_service NODE_SERVICE_NAME node_stub node_route
proof
  fix m
  show "stub_path (node_stub m) = ''/'' @ NODE_SERVICE_NAME @ ''/'' @ stub_method (node_stub m)"
    "stub_service (node_stub m) = NODE_SERVICE_NAME" "node_route (stub_path (node_stub m)) = Some (m, stub_kind (node_stub m))"
    by (cases m; simp add: NODE_SERVICE_NAME_def node_route_def)+
qed (auto simp: node_route_def split: if_splits)

interpretation chat_rpc: grpc_service CHAT_SERVICE_NAME chat_stub chat_route
proof
  fix m
  show "stub_path (chat_stub m) = ''/'' @ CHAT_SERVICE_NAME @ ''/'' @ stub_method (chat_stub m)"
    "stub_service (chat_stub m) = CHAT_SERVICE_NAME" "chat_route (stub_path (chat_stub m)) = Some (m, stub_kind (chat_stub m))"
    by (cases m; simp add: CHAT_SERVICE_NAME_def chat_route_def)+
qed (auto simp: chat_route_def split: if_splits)

section \<open>Properties\<close>

text \<open>The names of the enumerations read back.\<close>

lemma enum_names_round_trip:
  "connection_type_from_name (connection_type_name c) = Some c"
  "message_type_from_name (message_type_name t) = Some t"
  by (cases c; simp add: connection_type_from_name_def) (cases t; simp add: message_type_from_name_def)

lemma enum_values_distinct:
  "connection_type_value c = connection_type_value c' \<longleftrightarrow> c = c'"
  "message_type_value t = message_type_value t' \<longleftrightarrow> t = t'"
  by (cases c; cases c'; simp) (cases t; cases t'; simp)

text \<open>The node logs the names \<^verbatim>\<open>/p2p_chat.P2pChatService/1.0\<close> and \<^verbatim>\<open>/p2p_chat.NodeService/1.0\<close>, which are not
  the protocols it serves.\<close>

lemma logged_protocols_differ:
  "into_bytes ''/p2p_chat.P2pChatService/1.0'' \<noteq> service_to_alpn CHAT_SERVICE_NAME"
  "into_bytes ''/p2p_chat.NodeService/1.0'' \<noteq> service_to_alpn NODE_SERVICE_NAME"
  by (simp_all add: service_to_alpn_def CHAT_SERVICE_NAME_def NODE_SERVICE_NAME_def)


end
