(* ===== verification/Echo.thy ===== *)
theory Echo
  imports Server Rpc
begin

text \<open>
  \<^verbatim>\<open>examples/echo/src/main.rs\<close>: the echo service and the client's session. The handler reads the connection's
  context, which the accept loop of \<^verbatim>\<open>src/server.rs\<close> attaches to every stream; \<open>show_id\<close> is how iroh prints an
  endpoint id.
\<close>

section \<open>Definitions\<close>

record echo_response =
  er_message :: string
  er_peer_id :: string

definition echo :: "(endpoint_id \<Rightarrow> string) \<Rightarrow> iroh_context option \<Rightarrow> string \<Rightarrow> echo_response" where
  "echo show_id context message =
     \<lparr>er_message = message,
      er_peer_id = (case context of Some ctx \<Rightarrow> show_id (ctx_node_id ctx) | None \<Rightarrow> ''unknown'')\<rparr>"

text \<open>A request at the server: the path chooses the method, the handler answers.\<close>

definition echo_serve :: "(endpoint_id \<Rightarrow> string) \<Rightarrow> iroh_context option \<Rightarrow> 'e server_config \<Rightarrow> string \<Rightarrow> string
    \<Rightarrow> http_reply + echo_response" where
  "echo_serve show_id context cfg path message =
     (case server_call echo_route cfg path of
        Dispatched Echo kind cfg' \<Rightarrow> Inr (echo show_id context message)
      | Refused reply \<Rightarrow> Inl reply)"

definition echo_messages :: "string list" where
  "echo_messages = [''Hello, World!'', ''This is a test message'', ''Echo demo working!'']"

text \<open>The loop of \<open>main\<close>: one call after the other, left by \<open>?\<close> at the first that fails.\<close>

fun echo_session :: "(string \<Rightarrow> string + echo_response) \<Rightarrow> string list \<Rightarrow> echo_response list \<times> (string + unit)" where
  "echo_session call [] = ([], Inr ())"
| "echo_session call (message # messages) =
     (case call message of
        Inl e \<Rightarrow> ([], Inl e)
      | Inr resp \<Rightarrow> (case echo_session call messages of (resps, res) \<Rightarrow> (resp # resps, res)))"

section \<open>Properties\<close>

lemma echo_session_all:
  assumes "\<And>m. call m = Inr (resp m)"
  shows "echo_session call messages = (map resp messages, Inr ())"
  by (induction messages) (simp_all add: assms)

lemma forwarded_context:
  "Forwarded st \<in> set (fst (accept h c rounds)) \<Longrightarrow> ctx_node_id (connect_info st) = sc_remote_id c \<and> ctx_alpn (connect_info st) = sc_alpn c"
  by (auto simp: accept_def accept_loop_effects round_effects_def reject_stream_def connect_info_def iroh_stream_new_def
      split: option.splits if_splits)

text \<open>The whole session over one connection: whatever stream of the connection a call is served on, the
  client gets back each of its messages, in order, together with the id of the peer at the other end
  of the connection, that is its own.\<close>

lemma echo_session_identifies_caller:
  assumes "\<forall>m. \<exists>st. Forwarded st \<in> set (fst (accept h c rounds)) \<and>
      call m = map_sum (\<lambda>_. ''unimplemented'') id
        (echo_serve show_id (Some (connect_info st)) cfg (stub_path (echo_stub Echo)) m)"
  shows "echo_session call messages =
    (map (\<lambda>m. \<lparr>er_message = m, er_peer_id = show_id (sc_remote_id c)\<rparr>) messages, Inr ())"
proof (rule echo_session_all)
  fix m
  from assms obtain st where st: "Forwarded st \<in> set (fst (accept h c rounds))"
      "call m = map_sum (\<lambda>_. ''unimplemented'') id
        (echo_serve show_id (Some (connect_info st)) cfg (stub_path (echo_stub Echo)) m)" by blast
  with forwarded_context [OF st(1)] show "call m = Inr \<lparr>er_message = m, er_peer_id = show_id (sc_remote_id c)\<rparr>"
    by (simp add: echo_serve_def echo_rpc.call_reaches_method echo_def del: echo_stub.simps)
qed

section \<open>Witnesses\<close>

definition we_conn :: server_conn where
  "we_conn = \<lparr>sc_remote_id = [7], sc_connection = 0, sc_alpn = service_to_alpn ECHO_SERVICE_NAME\<rparr>"

definition we_rounds :: "(nat, nat) accept_round list" where
  "we_rounds = [\<lparr>ar_accept = Some (0, 0), ar_now = 3, ar_reserve = ReserveOk\<rparr>]"

definition we_stream :: "(nat, nat) iroh_stream" where
  "we_stream = iroh_stream_new 0 0 \<lparr>ctx_node_id = [7], ctx_connection = 0, ctx_established_at = 3,
     ctx_alpn = service_to_alpn ECHO_SERVICE_NAME\<rparr>"

definition we_show :: "endpoint_id \<Rightarrow> string" where
  "we_show i = map (\<lambda>b. char_of (unat b)) i"

definition we_call :: "string \<Rightarrow> string + echo_response" where
  "we_call m = map_sum (\<lambda>_. ''unimplemented'') id
     (echo_serve we_show (Some (connect_info we_stream)) (server_from_arc :: nat server_config) (stub_path (echo_stub Echo)) m)"

end
