(* ===== verification/Echo_Main.thy ===== *)
theory Echo_Main
  imports Echo Transport Locator
begin

text \<open>
  \<^verbatim>\<open>examples/echo/src/main.rs\<close>, \<open>main\<close>: a server that publishes the echo service in the DHT and a client that finds
  it there, calls it and shuts the server down. Binding an endpoint and starting a DHT client are
  iroh's and mainline's: whether they succeed is a parameter, and so are what the DHT answers, the rounds of the
  locator's task and the answer of a call over a channel. The rest is composed of the definitions of
  \<open>Transport\<close>, \<open>Discovery\<close>, \<open>Locator\<close> and \<open>Echo\<close>.
\<close>

section \<open>Definitions\<close>

text \<open>An endpoint is its id and its secret key.\<close>

record 'c echo_env =
  ee_bind_server :: "string + endpoint_id \<times> bytes"
  ee_server_dht :: "string option"
  ee_bind_client :: "string + endpoint_id \<times> bytes"
  ee_client_dht :: "string option"
  ee_mpsc_ok :: "nat \<Rightarrow> bool"
  ee_codec :: ud_codec
  ee_crypto :: crypto
  ee_dht :: dht_env
  ee_rounds :: "'c locator_event list"
  ee_call :: "'c \<Rightarrow> string \<Rightarrow> string + echo_response"

text \<open>What \<open>?\<close> turns into \<open>anyhow::Error\<close>.\<close>

datatype echo_error = BindFailed string | DhtFailed io_error | TransportFailed error | CallFailed string

definition echo_publisher_config :: dht_publisher_config where
  "echo_publisher_config = \<lparr>cfg_tags = [], cfg_publish_interval = from_secs 5\<rparr>"

definition echo_transport :: "dht_backend \<Rightarrow> bytes \<Rightarrow> transport_builder" where
  "echo_transport dht secret_key =
     (let publisher = create_publisher dht secret_key echo_publisher_config
      in add_rpc (with_publisher transport_builder_new publisher) ECHO_SERVICE_NAME)"

definition echo_server :: "'c echo_env \<Rightarrow> (echo_error + transport_guard) outcome" where
  "echo_server env =
     (case ee_bind_server env of
        Inl e \<Rightarrow> Returned (Inl (BindFailed e))
      | Inr (server_id, secret_key) \<Rightarrow>
          (case dht_backend_new (ee_server_dht env) of
             Inl e \<Rightarrow> Returned (Inl (DhtFailed e))
           | Inr dht \<Rightarrow>
               (case transport_spawn (ee_mpsc_ok env) (ee_codec env) (echo_transport dht secret_key) of
                  Panicked \<Rightarrow> Panicked
                | Returned (Inl e) \<Rightarrow> Returned (Inl (TransportFailed e))
                | Returned (Inr rpc_guard) \<Rightarrow> Returned (Inr rpc_guard))))"

definition echo_registry :: "'c echo_env \<Rightarrow> endpoint_id \<Rightarrow> dht_backend \<Rightarrow> service_registry" where
  "echo_registry env client_id dht =
     (let client_dht = dht_set_poll_interval dht (from_secs 5)
      in add_backend (registry_new client_id) (dht_backend_feeds (ee_crypto env) (ee_dht env) client_dht))"

definition echo_channel :: "'c echo_env \<Rightarrow> (echo_error + 'c) outcome" where
  "echo_channel env =
     (case ee_bind_client env of
        Inl e \<Rightarrow> Returned (Inl (BindFailed e))
      | Inr (client_id, _) \<Rightarrow>
          (case dht_backend_new (ee_client_dht env) of
             Inl e \<Rightarrow> Returned (Inl (DhtFailed e))
           | Inr dht \<Rightarrow>
               (let registry = echo_registry env client_id dht;
                    builder = builder_timeout (registry_find registry) (from_secs 60)
                in case snd (builder_first (ee_mpsc_ok env) registry ECHO_SERVICE_NAME builder (ee_rounds env)) of
                     Panicked \<Rightarrow> Panicked
                   | Returned (Inl e) \<Rightarrow> Returned (Inl (TransportFailed e))
                   | Returned (Inr channel) \<Rightarrow> Returned (Inr channel))))"

text \<open>What happens on the way: the server runs, a response is printed, a step of the shutdown.\<close>

datatype echo_effect = Serving transport_guard | Responded echo_response | Closing shutdown_action

definition echo_main :: "'c echo_env \<Rightarrow> (echo_effect list \<times> (echo_error + unit)) outcome" where
  "echo_main env =
     (case echo_server env of
        Panicked \<Rightarrow> Panicked
      | Returned (Inl e) \<Rightarrow> Returned ([], Inl e)
      | Returned (Inr rpc_guard) \<Rightarrow>
          (case echo_channel env of
             Panicked \<Rightarrow> Panicked
           | Returned (Inl e) \<Rightarrow> Returned ([Serving rpc_guard], Inl e)
           | Returned (Inr channel) \<Rightarrow>
               (case echo_session (ee_call env channel) echo_messages of
                  (responses, Inl e) \<Rightarrow>
                    Returned (Serving rpc_guard # map Responded responses, Inl (CallFailed e))
                | (responses, Inr _) \<Rightarrow>
                    (case transport_shutdown True True (Inr ()) of
                       (actions, result) \<Rightarrow>
                         Returned (Serving rpc_guard # map Responded responses @ map Closing actions,
                           map_sum TransportFailed id result)))))"

section \<open>The server\<close>

lemma echo_server_guard:
  assumes "echo_server env = Returned (Inr g)"
  shows "tg_router g = [(service_to_alpn ECHO_SERVICE_NAME, with_sender ECHO_SERVICE_NAME 0)]"
    and "\<exists>p. PublisherTask p \<in> set (tg_tasks g) \<and> pub_services p = [service_to_alpn ECHO_SERVICE_NAME]"
  using assms
  by (auto simp: echo_server_def echo_transport_def create_publisher_def publisher_new_def transport_spawn_def Let_def
      register_all_lists add_rpc_def with_publisher_def transport_builder_new_def add_service_def
      split: sum.splits prod.splits outcome.splits if_splits)

text \<open>The queues of both sides have room: neither the transport nor the locator panics, whatever fails.\<close>

lemma echo_transport_ops:
  "echo_transport dht sk = foldl builder_apply transport_builder_new
     [WithPublisher (create_publisher dht sk echo_publisher_config), AddRpc ECHO_SERVICE_NAME]"
  by (simp add: echo_transport_def Let_def)

lemma echo_no_panic:
  assumes "\<forall>n. 0 < n \<longrightarrow> ee_mpsc_ok env n"
  shows "echo_main env \<noteq> Panicked"
proof -
  have "transport_spawn (ee_mpsc_ok env) (ee_codec env) (echo_transport dht sk) \<noteq> Panicked" for dht sk
    using transport_spawn_no_panic [OF echo_transport_ops [of dht sk] assms, of "ee_codec env"] by auto
  then have server: "echo_server env \<noteq> Panicked"
    by (simp add: echo_server_def split: sum.split prod.split outcome.split)
  have "snd (builder_first (ee_mpsc_ok env) r service (builder_timeout (registry_find r) d) (ee_rounds env)) \<noteq> Panicked" for r service d
    using assms by (simp add: builder_first_def builder_start_def spawn_with_pool_def Let_def registry_find_def builder_new_def
        builder_timeout_def locator_config_default_def split: prod.split)
  then have "echo_channel env \<noteq> Panicked"
    by (simp add: echo_channel_def Let_def split: sum.split prod.split outcome.split)
  with server show ?thesis
    by (simp add: echo_main_def transport_shutdown_def split: sum.split prod.split outcome.split unit.split)
qed

section \<open>Properties\<close>

text \<open>(C33) The echo demonstration from end to end: once the server runs and the client has a channel, the server
  accepts and publishes exactly the echo protocol, and when calls are served on streams of one
  connection to it, the client prints each of the three messages, in order, with its own id as the
  peer, shuts the server down in order and succeeds.\<close>

theorem echo_main_identifies_caller:
  assumes server: "echo_server env = Returned (Inr g)" and client: "echo_channel env = Returned (Inr channel)"
    and served: "(sc_alpn c, h) \<in> set (tg_router g)"
      "\<forall>m. \<exists>st. Forwarded st \<in> set (fst (accept h c rounds)) \<and>
        ee_call env channel m = map_sum (\<lambda>_. ''unimplemented'') id
          (echo_serve show_id (Some (connect_info st)) cfg (stub_path (echo_stub Echo)) m)"
  shows "echo_main env = Returned (Serving g #
        map (\<lambda>m. Responded \<lparr>er_message = m, er_peer_id = show_id (sc_remote_id c)\<rparr>) echo_messages @
        map Closing [SignalTasks, AwaitTasks, ShutdownRouter], Inr ()) \<and>
     map fst (tg_router g) = [sc_alpn c] \<and> gh_service_name h = ECHO_SERVICE_NAME \<and>
     (\<exists>p. PublisherTask p \<in> set (tg_tasks g) \<and> pub_services p = [sc_alpn c])"
proof -
  note guard = echo_server_guard [OF server]
  have c: "sc_alpn c = service_to_alpn ECHO_SERVICE_NAME" "h = with_sender ECHO_SERVICE_NAME 0"
    using guard(1) served(1) by simp_all
  have "echo_main env = Returned (Serving g #
      map (\<lambda>m. Responded \<lparr>er_message = m, er_peer_id = show_id (sc_remote_id c)\<rparr>) echo_messages @
      map Closing [SignalTasks, AwaitTasks, ShutdownRouter], Inr ())"
    by (simp add: echo_main_def server client echo_session_identifies_caller [OF served(2)] transport_shutdown_def comp_def)
  with guard c show ?thesis by (simp add: with_sender_def)
qed

text \<open>A demonstration that fails prints nothing more and leaves the shutdown to the dropped guard.\<close>

lemma echo_main_failed:
  assumes "echo_main env = Returned (effects, Inl e)"
  shows "Closing a \<notin> set effects"
  using assms by (auto simp: echo_main_def transport_shutdown_def split: sum.splits prod.splits outcome.splits unit.splits)

section \<open>Witnesses\<close>

text \<open>Everything binds, the locator's first attempt gives channel 5, and the call of theory \<open>Echo\<close> answers.\<close>

definition wm_env :: "nat echo_env" where
  "wm_env = \<lparr>ee_bind_server = Inr ([2], [2]), ee_server_dht = None, ee_bind_client = Inr ([7], [7]), ee_client_dht = None,
     ee_mpsc_ok = (\<lambda>n. 0 < n), ee_codec = wu_codec, ee_crypto = ref_crypto,
     ee_dht = \<lparr>de_burst = (wd_sweep, wd_sweep), de_ticks = []\<rparr>,
     ee_rounds = [NextPeer (Some (Inr (wg_peer 2 50))) True, AttemptDone [2] (Some (Inr 5)) True],
     ee_call = (\<lambda>_. we_call)\<rparr>"

lemma wm_server: "\<exists>g. echo_server wm_env = Returned (Inr g)"
proof -
  obtain ud where "encode_alpns wu_codec [service_to_alpn ECHO_SERVICE_NAME] = Inr ud"
    by (simp add: encode_alpns_def wu_codec_def service_to_alpn_def into_bytes_def ECHO_SERVICE_NAME_def)
  then show ?thesis
    by (simp add: echo_server_def wm_env_def dht_backend_new_def echo_transport_def transport_spawn_def Let_def add_rpc_def
        with_publisher_def transport_builder_new_def DEFAULT_INCOMING_BUFFER_CAPACITY_def register_def)
qed

lemma wm_channel: "echo_channel wm_env = Returned (Inr 5)"
  by (simp add: echo_channel_def wm_env_def dht_backend_new_def builder_first_def builder_start_def spawn_with_pool_def Let_def
      registry_find_def builder_new_def builder_timeout_def locator_config_default_def locator_run_def locator_state_new_def
      loop_head_def can_discover_def has_inflight_def push_attempt_def attempt_result_def wg_peer_def locator_first_def
      split: prod.split)

theorem echo_main_identifies_caller_witness:
  "\<exists>g. echo_main wm_env = Returned (Serving g #
     map (\<lambda>m. Responded \<lparr>er_message = m, er_peer_id = we_show [7]\<rparr>) echo_messages @
     map Closing [SignalTasks, AwaitTasks, ShutdownRouter], Inr ())"
proof -
  let ?h = "with_sender ECHO_SERVICE_NAME 0"
  obtain g where g: "echo_server wm_env = Returned (Inr g)" using wm_server by blast
  have h: "(sc_alpn we_conn, ?h) \<in> set (tg_router g)"
    using echo_server_guard(1) [OF g] by (simp add: we_conn_def)
  have "Forwarded we_stream \<in> set (fst (accept ?h we_conn we_rounds))"
    by (simp add: accept_def we_conn_def we_rounds_def we_stream_def)
  then have "\<forall>m. \<exists>st. Forwarded st \<in> set (fst (accept ?h we_conn we_rounds)) \<and>
      ee_call wm_env 5 m = map_sum (\<lambda>_. ''unimplemented'') id
        (echo_serve we_show (Some (connect_info st)) (server_from_arc :: nat server_config) (stub_path (echo_stub Echo)) m)"
    by (auto simp: wm_env_def we_call_def simp del: echo_stub.simps)
  from echo_main_identifies_caller [OF g wm_channel h this] show ?thesis by (auto simp: we_conn_def)
qed

end
