(* ===== verification/Chat_Client.thy ===== *)
theory Chat_Client
  imports Chat Rpc Channel
begin

text \<open>
  \<^verbatim>\<open>examples/chat/src/main.rs\<close>, the client side: the commands, the calls they make and what they print, and
  the end of the process. Parsing of ids and addresses is iroh's and the network library's, a
  parameter; a panic of \<open>format_timestamp\<close> ends the loop that prints.
\<close>

section \<open>Definitions: commands\<close>

datatype chat_command =
    CmdSend string
  | CmdSubscribe
  | CmdHistory int
  | CmdChat
  | CmdPing "string option"
  | CmdNodeInfo
  | CmdListPeers
  | CmdBenchmark u64 string nat
  | CmdShutdown

text \<open>The call a command makes, with the request it builds. \<open>now\<close> is the clock in seconds.\<close>

datatype client_action =
    ActSend send_message_request
  | ActSubscribe
  | ActHistory get_history_request
  | ActChatStream string
  | ActPing int string
  | ActNodeInfo
  | ActListPeers
  | ActBenchmark string string u64 nat
  | ActShutdown

definition send_request :: "int \<Rightarrow> string \<Rightarrow> string \<Rightarrow> send_message_request" where
  "send_request now recipient_id content =
     \<lparr>sm_recipient_id = recipient_id, sm_content = content, sm_timestamp = now\<rparr>"

definition history_request :: "string \<Rightarrow> int \<Rightarrow> get_history_request" where
  "history_request peer_id limit = \<lparr>gh_peer_id = peer_id, gh_limit = limit, gh_before_timestamp = 0\<rparr>"

definition ping_action :: "int \<Rightarrow> string option \<Rightarrow> client_action" where
  "ping_action now data = ActPing now (case data of Some d \<Rightarrow> d | None \<Rightarrow> ''ping'')"

fun command_action :: "int \<Rightarrow> string \<Rightarrow> string \<Rightarrow> chat_command option \<Rightarrow> client_action" where
  "command_action now local_id target (Some (CmdSend message)) = ActSend (send_request now target message)"
| "command_action now local_id target (Some CmdSubscribe) = ActSubscribe"
| "command_action now local_id target (Some (CmdHistory limit)) = ActHistory (history_request target limit)"
| "command_action now local_id target (Some CmdChat) = ActChatStream local_id"
| "command_action now local_id target (Some (CmdPing data)) = ping_action now data"
| "command_action now local_id target (Some CmdNodeInfo) = ActNodeInfo"
| "command_action now local_id target (Some CmdListPeers) = ActListPeers"
| "command_action now local_id target (Some (CmdBenchmark duration message concurrent)) =
     ActBenchmark target message duration concurrent"
| "command_action now local_id target (Some CmdShutdown) = ActShutdown"
| "command_action now local_id target None = ping_action now (Some ''Hello from P2P node!'')"

text \<open>The stub each action goes through.\<close>

fun action_stub :: "client_action \<Rightarrow> client_stub" where
  "action_stub (ActSend req) = chat_stub Chat_SendMessage"
| "action_stub ActSubscribe = chat_stub Chat_SubscribeMessages"
| "action_stub (ActHistory req) = chat_stub Chat_GetHistory"
| "action_stub (ActChatStream local_id) = chat_stub Chat_ChatStream"
| "action_stub (ActPing now data) = node_stub Node_Ping"
| "action_stub ActNodeInfo = node_stub Node_GetNodeInfo"
| "action_stub ActListPeers = node_stub Node_ListPeers"
| "action_stub (ActBenchmark target message duration concurrent) = chat_stub Chat_SendMessage"
| "action_stub ActShutdown = node_stub Node_Shutdown"

text \<open>The target: its id, then each address; the first that does not parse is the error.\<close>

fun add_addresses :: "(string \<Rightarrow> string + 'a) \<Rightarrow> endpoint_id \<times> 'a list \<Rightarrow> string list \<Rightarrow> string + endpoint_id \<times> 'a list" where
  "add_addresses parse_addr target [] = Inr target"
| "add_addresses parse_addr target (a # rest) =
     (case parse_addr a of
        Inl e \<Rightarrow> Inl e
      | Inr ip \<Rightarrow> add_addresses parse_addr (fst target, snd target @ [ip]) rest)"

definition target_addr :: "(string \<Rightarrow> string + endpoint_id) \<Rightarrow> (string \<Rightarrow> string + 'a) \<Rightarrow> string \<Rightarrow> string list
    \<Rightarrow> string + endpoint_id \<times> 'a list" where
  "target_addr parse_id parse_addr target_node_id addresses =
     (case parse_id target_node_id of Inl e \<Rightarrow> Inl e | Inr i \<Rightarrow> add_addresses parse_addr (i, []) addresses)"

text \<open>\<open>connect_and_execute_command\<close>: the address, the two connections in order, then the command. The
  process exits with status 0 after a command that succeeded; a failure is only logged by the task
  \<open>main\<close> spawned, and the process goes on.\<close>

datatype process_end = ExitProcess nat | KeepsRunning string

record 'a client_env =
  cl_parse_id :: "string \<Rightarrow> string + endpoint_id"
  cl_parse_addr :: "string \<Rightarrow> string + 'a"
  cl_connect :: "string \<Rightarrow> endpoint_id \<times> 'a list \<Rightarrow> string + unit"
  cl_run :: "client_action \<Rightarrow> string + unit"
  cl_show_id :: "endpoint_id \<Rightarrow> string"
  cl_local_id :: endpoint_id
  cl_now :: int

definition connect_and_execute_command :: "'a client_env \<Rightarrow> string \<Rightarrow> string list \<Rightarrow> chat_command option
    \<Rightarrow> client_action list \<times> process_end" where
  "connect_and_execute_command env target addresses command =
     (case target_addr (cl_parse_id env) (cl_parse_addr env) target addresses of
        Inl e \<Rightarrow> ([], KeepsRunning e)
      | Inr addr \<Rightarrow>
          (case cl_connect env CHAT_SERVICE_NAME addr of
             Inl e \<Rightarrow> ([], KeepsRunning e)
           | Inr _ \<Rightarrow>
               (case cl_connect env NODE_SERVICE_NAME addr of
                  Inl e \<Rightarrow> ([], KeepsRunning e)
                | Inr _ \<Rightarrow>
                    (let action = command_action (cl_now env) (cl_show_id env (cl_local_id env)) (cl_show_id env (fst addr)) command
                     in case cl_run env action of
                          Inl e \<Rightarrow> ([action], KeepsRunning e)
                        | Inr _ \<Rightarrow> ([action], ExitProcess 0)))))"

section \<open>Definitions: what the client prints\<close>

definition message_line :: "string \<Rightarrow> chat_message \<Rightarrow> string" where
  "message_line stamp m = ''['' @ stamp @ ''] '' @ cm_sender_id m @ '': '' @ cm_content m"

text \<open>\<open>subscribe_messages\<close>: a response without a message is skipped, an error ends the loop.\<close>

fun subscribe_loop :: "nat \<Rightarrow> (string + chat_message option) list \<Rightarrow> string list \<Rightarrow> string list outcome" where
  "subscribe_loop now [] printed = Returned printed"
| "subscribe_loop now (Inl e # rest) printed = Returned (printed @ [''Error receiving message: '' @ e])"
| "subscribe_loop now (Inr None # rest) printed = subscribe_loop now rest printed"
| "subscribe_loop now (Inr (Some m) # rest) printed =
     (case format_timestamp now (cm_timestamp m) of
        None \<Rightarrow> Panicked
      | Some stamp \<Rightarrow> subscribe_loop now rest (printed @ [message_line stamp m]))"

definition history_line :: "string \<Rightarrow> chat_message \<Rightarrow> string" where
  "history_line stamp m =
     ''['' @ stamp @ ''] '' @ cm_sender_id m @ '' -> '' @ cm_recipient_id m @ '': '' @ cm_content m"

fun history_loop :: "nat \<Rightarrow> chat_message list \<Rightarrow> string list \<Rightarrow> string list outcome" where
  "history_loop now [] printed = Returned printed"
| "history_loop now (m # rest) printed =
     (case format_timestamp now (cm_timestamp m) of
        None \<Rightarrow> Panicked
      | Some stamp \<Rightarrow> history_loop now rest (printed @ [history_line stamp m]))"

definition print_history :: "nat \<Rightarrow> chat_message list \<Rightarrow> bool \<Rightarrow> string list outcome" where
  "print_history now messages has_more =
     (case history_loop now messages [''Retrieved '' @ nat_display (length messages) @ '' messages:''] of
        Panicked \<Rightarrow> Panicked
      | Returned printed \<Rightarrow> Returned (printed @ (if has_more then [''(More messages available)''] else [])))"

text \<open>\<open>list_peers\<close>: the name printed for a connection type, read from its number.\<close>

definition connection_type_try_from :: "int \<Rightarrow> connection_type option" where
  "connection_type_try_from n =
     (if n = 0 then Some Connection_Unspecified else if n = 1 then Some Connection_Direct
      else if n = 2 then Some Connection_Relay else if n = 3 then Some Connection_Unknown else None)"

definition peer_connection_name :: "int \<Rightarrow> string" where
  "peer_connection_name n =
     (case connection_type_try_from n of
        Some Connection_Direct \<Rightarrow> ''Direct'' | Some Connection_Relay \<Rightarrow> ''Relay'' | _ \<Rightarrow> ''Unknown'')"

record peer_info =
  pi_node_id :: string
  pi_addresses :: "string list"
  pi_connected_since :: int
  pi_connection_type :: int

definition peer_lines :: "string \<Rightarrow> peer_info \<Rightarrow> string list" where
  "peer_lines stamp p =
     [''  '' @ pi_node_id p, ''    Connection: '' @ peer_connection_name (pi_connection_type p), ''    Since: '' @ stamp] @
     map (\<lambda>a. ''    Address: '' @ a) (pi_addresses p)"

fun peers_loop :: "nat \<Rightarrow> peer_info list \<Rightarrow> string list \<Rightarrow> string list outcome" where
  "peers_loop now [] printed = Returned printed"
| "peers_loop now (p # rest) printed =
     (case format_timestamp now (pi_connected_since p) of
        None \<Rightarrow> Panicked
      | Some stamp \<Rightarrow> peers_loop now rest (printed @ peer_lines stamp p))"

definition print_peers :: "nat \<Rightarrow> peer_info list \<Rightarrow> string list outcome" where
  "print_peers now peers = peers_loop now peers [''Connected Peers ('' @ nat_display (length peers) @ ''):'']"

text \<open>\<open>get_node_info\<close>, \<open>ping_node\<close> and \<open>send_message\<close> print their response.\<close>

definition node_info_lines :: "node_info \<Rightarrow> string list" where
  "node_info_lines ni =
     [''Node Information:'', ''  Node ID: '' @ ni_node_id ni, ''  Version: '' @ ni_version ni,
      ''  Uptime: '' @ int_display (ni_uptime_seconds ni) @ ''s'',
      ''  Connected Peers: '' @ int_display (ni_connected_peers ni), ''  Addresses:''] @
     map (\<lambda>a. ''    '' @ a) (ni_addresses ni)"

definition ping_line :: "bool \<Rightarrow> int \<times> int \<times> string \<Rightarrow> string outcome" where
  "ping_line overflow_checks response =
     (case response of (request_timestamp, response_timestamp, echo_data) \<Rightarrow>
        (case ping_rtt overflow_checks request_timestamp response_timestamp of
           None \<Rightarrow> Panicked
         | Some rtt \<Rightarrow> Returned (''Pong received! RTT: '' @ int_display rtt @ ''ms, Echo: '' @ echo_data)))"

definition sent_line :: "send_message_response \<Rightarrow> string" where
  "sent_line response =
     (if sr_success response then ''Message sent successfully (ID: '' @ sr_message_id response @ '')''
      else ''Failed to send message: '' @ sr_error response)"

section \<open>Definitions: the interactive session\<close>

text \<open>\<open>str::trim\<close> on characters below 256 (Unicode white space).\<close>

definition is_whitespace :: "char \<Rightarrow> bool" where
  "is_whitespace c \<longleftrightarrow> (let n = (of_char c :: nat) in (9 \<le> n \<and> n \<le> 13) \<or> n = 32 \<or> n = 133 \<or> n = 160)"

definition trim :: "string \<Rightarrow> string" where
  "trim s = rev (dropWhile is_whitespace (rev (dropWhile is_whitespace s)))"

text \<open>A round: what \<open>read_line\<close> gives (the empty line is the end of the input) and whether the request
  channel takes the message.\<close>

record input_round =
  ir_line :: "string + string"
  ir_uuid :: string
  ir_now :: int
  ir_taken :: bool

definition interactive_message :: "string \<Rightarrow> input_round \<Rightarrow> string \<Rightarrow> chat_message" where
  "interactive_message local_id rnd content =
     \<lparr>cm_id = ir_uuid rnd, cm_sender_id = local_id, cm_recipient_id = '''', cm_content = content,
      cm_timestamp = ir_now rnd, cm_type = message_type_text\<rparr>"

fun interactive_loop :: "string \<Rightarrow> input_round list \<Rightarrow> chat_message list \<times> (string + unit) option" where
  "interactive_loop local_id [] = ([], None)"
| "interactive_loop local_id (rnd # rest) =
     (case ir_line rnd of
        Inl e \<Rightarrow> ([], Some (Inl e))
      | Inr line \<Rightarrow>
          (if line = '''' then ([], Some (Inr ()))
           else (let content = trim line
                 in if content = ''quit'' then ([], Some (Inr ()))
                    else if content = '''' then interactive_loop local_id rest
                    else if \<not> ir_taken rnd then ([], Some (Inr ()))
                    else (case interactive_loop local_id rest of
                            (sent, res) \<Rightarrow> (interactive_message local_id rnd content # sent, res)))))"

text \<open>The session calls \<open>chat_stream\<close> first, with the receiver of its own request channel as the body, and
  reads lines only when the call has returned.\<close>

definition interactive_chat :: "'r call_env \<Rightarrow> uri_parts \<Rightarrow> request \<Rightarrow> string \<Rightarrow> input_round list
    \<Rightarrow> chat_message list \<times> (error + string + unit) option" where
  "interactive_chat ce origin request local_id inputs =
     (case snd (call ce origin request) of
        None \<Rightarrow> ([], None)
      | Some (Inl e) \<Rightarrow> ([], Some (Inl e))
      | Some (Inr _) \<Rightarrow> (case interactive_loop local_id inputs of (sent, res) \<Rightarrow> (sent, map_option Inr res)))"

section \<open>Properties\<close>

text \<open>Every command goes to a method that one of the two services of the node serves.\<close>

lemma command_served:
  "(\<exists>m. action_stub (command_action now local_id target command) = chat_stub m \<and>
      server_call chat_route cfg (stub_path (chat_stub m)) = Dispatched m (stub_kind (chat_stub m)) cfg) \<or>
   (\<exists>m. action_stub (command_action now local_id target command) = node_stub m \<and>
      server_call node_route cfg (stub_path (node_stub m)) = Dispatched m (stub_kind (node_stub m)) cfg)"
proof -
  have "(\<exists>m. action_stub a = chat_stub m) \<or> (\<exists>m. action_stub a = node_stub m)" for a
    by (induction a rule: action_stub.induct) (metis action_stub.simps)+
  then show ?thesis using chat_rpc.call_reaches_method node_rpc.call_reaches_method by metis
qed

text \<open>A command whose connections and call succeed ends the process with status 0 after exactly that one
  action; nothing else ends it.\<close>

lemma command_exit_iff:
  "snd (connect_and_execute_command env target addresses command) = ExitProcess n \<longleftrightarrow>
     n = 0 \<and> (\<exists>addr. target_addr (cl_parse_id env) (cl_parse_addr env) target addresses = Inr addr \<and>
       cl_connect env CHAT_SERVICE_NAME addr = Inr () \<and> cl_connect env NODE_SERVICE_NAME addr = Inr () \<and>
       cl_run env (command_action (cl_now env) (cl_show_id env (cl_local_id env)) (cl_show_id env (fst addr)) command) = Inr ())"
  by (auto simp: connect_and_execute_command_def Let_def split: sum.splits)

text \<open>Addresses are kept in the order given.\<close>

lemma add_addresses_order:
  assumes "\<And>a. a \<in> set addresses \<Longrightarrow> parse_addr a = Inr (ip a)"
  shows "add_addresses parse_addr (i, ips) addresses = Inr (i, ips @ map ip addresses)"
  using assms by (induction addresses arbitrary: ips) simp_all

text \<open>What the session sends: the trimmed lines up to the first end, less the empty ones.\<close>

definition ends_session :: "input_round \<Rightarrow> bool" where
  "ends_session rnd \<longleftrightarrow>
     (case ir_line rnd of
        Inl e \<Rightarrow> True
      | Inr line \<Rightarrow> line = '''' \<or> trim line = ''quit'' \<or> (trim line \<noteq> '''' \<and> \<not> ir_taken rnd))"

lemma interactive_loop_sends:
  "fst (interactive_loop local_id inputs) =
     map (\<lambda>rnd. interactive_message local_id rnd (trim (projr (ir_line rnd))))
       (filter (\<lambda>rnd. trim (projr (ir_line rnd)) \<noteq> '''') (takeWhile (\<lambda>rnd. \<not> ends_session rnd) inputs))"
  by (induction inputs) (auto simp: ends_session_def Let_def split: sum.split prod.splits)

lemma interactive_loop_waits:
  "snd (interactive_loop local_id inputs) = None \<longleftrightarrow> (\<forall>rnd \<in> set inputs. \<not> ends_session rnd)"
proof (induction inputs)
  case (Cons rnd inputs)
  show ?case
  proof (cases "ends_session rnd")
    case True
    then have "snd (interactive_loop local_id (rnd # inputs)) \<noteq> None"
      by (auto simp: ends_session_def Let_def split: sum.splits prod.splits)
    with True show ?thesis by auto
  next
    case False
    then have "snd (interactive_loop local_id (rnd # inputs)) = snd (interactive_loop local_id inputs)"
      by (auto simp: ends_session_def Let_def split: sum.splits prod.splits)
    with False Cons show ?thesis by auto
  qed
qed simp

text \<open>Printing panics exactly on a negative timestamp, which any peer can put into a message.\<close>

lemma subscribe_panics_iff:
  assumes "\<And>m. Inr (Some m) \<in> set items \<Longrightarrow> - (2 ^ 63) \<le> cm_timestamp m \<and> cm_timestamp m < 2 ^ 63"
  shows "subscribe_loop now items printed = Panicked \<longleftrightarrow>
    (\<exists>m. Inr (Some m) \<in> set (takeWhile (\<lambda>x. \<not> isl x) items) \<and> cm_timestamp m < 0)"
  using assms
proof (induction now items printed rule: subscribe_loop.induct)
  case (4 now m rest printed)
  have "format_timestamp now (cm_timestamp m) = None \<longleftrightarrow> cm_timestamp m < 0"
    using 4(2) [of m] by (intro format_timestamp_panics_iff) simp_all
  with 4 show ?case by (auto split: option.split)
qed auto

text \<open>A message sent by the client is the last entry of the history the client can ask for: the client
  names the node as recipient and as peer. The stored sender is the node itself, whoever the caller is.\<close>

lemma sent_message_in_history:
  assumes "int (length (cs_messages st)) < limit" and "limit < 2 ^ 31"
  shows "last (fst (chat_get_history (snd (chat_send_message subs uuid st (send_request now target content)))
      (history_request target limit))) =
    \<lparr>cm_id = uuid, cm_sender_id = cs_node_id st, cm_recipient_id = target, cm_content = content, cm_timestamp = now,
     cm_type = message_type_text\<rparr>"
proof -
  let ?st = "snd (chat_send_message subs uuid st (send_request now target content))"
  let ?req = "history_request target limit"
  let ?found = "filter (history_matches ?req) (cs_messages ?st)"
  have "length ?found \<le> length (cs_messages ?st)" by (rule length_filter_le)
  also have "\<dots> \<le> nat limit" using assms(1) by (simp add: send_message_state)
  finally have "take (nat limit) ?found = ?found" by simp
  moreover have "fst (chat_get_history ?st ?req) = take (nat limit) ?found"
    using assms get_history_prefix [of ?req ?st] by (cases "chat_get_history ?st ?req") (simp add: history_request_def)
  moreover have "last ?found =
      \<lparr>cm_id = uuid, cm_sender_id = cs_node_id st, cm_recipient_id = target, cm_content = content, cm_timestamp = now,
       cm_type = message_type_text\<rparr>"
    by (simp add: send_message_state history_matches_def history_request_def send_request_def)
  ultimately show ?thesis by simp
qed

text \<open>The interactive session never starts: as long as the body of its request, which it fills itself
  after the call, is open and empty, the call does not return, and no line is read or sent.\<close>

lemma interactive_chat_never_starts:
  assumes "apply_origin (ce_from_parts ce) (ce_authority ce) (rq_uri request) origin = Inr uri"
    and "ce_send_request ce uri False = None" and "\<not> rq_is_end_stream request" and "rq_body request = []"
  shows "interactive_chat ce origin request local_id inputs = ([], None)"
  using assms by (simp add: interactive_chat_def call_def)

end
