(* ===== verification/Chat_Node.thy ===== *)
theory Chat_Node
  imports Chat_Client Transport
begin

text \<open>
  \<^verbatim>\<open>examples/chat/src/main.rs\<close>, \<open>main\<close>: from the arguments to a running node, and its end. The endpoint builder
  is iroh's: what it is configured with is a record, whether a key parses, an address can be set and
  the endpoint binds are parameters. The transport is the one of theory \<open>Transport\<close>, the node's state that of
  theory \<open>Chat\<close>, the command the one of theory \<open>Chat_Client\<close>.
\<close>

section \<open>Definitions\<close>

record chat_args =
  ag_secret_key :: "string option"
  ag_relay_url :: "string list"
  ag_port :: u16
  ag_verbose :: bool
  ag_no_relay :: bool
  ag_max_requests :: "u64 option"
  ag_connect_to :: "string option"
  ag_target_addresses :: "string list"
  ag_command :: "chat_command option"

datatype preset = N0 | N0DisableRelay

record 'k endpoint_config =
  ec_preset :: preset
  ec_secret_key :: "'k option"
  ec_bind_port :: "u16 option"

record 'k node_env =
  ne_parse_key :: "string \<Rightarrow> string + 'k"
  ne_bind_addr :: "u16 \<Rightarrow> string + unit"
  ne_bind :: "'k endpoint_config \<Rightarrow> string + endpoint_id"
  ne_show_id :: "endpoint_id \<Rightarrow> string"
  ne_mpsc_ok :: "nat \<Rightarrow> bool"
  ne_codec :: ud_codec

definition endpoint_config_of_args :: "'k node_env \<Rightarrow> chat_args \<Rightarrow> string + 'k endpoint_config" where
  "endpoint_config_of_args env args =
     (let cfg = \<lparr>ec_preset = (if ag_no_relay args then N0DisableRelay else N0), ec_secret_key = None, ec_bind_port = None\<rparr>;
          keyed = (case ag_secret_key args of
                     None \<Rightarrow> Inr cfg
                   | Some s \<Rightarrow> map_sum id (\<lambda>k. cfg\<lparr>ec_secret_key := Some k\<rparr>) (ne_parse_key env s))
      in case keyed of
           Inl e \<Rightarrow> Inl e
         | Inr cfg \<Rightarrow>
             (if 0 < ag_port args
              then map_sum id (\<lambda>_. cfg\<lparr>ec_bind_port := Some (ag_port args)\<rparr>) (ne_bind_addr env (ag_port args))
              else Inr cfg))"

definition chat_node_builder :: transport_builder where
  "chat_node_builder = add_rpc (add_rpc transport_builder_new CHAT_SERVICE_NAME) NODE_SERVICE_NAME"

text \<open>A node that runs: its state, the guard of its transport, and the arguments of the task that executes
  the command, which exists when a peer to connect to was named.\<close>

record chat_node =
  cn_state :: chat_state
  cn_guard :: transport_guard
  cn_client :: "(string \<times> string list \<times> chat_command option) option"

datatype main_error = SetupError string | SpawnError error

definition chat_main :: "'k node_env \<Rightarrow> chat_args \<Rightarrow> (main_error + chat_node) outcome" where
  "chat_main env args =
     (case endpoint_config_of_args env args of
        Inl e \<Rightarrow> Returned (Inl (SetupError e))
      | Inr cfg \<Rightarrow>
          (case ne_bind env cfg of
             Inl e \<Rightarrow> Returned (Inl (SetupError e))
           | Inr endpoint \<Rightarrow>
               (case transport_spawn (ne_mpsc_ok env) (ne_codec env) chat_node_builder of
                  Panicked \<Rightarrow> Panicked
                | Returned (Inl e) \<Rightarrow> Returned (Inl (SpawnError e))
                | Returned (Inr g) \<Rightarrow>
                    Returned (Inr \<lparr>cn_state = chat_state_new (ne_show_id env endpoint) (ag_max_requests args), cn_guard = g,
                      cn_client = map_option (\<lambda>target. (target, ag_target_addresses args, ag_command args))
                        (ag_connect_to args)\<rparr>))))"

text \<open>\<open>main\<close> waits for a control-C or for a signal on the shutdown channel, then shuts the transport down.\<close>

definition node_stops :: "bool \<Rightarrow> chat_state \<Rightarrow> bool" where
  "node_stops ctrl_c st \<longleftrightarrow> ctrl_c \<or> 0 < cs_shutdowns st"

definition node_list_peers :: "peer_info list" where
  "node_list_peers = []"

section \<open>Properties\<close>

text \<open>The argument \<open>relay_url\<close> has no effect: a node given custom relays runs as one without.\<close>

lemma relay_url_ignored: "chat_main env (args\<lparr>ag_relay_url := urls\<rparr>) = chat_main env args"
proof -
  have "endpoint_config_of_args env (args\<lparr>ag_relay_url := urls\<rparr>) = endpoint_config_of_args env args"
    by (auto simp: endpoint_config_of_args_def Let_def split: option.split sum.split)
  then show ?thesis by (auto simp: chat_main_def split: sum.split outcome.split)
qed

lemma chat_node_services [simp]:
  "tb_services chat_node_builder = [CHAT_SERVICE_NAME, NODE_SERVICE_NAME]"
  "tb_alpns chat_node_builder = [service_to_alpn CHAT_SERVICE_NAME, service_to_alpn NODE_SERVICE_NAME]"
  by (simp_all add: chat_node_builder_def add_rpc_def transport_builder_new_def)

lemma chat_main_node:
  assumes "chat_main env args = Returned (Inr node)"
  shows "transport_spawn (ne_mpsc_ok env) (ne_codec env) chat_node_builder = Returned (Inr (cn_guard node))"
    and "\<exists>name. cn_state node = chat_state_new name (ag_max_requests args)"
  using assms by (auto simp: chat_main_def split: sum.splits outcome.splits)

lemma action_stub_service:
  "stub_service (action_stub a) = CHAT_SERVICE_NAME \<or> stub_service (action_stub a) = NODE_SERVICE_NAME"
  by (induction a rule: action_stub.induct) (simp_all add: CHAT_SERVICE_NAME_def NODE_SERVICE_NAME_def)

lemma spawned_protocols:
  assumes "transport_spawn mpsc_ok uc chat_node_builder = Returned (Inr g)" and "ud_codec_round_trip uc"
  shows "map fst (tg_router g) = [service_to_alpn CHAT_SERVICE_NAME, service_to_alpn NODE_SERVICE_NAME]"
    and "\<exists>ud. tg_user_data g = Some ud \<and> user_data_alpns uc ud = map fst (tg_router g)"
  using assms
  by (auto simp: transport_spawn_def register_all_lists Let_def map_sum_def ud_codec_round_trip_def encode_alpns_def
      decode_alpns_def user_data_alpns_def split: if_splits sum.splits option.splits)

text \<open>(C32) A chat node that started serves and announces both services of the example, so the protocol of
  every command another node can give is among those it accepts. Whatever requests come, in whatever order, it
  stops exactly when it is interrupted, when it gets a shutdown request, or when it has a request limit and at
  least one call of \<open>send_message\<close> and as many as the limit have returned. A call whose message waits for room in
  the channel of a subscriber has not returned and does not count.\<close>

theorem chat_node_serves_commands:
  assumes "chat_main env args = Returned (Inr node)" and "ud_codec_round_trip (ne_codec env)"
    and "length ops < 2 ^ 64"
  shows "map fst (tg_router (cn_guard node)) = [service_to_alpn CHAT_SERVICE_NAME, service_to_alpn NODE_SERVICE_NAME] \<and>
    (\<exists>ud. tg_user_data (cn_guard node) = Some ud \<and>
       user_data_alpns (ne_codec env) ud = map fst (tg_router (cn_guard node))) \<and>
    service_to_alpn (stub_service (action_stub (command_action now local_id target command)))
      \<in> fst ` set (tg_router (cn_guard node)) \<and>
    (node_stops ctrl_c (foldl apply_node_op (cn_state node) ops) \<longleftrightarrow> ctrl_c \<or> ShutdownOp \<in> set ops \<or>
       (case ag_max_requests args of
          None \<Rightarrow> False
        | Some mx \<Rightarrow> 0 < returned_sends (cn_state node) ops \<and> unat mx \<le> returned_sends (cn_state node) ops))"
proof (intro conjI)
  note spawned = chat_main_node(1) [OF assms(1)]
  note protocols = spawned_protocols [OF spawned assms(2)]
  from protocols(1) show "map fst (tg_router (cn_guard node)) = [service_to_alpn CHAT_SERVICE_NAME, service_to_alpn NODE_SERVICE_NAME]" .
  from protocols(2) show "\<exists>ud. tg_user_data (cn_guard node) = Some ud \<and>
       user_data_alpns (ne_codec env) ud = map fst (tg_router (cn_guard node))" .
  have "fst ` set (tg_router (cn_guard node)) = {service_to_alpn CHAT_SERVICE_NAME, service_to_alpn NODE_SERVICE_NAME}"
    unfolding set_map [symmetric] protocols(1) by simp
  then show "service_to_alpn (stub_service (action_stub (command_action now local_id target command)))
      \<in> fst ` set (tg_router (cn_guard node))"
    using action_stub_service [of "command_action now local_id target command"] by auto
  from chat_main_node(2) [OF assms(1)] obtain name where st: "cn_state node = chat_state_new name (ag_max_requests args)" ..
  then have fields: "cs_request_count (cn_state node) = 0" "cs_max_requests (cn_state node) = ag_max_requests args"
      "cs_shutdowns (cn_state node) = 0" by (simp_all add: chat_state_new_def)
  from assms(3) have "unat (cs_request_count (cn_state node)) + length ops < 2 ^ 64" by (simp add: fields)
  note signalled = shutdown_signalled [OF this, unfolded fields unsigned_0 add_0]
  show "node_stops ctrl_c (foldl apply_node_op (cn_state node) ops) \<longleftrightarrow> ctrl_c \<or> ShutdownOp \<in> set ops \<or>
      (case ag_max_requests args of
         None \<Rightarrow> False
       | Some mx \<Rightarrow> 0 < returned_sends (cn_state node) ops \<and> unat mx \<le> returned_sends (cn_state node) ops)"
    using signalled by (simp add: node_stops_def)
qed

section \<open>Witnesses\<close>

definition wn_env :: "nat node_env" where
  "wn_env = \<lparr>ne_parse_key = (\<lambda>_. Inl ''key''), ne_bind_addr = (\<lambda>_. Inr ()), ne_bind = (\<lambda>_. Inr [7]),
     ne_show_id = (\<lambda>_. ''node''), ne_mpsc_ok = (\<lambda>n. 0 < n), ne_codec = wu_codec\<rparr>"

definition wn_args :: chat_args where
  "wn_args = \<lparr>ag_secret_key = None, ag_relay_url = [], ag_port = 80, ag_verbose = False, ag_no_relay = False,
     ag_max_requests = Some 1, ag_connect_to = None, ag_target_addresses = [], ag_command = None\<rparr>"

text \<open>With a subscriber whose channel is full the limit of one is not reached; without it is.\<close>

definition wn_send :: "(string \<Rightarrow> sub_answer) \<Rightarrow> node_op" where
  "wn_send subs = SendOp subs ''id'' (send_request 3 ''node'' ''hello'')"

theorem chat_node_serves_commands_witness:
  "\<exists>node. chat_main wn_env wn_args = Returned (Inr node) \<and>
     map fst (tg_router (cn_guard node)) = [service_to_alpn CHAT_SERVICE_NAME, service_to_alpn NODE_SERVICE_NAME] \<and>
     node_stops False (foldl apply_node_op (cn_state node) [wn_send (\<lambda>_. SubTakes)]) \<and>
     \<not> node_stops False (foldl apply_node_op (cn_state node) [SubscribeOp ''sub'', wn_send (\<lambda>_. SubWaits)])"
proof -
  have "encode_alpns wu_codec (tb_alpns chat_node_builder) \<noteq> Inl e" for e
    by (simp add: encode_alpns_def wu_codec_def service_to_alpn_def into_bytes_def CHAT_SERVICE_NAME_def NODE_SERVICE_NAME_def)
  then obtain ud where "encode_alpns wu_codec (tb_alpns chat_node_builder) = Inr ud"
    by (cases "encode_alpns wu_codec (tb_alpns chat_node_builder)") auto
  moreover have "0 < tb_incoming_buffer_capacity chat_node_builder"
    by (simp add: chat_node_builder_def add_rpc_def transport_builder_new_def DEFAULT_INCOMING_BUFFER_CAPACITY_def)
  ultimately obtain node where node: "chat_main wn_env wn_args = Returned (Inr node)"
    by (simp add: chat_main_def endpoint_config_of_args_def wn_env_def wn_args_def transport_spawn_def register_all_lists)
  have "ud_codec_round_trip (ne_codec wn_env)" by (simp add: wn_env_def wu_codec_round_trip)
  note serves = chat_node_serves_commands [OF node this]
  obtain name where st: "cn_state node = chat_state_new name (Some 1)"
    using chat_main_node(2) [OF node] by (auto simp: wn_args_def)
  have sends: "returned_sends (cn_state node) [wn_send (\<lambda>_. SubTakes)] = 1"
      "returned_sends (cn_state node) [SubscribeOp ''sub'', wn_send (\<lambda>_. SubWaits)] = 0"
    by (simp_all add: st wn_send_def chat_send_message_def add_message_def chat_state_new_def Let_def
        chat_subscribe_messages_def add_subscriber_def)
  have no_request: "ShutdownOp \<noteq> wn_send subs" for subs by (simp add: wn_send_def)
  have "ag_max_requests wn_args = Some 1" by (simp add: wn_args_def)
  note stops = serves [where ctrl_c = False, THEN conjunct2, THEN conjunct2, THEN conjunct2, unfolded this option.case]
  have "node_stops False (foldl apply_node_op (cn_state node) [wn_send (\<lambda>_. SubTakes)])"
    by (rule stops [THEN iffD2]) (simp, simp only: sends, simp)
  moreover have "\<not> node_stops False (foldl apply_node_op (cn_state node) [SubscribeOp ''sub'', wn_send (\<lambda>_. SubWaits)])"
    by (subst stops, simp, simp only: sends, simp add: no_request)
  moreover have "map fst (tg_router (cn_guard node)) = [service_to_alpn CHAT_SERVICE_NAME, service_to_alpn NODE_SERVICE_NAME]"
    by (rule chat_main_node(1) [OF node, THEN spawned_protocols(1)]) (simp add: wn_env_def wu_codec_round_trip)
  ultimately show ?thesis using node by (intro exI [of _ node] conjI)
qed

end
