(* ===== verification/Chat_Session.thy ===== *)
theory Chat_Session
  imports Chat_Node
begin

text \<open>
  \<^verbatim>\<open>examples/chat/src/main.rs\<close>: the client's commands as whole functions, from the request to the last line
  printed, and the node's services as values, so that a command can be run against a node. The parts
  (requests, lines, handlers) are those of \<open>Chat\<close> and \<open>Chat_Client\<close>. A call is what the stub answers, an error
  status being its text.
\<close>

section \<open>Definitions: the services\<close>

record chat_service =
  cv_state :: chat_state

definition chat_service_new :: "chat_state \<Rightarrow> chat_service" where
  "chat_service_new st = \<lparr>cv_state = st\<rparr>"

text \<open>\<open>chat_stream\<close>: the task runs on the client's requests; the response is the stream of what it sends.\<close>

definition chat_stream :: "(string \<Rightarrow> sub_answer) \<Rightarrow> chat_service \<Rightarrow> chat_round list
    \<Rightarrow> (string + (string + chat_message) list) \<times> chat_service" where
  "chat_stream subs sv stream =
     (case chat_stream_task subs (cv_state sv) stream of (sent, st) \<Rightarrow> (Inr sent, sv\<lparr>cv_state := st\<rparr>))"

text \<open>The node service remembers the second it was made.\<close>

record node_service =
  nv_state :: chat_state
  nv_start_time :: u64

definition node_service_new :: "u64 \<Rightarrow> chat_state \<Rightarrow> node_service" where
  "node_service_new now st = \<lparr>nv_state = st, nv_start_time = now\<rparr>"

definition node_service_info :: "string \<Rightarrow> u64 \<Rightarrow> node_service \<Rightarrow> node_info" where
  "node_service_info version now sv = get_node_info version (now - nv_start_time sv) (nv_state sv)"

section \<open>Definitions: the commands\<close>

text \<open>The lines printed and the result; a panic ends the command.\<close>

type_synonym command_result = "(string list \<times> (string + unit)) outcome"

text \<open>\<open>printing first lines\<close>: the lines after the call, unless printing them panicked.\<close>

definition printing :: "string list \<Rightarrow> string list outcome \<Rightarrow> command_result" where
  "printing first lines =
     (case lines of Panicked \<Rightarrow> Panicked | Returned printed \<Rightarrow> Returned (first @ printed, Inr ()))"

definition client_send_message :: "(send_message_request \<Rightarrow> string + send_message_response) \<Rightarrow> int \<Rightarrow> string \<Rightarrow> string
    \<Rightarrow> command_result" where
  "client_send_message rpc now recipient_id content =
     (let first = [''Sending message: '' @ content]
      in case rpc (send_request now recipient_id content) of
           Inl status \<Rightarrow> Returned (first, Inl status)
         | Inr response \<Rightarrow> Returned (first @ [sent_line response], Inr ()))"

definition client_subscribe_messages :: "string + (string + chat_message option) list \<Rightarrow> nat \<Rightarrow> command_result" where
  "client_subscribe_messages stream now =
     (let first = [''Subscribing to messages...'']
      in case stream of
           Inl status \<Rightarrow> Returned (first, Inl status)
         | Inr items \<Rightarrow> printing (first @ [''Connected to message stream. Waiting for messages...''])
             (subscribe_loop now items []))"

definition client_get_history :: "(get_history_request \<Rightarrow> string + chat_message list \<times> bool) \<Rightarrow> nat \<Rightarrow> string \<Rightarrow> int
    \<Rightarrow> command_result" where
  "client_get_history rpc now peer_id limit =
     (let first = [''Getting chat history...'']
      in case rpc (history_request peer_id limit) of
           Inl status \<Rightarrow> Returned (first, Inl status)
         | Inr (messages, has_more) \<Rightarrow> printing first (print_history now messages has_more))"

definition client_ping_node :: "bool \<Rightarrow> (int \<times> string \<Rightarrow> string + int \<times> int \<times> string) \<Rightarrow> int \<Rightarrow> string option \<Rightarrow> command_result" where
  "client_ping_node overflow_checks rpc now data =
     (let data = (case data of Some d \<Rightarrow> d | None \<Rightarrow> ''ping'');
          first = [''Pinging node with data: '' @ data]
      in case rpc (now, data) of
           Inl status \<Rightarrow> Returned (first, Inl status)
         | Inr response \<Rightarrow>
             (case ping_line overflow_checks response of
                Panicked \<Rightarrow> Panicked
              | Returned line \<Rightarrow> Returned (first @ [line], Inr ())))"

definition client_get_node_info :: "string + node_info \<Rightarrow> command_result" where
  "client_get_node_info response =
     (let first = [''Getting node information...'']
      in case response of
           Inl status \<Rightarrow> Returned (first, Inl status)
         | Inr info \<Rightarrow> Returned (first @ node_info_lines info, Inr ()))"

definition client_list_peers :: "string + peer_info list \<Rightarrow> nat \<Rightarrow> command_result" where
  "client_list_peers response now =
     (let first = [''Listing connected peers...'']
      in case response of
           Inl status \<Rightarrow> Returned (first, Inl status)
         | Inr peers \<Rightarrow> printing first (print_peers now peers))"

definition client_shutdown_node :: "string + unit \<Rightarrow> command_result" where
  "client_shutdown_node response =
     (let first = [''Requesting graceful shutdown of target node...'']
      in case response of
           Inl status \<Rightarrow> Returned (first, Inl status)
         | Inr _ \<Rightarrow> Returned (first @ [''Shutdown request sent successfully''], Inr ()))"

text \<open>The end of \<open>main\<close>: \<open>None\<close> while it waits.\<close>

definition chat_main_end :: "bool \<Rightarrow> chat_state \<Rightarrow> (shutdown_action list \<times> (error + unit)) option" where
  "chat_main_end ctrl_c st = (if node_stops ctrl_c st then Some (transport_shutdown True True (Inr ())) else None)"

section \<open>Properties\<close>

lemma history_loop_lines:
  assumes "\<And>m. m \<in> set messages \<Longrightarrow> format_timestamp now (cm_timestamp m) = Some (stamp m)"
  shows "history_loop now messages printed = Returned (printed @ map (\<lambda>m. history_line (stamp m) m) messages)"
  using assms by (induction messages arbitrary: printed) simp_all

text \<open>A command against a node: what one client sent, the same client finds printed when it asks for the
  history of that node, as long as no message in it has a timestamp that panics.\<close>

lemma sent_message_is_printed:
  fixes st limit now content target uuid subs nanos
  defines "sv \<equiv> snd (chat_send_message subs uuid st (send_request now target content))"
  assumes limit: "int (length (cs_messages st)) < limit" "limit < 2 ^ 31"
    and stamps: "\<And>m. m \<in> set (cs_messages sv) \<Longrightarrow> format_timestamp nanos (cm_timestamp m) = Some (stamp m)"
  shows "\<exists>lines. client_get_history (\<lambda>req. Inr (chat_get_history sv req)) nanos target limit = Returned (lines, Inr ()) \<and>
    (\<exists>m. cm_content m = content \<and> cm_id m = uuid \<and> history_line (stamp m) m \<in> set lines)"
proof -
  obtain found more_left where hist: "chat_get_history sv (history_request target limit) = (found, more_left)" by force
  have found: "found = take (nat limit) (filter (history_matches (history_request target limit)) (cs_messages sv))"
    using get_history_prefix [OF _ _ hist] limit by (simp add: history_request_def)
  then have sub: "set found \<subseteq> set (cs_messages sv)" by (auto dest: in_set_takeD)
  let ?m = "\<lparr>cm_id = uuid, cm_sender_id = cs_node_id st, cm_recipient_id = target, cm_content = content, cm_timestamp = now,
    cm_type = message_type_text\<rparr>"
  have "length (filter (history_matches (history_request target limit)) (cs_messages sv)) \<le> length (cs_messages sv)"
    by (rule length_filter_le)
  also have "\<dots> \<le> nat limit" using limit(1) by (simp add: sv_def send_message_state)
  finally have "found = filter (history_matches (history_request target limit)) (cs_messages sv)" using found by simp
  then have m: "?m \<in> set found"
    by (simp add: sv_def send_message_state history_matches_def history_request_def send_request_def)
  have "history_loop nanos found printed = Returned (printed @ map (\<lambda>m. history_line (stamp m) m) found)" for printed
    by (rule history_loop_lines) (use stamps sub in blast)
  with hist m show ?thesis
    by (intro exI conjI [rotated] exI [of _ ?m])
       (auto simp: client_get_history_def print_history_def printing_def)
qed

text \<open>A ping of a node gives back its data, and the time between the two clocks.\<close>

lemma ping_node_echoes:
  assumes "- (2 ^ 63) \<le> server_now - now" and "server_now - now < 2 ^ 63"
  shows "client_ping_node checks (\<lambda>req. Inr (node_ping server_now req)) now (Some data) =
    Returned ([''Pinging node with data: '' @ data,
      ''Pong received! RTT: '' @ int_display (server_now - now) @ ''ms, Echo: '' @ data], Inr ())"
  using assms by (simp add: client_ping_node_def node_ping_def ping_line_def ping_rtt_def Let_def)

text \<open>A node that was asked to shut down stops, and shuts its transport down in order.\<close>

lemma shutdown_command_stops_node:
  "client_shutdown_node (Inr ()) = Returned ([''Requesting graceful shutdown of target node...'',
     ''Shutdown request sent successfully''], Inr ()) \<and>
   chat_main_end False (node_shutdown st) = Some ([SignalTasks, AwaitTasks, ShutdownRouter], Inr ())"
  by (simp add: client_shutdown_node_def chat_main_end_def node_stops_def node_shutdown_def transport_shutdown_def)

end
