(* ===== verification/Spec2Isabelle.thy ===== *)
theory Spec2Isabelle
  imports Service_Record Reference_Codec Alpn Pool_Actor Pool_Connection Pool_Handle Pool_System Pool_Runs Pool_Ledger Pool_Lease Errors
    Stream Dht Publisher Publisher_Race Resolver User_Data Discovery Engine Locator Locator_Handle Service_Path
    Service_Upkeep Channel Client
    Server Transport Announced_Path Otel Chat Rpc Echo Echo_Main Chat_Client Chat_Node Chat_Session
begin

text \<open>
  A verification development of tonic-iroh-transport: gRPC services (tonic) over peer-to-peer QUIC
  connections (iroh), with a connection pool and peer discovery. This theory imports every other one
  and holds the property that spans registry, backends and engine. Paths are those of the repository.

  \<^bold>\<open>The program and where it is modelled.\<close>

  A server registers its services with \<^verbatim>\<open>src/transport.rs\<close> (theory \<open>Transport\<close>): each gets a protocol name
  (\<^verbatim>\<open>src/alpn.rs\<close>, \<open>Alpn\<close>), the names are announced in the endpoint's user data (\<^verbatim>\<open>src/user_data.rs\<close>,
  \<open>User_Data\<close>) and published in the mainline DHT, and \<^verbatim>\<open>src/server.rs\<close> (\<open>Server\<close>) hands every accepted
  stream to tonic. \<open>transport_spawn\<close> is \<open>TransportBuilder::spawn\<close>, \<open>accept\<close> is \<open>GrpcProtocolHandler::accept\<close>.

  A client either dials one peer (\<^verbatim>\<open>src/client.rs\<close>, \<open>Client\<close>) or asks a registry for a service
  (\<^verbatim>\<open>src/swarm/registry.rs\<close>, second half of \<open>Locator\<close>). The registry's backends make feeds of peers
  (\<^verbatim>\<open>src/swarm/discovery.rs\<close>, \<^verbatim>\<open>src/swarm/peers.rs\<close>, \<^verbatim>\<open>src/swarm/dht/backend.rs\<close>: \<open>Discovery\<close>), the engine merges and
  deduplicates them (\<^verbatim>\<open>src/swarm/engine.rs\<close>: \<open>Engine\<close>), and the locator races connection attempts to the
  peers it yields (\<^verbatim>\<open>src/swarm/locator.rs\<close>: \<open>Locator\<close> has the loop, \<open>Locator_Handle\<close> the handle with its task and
  the bounded channel between them). Three theories compose all of it: \<open>Service_Path\<close> goes from a publisher's write to
  the DHT to the channel a client gets, \<open>Announced_Path\<close> from the start of a transport over mDNS to that channel,
  \<open>Service_Upkeep\<close> sets the rounds of a publisher against the minutes a client asks for.

  Connections are shared by a pool (\<^verbatim>\<open>src/pool.rs\<close>). Its three parts are three theories, and \<open>Pool_System\<close> puts them
  together: \<open>Pool_Actor\<close> is the
  main actor (\<open>handle\<close> is \<open>PoolActor::handle\<close>, \<open>run_step\<close> one round of \<open>PoolActor::run\<close>), \<open>Pool_Connection\<close> the
  actor of one connection (\<open>conn_step\<close> is one round of the \<open>select!\<close> of \<open>Ctx::run_connection\<close>), and \<open>Pool_Handle\<close>
  the public side: \<open>Shared::tx\<close> and the dropping of handles as step relations with one rule per atomic
  access, \<open>get_or_connect\<close>, \<open>open_stream\<close> and \<open>channel\<close> as functions. \<open>Pool_System\<close> is the pool actor, every
  connection actor it started, the mailboxes between them and the callers as one step relation
  (\<open>sys_step\<close>), whose rules call the handlers of the other theories; \<open>Pool_Runs\<close> has its runs: the
  answerability of requests and concrete executions; \<open>Pool_Ledger\<close> its specification, a ledger of open and
  answered requests, and the well-formedness of its states. \<open>Pool_Lease\<close> has the counter of handles with every
  atomic access a step of its own. A message to the pool that waits for room is
  already in the queue there. A stream of a pooled or direct connection is
  wrapped for tokio (\<^verbatim>\<open>src/stream.rs\<close> and \<open>PooledStream\<close>: theory \<open>Stream\<close>), and \<^verbatim>\<open>src/channel.rs\<close> (\<open>Channel\<close>) runs
  gRPC calls over it. \<^verbatim>\<open>src/error.rs\<close> and the error conversions are \<open>Errors\<close>.

  The DHT side: \<^verbatim>\<open>src/swarm/record.rs\<close> (\<open>Service_Record\<close>) defines signed advertisements and the buckets that
  hold them, \<^verbatim>\<open>src/swarm/dht/mod.rs\<close> (\<open>Dht\<close>) keys, salts and the choice of shards, \<^verbatim>\<open>src/swarm/dht/publisher.rs\<close>
  (\<open>Publisher\<close>) and \<^verbatim>\<open>src/swarm/dht/resolver.rs\<close> (\<open>Resolver\<close>) write and read a shard; \<open>Publisher_Race\<close> has several
  publishers of one bucket at the same time. \<open>Reference_Codec\<close> models
  no code: it is a concrete codec and key scheme at which the hypotheses below are shown to hold.
  \<open>Prelude\<close> has the machine types, the parts of the standard library the sources use, the shared
  interfaces and the generic lemmas.

  \<^bold>\<open>Conventions.\<close> Structs are records, enums datatypes, fixed-width unsigned integers words; results are sums
  with the error on the left; a panic is a value of its own. A definition has the name of the function it
  models, with the type's name in front where two clash. Stateful code passes its state; an actor's
  handler also returns the list of its effects (messages sent, tasks started). What becomes ready when,
  and what a channel or a stream answers, is an argument of the step, so a property over all lists of
  events holds for every schedule.

  \<^bold>\<open>Third-party code\<close> is a parameter, and what a property needs of it a named hypothesis with a witness:
  \<open>sign_correct\<close>, \<open>sign_binding\<close> (ed25519 keys), \<open>envelope_codec_injective\<close>, \<open>bucket_codec_total\<close>,
  \<open>bucket_codec_round_trip\<close>, \<open>ud_codec_round_trip\<close> (postcard, base64), \<open>no_collision\<close> (SHA-256 on the inputs
  at hand), \<open>mutable_store\<close> (the rules of mutable DHT items), \<open>dht_serves\<close> (the network gives a reader what was
  written), \<open>sweep_of\<close> (\<open>buffer_unordered\<close> answers every query), \<open>select_all_merges\<close> (the stream merger loses and invents nothing), \<open>recv_documented\<close> and
  \<open>legal_run\<close> (a tokio receiver answers that it is closed only when every sender is gone), \<open>accepts_all\<close> (an h2 stream that takes what it is given).

  \<^bold>\<open>Interfaces.\<close> \<open>ordered_map\<close> (Prelude) is what the code asks of \<open>BTreeMap\<close>, interpreted on the association
  lists that model it; \<open>machine\<close> (Prelude) is a step function with an invariant, interpreted on the pool
  actor, the connection actor, the locator loop, the transport builder and sequential handle drops, so that
  each run lemma is proved once; \<open>refinement\<close> (Prelude) is a step relation that implements another under an
  invariant, interpreted on the whole pool and its ledger; \<open>discovery_trait\<close> (Discovery) is the contract of the trait \<open>Discovery\<close>,
  interpreted on all four backends; \<open>write_wrapper\<close> (Stream) is the contract of the two stream wrappers;
  \<open>grpc_service\<close> (Rpc) is the agreement of the client and the server of a service on their paths,
  interpreted on the three services of the examples.

  \<^bold>\<open>What is shown.\<close>

  \<^item> Pool: capacity and idle-queue invariants in every run, the complete outcome of a request, one answer
    per request, stale messages ignored, reconnection after an invalidation, a leased connection is never
    closed by its actor, the actor is started once under every interleaving, retries and invalidations of
    \<open>open_stream\<close>; and defects of the shutdown and failure paths. Of the whole pool: every request made is
    in exactly one place, no handle goes to another peer than the one asked for, from every state of a
    running pool an open request can still be answered, every run is a run of the ledger, states are well
    formed; and the limit bounds slots, not connections. No wake-up of a dropped handle is lost: a
    connection nobody holds is closed.
  \<^item> Records and DHT: merging keeps the newest valid advertisement of each node, independently of the order
    of replicas up to advertisements with the same times; trimming keeps the longest prefix that fits; signatures bind a bucket; addresses are
    distinct; shards are the least ranked ones; every write of the publisher is sound, what
    is published is resolved, and concurrent publishers keep each other's advertisements, except for the first
    writes of a bucket, which the code does not compare.
  \<^item> Discovery: the engine yields every remote peer in scope once; the DHT feed yields authenticated peers
    only; the locator respects its bound, returns after a bounded number of rounds on a finite stream
    with every peer tried, its handle yields what the loop found, and \<open>first\<close> returns the first channel; pools
    are cached by key. A service published in a minute is found by every client that looks for it in
    that minute or the next, and reached when the pool can open a stream to it; the same holds of a service
    announced over mDNS. Both are shown over feeds that stay open (\<open>drive_open\<close>), for the moment at which the locator
    has caught up with them, which every run reaches. A publisher whose rounds are at most a minute apart is found at any time.
  \<^item> Channel, server, transport: order and completeness of request bodies, a fused response body with exact
    flow control, every accepted stream handled once, the protocols served, announced and published agree.

  \<^bold>\<open>Loops and bounds.\<close> There is no fuel. The retry loops run over the ranges the code has (two rounds in
  \<open>get_or_connect\<close> and \<open>open_stream\<close>, four in \<open>publish_shard\<close>); \<open>trim_loop\<close> and \<open>engine_run\<close> are total by a measure; the
  endless loops of actors and tasks are folds over the list of their events, and a list that is used up
  is a loop that waits. Overflow is written out where a counter can reach it (generations, sequence
  numbers, minutes, sizes). A timer with a period of zero panics (\<open>tokio_interval\<close>): \<open>publisher_run\<close> and
  \<open>dht_backend_feeds_checked\<close> have that branch, \<open>dht_backend_feeds\<close> is the case of a positive interval. A deadline beyond the largest
  instant panics too: \<open>on_notified_checked\<close>.

  \<^bold>\<open>Around it.\<close> \<open>Otel\<close> is \<^verbatim>\<open>src/otel.rs\<close>: the trace context a client injects is the parent a server extracts.
  \<open>Rpc\<close> is the generated code of the examples (\<^verbatim>\<open>examples/chat/src/pb/p2p_chat.v1.rs\<close>,
  \<^verbatim>\<open>examples/echo/src/pb/echo.v1.rs\<close>): stubs, routes, server configuration and enumerations; every client
  method reaches the server method it means. \<^verbatim>\<open>examples/echo/src/main.rs\<close> is \<open>Echo\<close>, the service on top of the accept
  loop of \<open>Server\<close>, and \<open>Echo_Main\<close>, the whole of \<open>main\<close>. The chat example, \<^verbatim>\<open>examples/chat/src/main.rs\<close>, is four theories:
  \<open>Chat\<close> has node state, services, benchmark loop and helpers, with the locks of its subscriber table as a
  step relation that reaches a deadlock; \<open>Chat_Client\<close> the commands, their calls and what they print;
  \<open>Chat_Node\<close> the start of a node, on top of \<open>Transport\<close>; \<open>Chat_Session\<close> the commands as whole functions, run
  against a node, and its end.

  \<^bold>\<open>Not modelled.\<close> \<^verbatim>\<open>src/lib.rs\<close> and the module lists only re-export; the accessors of \<open>ConnectionRef\<close> only forward
  to iroh; the encoding of messages and the execution of a call in the generated code are tonic's and
  prost's; the builder methods of generated clients forward to tonic's \<open>Grpc\<close>; build scripts, tests, the parsing of
  the command line and the log filter.
\<close>

section \<open>From the registry to the peers\<close>

text \<open>(C30) A service discovered through a registry with a static backend gives exactly the listed peers: those
  of the groups whose scope is every service or this service, less the local node, each named after
  its source and with the trust of such a group that lists it.\<close>

theorem registry_discovers_static_peers:
  assumes "select_all_merges script
     (en_inner (discover (add_backend (registry_new local_id) (static_backend_feeds specs)) service))"
  shows "peer_id ` set (oks (engine_run local_id {} script)) =
       \<Union> (set ` ss_peers ` {sp \<in> set specs. scope_matches (ss_scope sp) (service_to_alpn service)}) - {local_id} \<and>
     (\<forall>p \<in> set (oks (engine_run local_id {} script)). peer_source p = ''static'' \<and>
        (\<exists>sp \<in> set specs. scope_matches (ss_scope sp) (service_to_alpn service) \<and> peer_id p \<in> set (ss_peers sp) \<and>
           peer_trust p = ss_trust sp))"
proof -
  let ?alpn = "service_to_alpn service"
  let ?feed = "\<lambda>sp. static_feed (ss_peers sp) (ss_priority sp) (ss_trust sp) (ss_scope sp)"
  have feeds: "discover (add_backend (registry_new local_id) (static_backend_feeds specs)) service =
      engine_new local_id ?alpn (static_backend_feeds specs ?alpn)"
    by (simp add: discover_def add_backend_def registry_new_def build_feeds_def Let_def)
  have matching: "set (filter (\<lambda>f. scope_matches (fs_scope f) ?alpn) (static_backend_feeds specs ?alpn)) =
      ?feed ` {sp \<in> set specs. scope_matches (ss_scope sp) ?alpn}"
    by (auto simp: static_backend_feeds_def static_feed_def)
  have ids: "dp_id ` {d. Inr d \<in> set (fs_stream (?feed sp))} = set (ss_peers sp)" for sp
    by (force simp: static_feed_def)
  note scope = engine_in_scope [OF assms [unfolded feeds], unfolded matching]
  have "peer_source p = ''static'' \<and>
      (\<exists>sp \<in> set specs. scope_matches (ss_scope sp) ?alpn \<and> peer_id p \<in> set (ss_peers sp) \<and> peer_trust p = ss_trust sp)"
    if "p \<in> set (oks (engine_run local_id {} script))" for p
  proof -
    from that scope obtain sp d where sp: "sp \<in> set specs" "scope_matches (ss_scope sp) ?alpn"
        "Inr d \<in> set (fs_stream (?feed sp))" "p = peer_new d (fs_name (?feed sp)) (fs_trust (?feed sp))"
      by blast
    then have "?feed sp \<in> set (static_backend_feeds specs ?alpn)" by (auto simp: static_backend_feeds_def)
    from static_backend.peer_of_feed [OF this sp(3)] sp show ?thesis by (auto simp: static_feed_def peer_new_def)
  qed
  moreover have "peer_id ` set (oks (engine_run local_id {} script)) =
      \<Union> (set ` ss_peers ` {sp \<in> set specs. scope_matches (ss_scope sp) ?alpn}) - {local_id}"
    using scope by (auto simp: ids)
  ultimately show ?thesis by blast
qed

text \<open>Two groups, one of them for another service.\<close>

definition wr_specs :: static_backend where
  "wr_specs = add_peers (add_peers static_backend_new Any 10 100 [[1], [2]]) (Service (service_to_alpn ''other'')) 5 9 [[3]]"

theorem registry_discovers_static_peers_witness:
  "peer_id ` set (oks (engine_run [1] {} [Ready (Some (Inr (wg_peer 1 100))), Ready (Some (Inr (wg_peer 2 100)))])) = {[2]}"
proof -
  have "select_all_merges [Ready (Some (Inr (wg_peer 1 100))), Ready (Some (Inr (wg_peer 2 100)))]
      (en_inner (discover (add_backend (registry_new [1]) (static_backend_feeds wr_specs)) ''svc''))"
    by (simp add: select_all_merges_def discover_def add_backend_def registry_new_def build_feeds_def engine_new_def
        wr_specs_def add_peers_def static_backend_new_def static_backend_feeds_def static_feed_def scope_matches_def
        tagged_items_def peer_new_def wg_peer_def)
  note ids = conjunct1 [OF registry_discovers_static_peers [OF this]]
  have "filter (\<lambda>sp. scope_matches (ss_scope sp) (service_to_alpn ''svc'')) wr_specs =
      [\<lparr>ss_peers = [[1], [2]], ss_priority = 10, ss_trust = 100, ss_scope = Any\<rparr>]"
    by (simp add: wr_specs_def add_peers_def static_backend_new_def scope_matches_def)
  with ids show ?thesis unfolding set_filter [symmetric] by auto
qed

end
